(* ===== verification/Prelude.thy ===== *)
theory Prelude
  imports Main "HOL-Library.Word"
begin

text \<open>
  Shared ground of the development: the Rust number types, the outcome type of code that may
  panic, the I/O errors the program distinguishes, and generic lemmas on lists that the
  components use.

  Durations and instants are natural numbers of nanoseconds.  Code that can panic returns a
  value of type \<open>'a run\<close>: \<open>Inl p\<close> is the panic \<open>p\<close> (the process dies), \<open>Inr x\<close> is a normal
  return.  A Rust \<open>Result\<close> with an I/O error is a value of \<open>io_error + 'a\<close>.
\<close>

unbundle bit_operations_syntax

section \<open>Collections of facts\<close>

named_theorems run_simps "rewrite rules for code that may panic"
named_theorems frame_simps "fields that an operation leaves alone"

section \<open>Number types\<close>

type_synonym u8 = "8 word"
type_synonym u16 = "16 word"
type_synonym u32 = "32 word"
type_synonym u64 = "64 word"
type_synonym uuid = "128 word"
type_synonym endpoint_id = u16
type_synonym ipv4 = u32
type_synonym duration = nat
type_synonym instant = nat

text \<open>
  A reading of the wall clock (\<open>SystemTime\<close>): nanoseconds since the epoch, negative before it.
\<close>

type_synonym system_time = int

definition UNIX_EPOCH :: system_time where
  "UNIX_EPOCH = 0"

text \<open>\<open>None\<close>: the other reading is the later one.\<close>

definition duration_since :: "system_time \<Rightarrow> system_time \<Rightarrow> duration option" where
  "duration_since later earlier = (if earlier \<le> later then Some (nat (later - earlier)) else None)"

definition from_millis :: "nat \<Rightarrow> duration" where
  "from_millis ms = ms * 1000000"

definition checked_sub :: "u64 \<Rightarrow> u64 \<Rightarrow> u64 option" where
  "checked_sub a b = (if b \<le> a then Some (a - b) else None)"

section \<open>Panics and results\<close>

datatype panic =
    UnwrapNone
  | UnwrapErr
  | Unreachable
  | Ipv6NotSupported
  | UnexpectedBindError
  | SelectAllEmpty
  | DurationOverflow

datatype io_error =
    WouldBlock
  | ConnectionRefused
  | NetworkUnreachable
  | NotFound
  | AddrNotAvailable
  | NoDevice
  | OtherError nat

type_synonym 'a run = "panic + 'a"
type_synonym 'a io_result = "io_error + 'a"

definition bindR :: "'a run \<Rightarrow> ('a \<Rightarrow> 'b run) \<Rightarrow> 'b run" where
  "bindR m f = (case m of Inl p \<Rightarrow> Inl p | Inr x \<Rightarrow> f x)"

definition unwrap :: "'a option \<Rightarrow> 'a run" where
  "unwrap x = (case x of None \<Rightarrow> Inl UnwrapNone | Some y \<Rightarrow> Inr y)"

definition unwrap_result :: "'a io_result \<Rightarrow> 'a run" where
  "unwrap_result x = (case x of Inl e \<Rightarrow> Inl UnwrapErr | Inr y \<Rightarrow> Inr y)"

definition panics :: "'a run \<Rightarrow> bool" where
  "panics m = (case m of Inl p \<Rightarrow> True | Inr x \<Rightarrow> False)"

lemma bindR_simps [simp, run_simps]:
  "bindR (Inl p) f = Inl p"
  "bindR (Inr x) f = f x"
  by (simp_all add: bindR_def)

text \<open>
  \<open>Duration * u32\<close>.  A \<open>Duration\<close> has 64 bits of seconds, so it is below \<open>2 ^ 64\<close> seconds.
\<close>

definition duration_mul :: "duration \<Rightarrow> nat \<Rightarrow> duration run" where
  "duration_mul d k = (if d * k < 2 ^ 64 * 1000000000 then Inr (d * k) else Inl DurationOverflow)"

lemma bindR_assoc: "bindR (bindR m f) g = bindR m (\<lambda>x. bindR (f x) g)"
  by (simp add: bindR_def split: sum.splits)

lemma bindR_eq_Inr [run_simps]:
  "bindR m f = Inr y \<longleftrightarrow> (\<exists>x. m = Inr x \<and> f x = Inr y)"
  by (cases m) auto

lemma bindR_eq_Inl:
  "bindR m f = Inl p \<longleftrightarrow> m = Inl p \<or> (\<exists>x. m = Inr x \<and> f x = Inl p)"
  by (cases m) auto

lemma unwrap_simps [simp, run_simps]:
  "unwrap None = Inl UnwrapNone"
  "unwrap (Some x) = Inr x"
  by (simp_all add: unwrap_def)

lemma unwrap_eq_Inr [run_simps]: "unwrap x = Inr y \<longleftrightarrow> x = Some y"
  by (cases x) auto

lemma unwrap_result_simps [simp, run_simps]:
  "unwrap_result (Inl e) = Inl UnwrapErr"
  "unwrap_result (Inr x) = Inr x"
  by (simp_all add: unwrap_result_def)

lemma unwrap_result_eq_Inr [run_simps]: "unwrap_result x = Inr y \<longleftrightarrow> x = Inr y"
  by (cases x) auto

lemma panics_simps [simp, run_simps]:
  "panics (Inl p)"
  "\<not> panics (Inr x)"
  by (simp_all add: panics_def)

lemma not_panics_iff: "\<not> panics m \<longleftrightarrow> (\<exists>x. m = Inr x)"
  by (cases m) auto

text \<open>
  \<open>outcome Q P m\<close>: if \<open>m\<close> panics, the panic satisfies \<open>Q\<close>; if it returns, the value satisfies \<open>P\<close>.
  With \<open>Q\<close> everywhere false this says that \<open>m\<close> returns.
\<close>

definition outcome :: "(panic \<Rightarrow> bool) \<Rightarrow> ('a \<Rightarrow> bool) \<Rightarrow> 'a run \<Rightarrow> bool" where
  "outcome Q P m = (case m of Inl p \<Rightarrow> Q p | Inr x \<Rightarrow> P x)"

lemma outcome_simps [simp]:
  "outcome Q P (Inl p) = Q p"
  "outcome Q P (Inr x) = P x"
  by (simp_all add: outcome_def)

lemma outcome_bind [simp]: "outcome Q P (bindR m f) = outcome Q (\<lambda>x. outcome Q P (f x)) m"
  by (cases m) simp_all

lemma outcome_mono:
  "outcome Q P m \<Longrightarrow> (\<And>p. Q p \<Longrightarrow> Q' p) \<Longrightarrow> (\<And>x. P x \<Longrightarrow> P' x) \<Longrightarrow> outcome Q' P' m"
  by (cases m) simp_all

lemma outcome_after:
  "outcome Q P m \<Longrightarrow> (\<And>p. Q p \<Longrightarrow> Q' p) \<Longrightarrow> (\<And>x. P x \<Longrightarrow> outcome Q' P' (f x)) \<Longrightarrow> outcome Q' P' (bindR m f)"
  by (simp add: outcome_mono)

lemma outcome_conj: "outcome Q P m \<Longrightarrow> outcome Q' P' m \<Longrightarrow> outcome Q (\<lambda>x. P x \<and> P' x) m"
  by (cases m) simp_all

lemma outcomeD: "outcome Q P (Inr x) \<Longrightarrow> P x"
  by simp

lemma outcome_Inr: "outcome Q P m \<Longrightarrow> m = Inr x \<Longrightarrow> P x"
  by simp

lemma outcome_returns: "outcome (\<lambda>p. False) P m \<longleftrightarrow> (\<exists>x. m = Inr x \<and> P x)"
  by (cases m) simp_all

lemma outcome_iff:
  "outcome Q P m \<longleftrightarrow> (\<forall>p. m = Inl p \<longrightarrow> Q p) \<and> (\<forall>x. m = Inr x \<longrightarrow> P x)"
  by (cases m) simp_all

section \<open>Lists\<close>

text \<open>\<open>position p xs\<close> is Rust's \<open>iter().position(p)\<close>: the index of the first hit.\<close>

fun position :: "('a \<Rightarrow> bool) \<Rightarrow> 'a list \<Rightarrow> nat option" where
  "position p [] = None"
| "position p (x # xs) = (if p x then Some 0 else map_option Suc (position p xs))"

text \<open>\<open>swap_at i j xs\<close> is \<open>Vec::swap\<close>, \<open>remove_at i xs\<close> is \<open>Vec::remove\<close>, for indices in range.\<close>

definition swap_at :: "nat \<Rightarrow> nat \<Rightarrow> 'a list \<Rightarrow> 'a list" where
  "swap_at i j xs = xs[i := xs ! j, j := xs ! i]"

definition remove_at :: "nat \<Rightarrow> 'a list \<Rightarrow> 'a list" where
  "remove_at i xs = take i xs @ drop (Suc i) xs"

text \<open>\<open>update_first p f xs\<close> is \<open>iter_mut().find(p)\<close> followed by a change of the element found.\<close>

fun update_first :: "('a \<Rightarrow> bool) \<Rightarrow> ('a \<Rightarrow> 'a) \<Rightarrow> 'a list \<Rightarrow> 'a list" where
  "update_first p f [] = []"
| "update_first p f (x # xs) = (if p x then f x # xs else x # update_first p f xs)"

lemma position_None_iff: "position p xs = None \<longleftrightarrow> (\<forall>x\<in>set xs. \<not> p x)"
  by (induction xs) auto

lemma position_append:
  "\<forall>y\<in>set ys. \<not> p y \<Longrightarrow> p x \<Longrightarrow> position p (ys @ x # zs) = Some (length ys)"
  by (induction ys) auto

lemma position_SomeE:
  assumes "position p xs = Some i"
  obtains ys x zs where "xs = ys @ x # zs" "length ys = i" "p x" "\<forall>y\<in>set ys. \<not> p y"
  using assms
proof (induction xs arbitrary: i thesis)
  case Nil
  then show ?case by simp
next
  case (Cons a xs)
  show ?case
  proof (cases "p a")
    case True
    with Cons.prems show ?thesis by (auto intro: Cons.prems(1) [of "[]" a xs])
  next
    case False
    with Cons.prems(2) obtain j where j: "position p xs = Some j" "i = Suc j" by auto
    from Cons.IH [OF _ j(1)] obtain ys x zs
      where "xs = ys @ x # zs" "length ys = j" "p x" "\<forall>y\<in>set ys. \<not> p y" by blast
    with False j(2) show ?thesis by (intro Cons.prems(1) [of "a # ys" x zs]) auto
  qed
qed

lemma position_less: "position p xs = Some i \<Longrightarrow> i < length xs"
  by (erule position_SomeE) auto

lemma remove_at_split [simp]: "remove_at (length ys) (ys @ x # zs) = ys @ zs"
  by (simp add: remove_at_def)

lemma swap_at_split:
  "swap_at (length ys) (length ys + Suc (length zs)) (ys @ x # zs @ [z]) = ys @ z # zs @ [x]"
  by (simp add: swap_at_def list_update_append nth_append)

lemma filter_update:
  "n < length xs \<Longrightarrow> \<not> P (xs ! n) \<Longrightarrow> \<not> P x \<Longrightarrow> filter P (xs[n := x]) = filter P xs"
proof (induction xs arbitrary: n)
  case (Cons y ys)
  then show ?case by (cases n) auto
qed simp

lemma length_swap_at [simp]: "length (swap_at i j xs) = length xs"
  by (simp add: swap_at_def)

lemma map_update_first:
  "(\<And>x. g (f x) = g x) \<Longrightarrow> map g (update_first p f xs) = map g xs"
  by (induction xs) auto

lemma length_update_first [simp]: "length (update_first p f xs) = length xs"
  by (induction xs) auto

lemma set_update_first_subset: "set (update_first p f xs) \<subseteq> set xs \<union> f ` set xs"
  by (induction xs) auto

lemma update_first_none: "\<forall>x\<in>set xs. \<not> p x \<Longrightarrow> update_first p f xs = xs"
  by (induction xs) auto

end
