(* ===== verification/Ordered_Map.thy ===== *)
theory Ordered_Map
  imports Prelude
begin

text \<open>
  \<open>std::collections::BTreeMap\<close> as the program uses it: an association list with strictly
  increasing keys.  The locale \<open>ordered_map\<close> is the interface the packet sorter and the path
  latency estimator rely on, stated through the lookup function; its lemmas are proved once
  from the laws.  The interpretation \<open>bt\<close> discharges the laws for the list operations.
\<close>

section \<open>The interface\<close>

locale ordered_map =
  fixes invar :: "'m \<Rightarrow> bool"
    and empty :: "'m"
    and lookup :: "'m \<Rightarrow> 'k::linorder \<Rightarrow> 'v option"
    and first :: "'m \<Rightarrow> ('k \<times> 'v) option"
    and last :: "'m \<Rightarrow> ('k \<times> 'v) option"
    and pop_first :: "'m \<Rightarrow> (('k \<times> 'v) \<times> 'm) option"
    and put :: "'k \<Rightarrow> 'v \<Rightarrow> 'm \<Rightarrow> 'm"
    and len :: "'m \<Rightarrow> nat"
  assumes invar_empty: "invar empty"
    and lookup_empty: "lookup empty = Map.empty"
    and finite_dom: "invar m \<Longrightarrow> finite (dom (lookup m))"
    and first_None: "invar m \<Longrightarrow> first m = None \<longleftrightarrow> dom (lookup m) = {}"
    and first_Some: "invar m \<Longrightarrow> first m = Some (k, v) \<Longrightarrow>
          lookup m k = Some v \<and> (\<forall>k'\<in>dom (lookup m). k \<le> k')"
    and last_None: "invar m \<Longrightarrow> last m = None \<longleftrightarrow> dom (lookup m) = {}"
    and last_Some: "invar m \<Longrightarrow> last m = Some (k, v) \<Longrightarrow>
          lookup m k = Some v \<and> (\<forall>k'\<in>dom (lookup m). k' \<le> k)"
    and pop_first_None: "pop_first m = None \<longleftrightarrow> first m = None"
    and pop_first_Some: "invar m \<Longrightarrow> pop_first m = Some ((k, v), m') \<Longrightarrow>
          first m = Some (k, v) \<and> invar m' \<and> lookup m' = (lookup m)(k := None)"
    and invar_put: "invar m \<Longrightarrow> invar (put k v m)"
    and lookup_put: "invar m \<Longrightarrow> lookup (put k v m) = (lookup m)(k \<mapsto> v)"
    and len_card: "invar m \<Longrightarrow> len m = card (dom (lookup m))"
begin

lemma first_is_Min:
  assumes "invar m" "first m = Some (k, v)"
  shows "k = Min (dom (lookup m))"
  using first_Some [OF assms] finite_dom [OF assms(1)]
  by (intro Min_eqI [symmetric]) auto

lemma last_is_Max:
  assumes "invar m" "last m = Some (k, v)"
  shows "k = Max (dom (lookup m))"
  using last_Some [OF assms] finite_dom [OF assms(1)]
  by (intro Max_eqI [symmetric]) auto

lemma first_le_last:
  assumes "invar m" "first m = Some (k, v)" "last m = Some (k', v')"
  shows "k \<le> k'"
  using first_Some [OF assms(1,2)] last_Some [OF assms(1,3)] by auto

lemma pop_first_dom:
  assumes "invar m" "pop_first m = Some ((k, v), m')"
  shows "dom (lookup m) = insert k (dom (lookup m'))" "k \<notin> dom (lookup m')"
    and "\<forall>k'\<in>dom (lookup m'). k < k'"
proof -
  have eq: "first m = Some (k, v)" "lookup m' = (lookup m)(k := None)"
    using pop_first_Some [OF assms] by auto
  note fs = first_Some [OF assms(1) eq(1)]
  show "dom (lookup m) = insert k (dom (lookup m'))" "k \<notin> dom (lookup m')"
    using fs eq(2) by (auto split: if_splits)
  show "\<forall>k'\<in>dom (lookup m'). k < k'"
    using fs eq(2) by (fastforce split: if_splits simp: order.strict_iff_order)
qed

lemma len_pop_first:
  assumes "invar m" "pop_first m = Some ((k, v), m')"
  shows "Suc (len m') = len m"
proof -
  have "invar m'" using pop_first_Some [OF assms] by blast
  then show ?thesis
    using pop_first_dom [OF assms] finite_dom [of m'] assms(1) by (simp add: len_card)
qed

lemma len_put:
  assumes "invar m"
  shows "len (put k v m) = (if lookup m k = None then Suc (len m) else len m)"
  using assms finite_dom [OF assms]
  by (auto simp: len_card invar_put lookup_put card_insert_if domIff)

lemma len_put_le: "invar m \<Longrightarrow> len (put k v m) \<le> Suc (len m)"
  by (simp add: len_put)

end

section \<open>The model: strictly sorted association lists\<close>

type_synonym ('k, 'v) btree = "('k \<times> 'v) list"

definition bt_inv :: "('k::linorder, 'v) btree \<Rightarrow> bool" where
  "bt_inv q \<longleftrightarrow> sorted_wrt (<) (map fst q)"

definition bt_first :: "('k, 'v) btree \<Rightarrow> ('k \<times> 'v) option" where
  "bt_first q = (case q of [] \<Rightarrow> None | e # q' \<Rightarrow> Some e)"

definition bt_last :: "('k, 'v) btree \<Rightarrow> ('k \<times> 'v) option" where
  "bt_last q = (if q = [] then None else Some (last q))"

definition bt_pop_first :: "('k, 'v) btree \<Rightarrow> (('k \<times> 'v) \<times> ('k, 'v) btree) option" where
  "bt_pop_first q = (case q of [] \<Rightarrow> None | e # q' \<Rightarrow> Some (e, q'))"

fun bt_insert :: "'k::linorder \<Rightarrow> 'v \<Rightarrow> ('k, 'v) btree \<Rightarrow> ('k, 'v) btree" where
  "bt_insert k v [] = [(k, v)]"
| "bt_insert k v ((a, b) # q) =
    (if k < a then (k, v) # (a, b) # q
     else if k = a then (k, v) # q
     else (a, b) # bt_insert k v q)"

definition bt_contains_key :: "'k \<Rightarrow> ('k, 'v) btree \<Rightarrow> bool" where
  "bt_contains_key k q = (map_of q k \<noteq> None)"

text \<open>\<open>entry(k).or_insert(v)\<close> keeps a value already there; \<open>entry(k).and_modify(f)\<close> changes it.\<close>

definition bt_or_insert :: "'k::linorder \<Rightarrow> 'v \<Rightarrow> ('k, 'v) btree \<Rightarrow> ('k, 'v) btree" where
  "bt_or_insert k v q = (if bt_contains_key k q then q else bt_insert k v q)"

definition bt_and_modify :: "'k::linorder \<Rightarrow> ('v \<Rightarrow> 'v) \<Rightarrow> ('k, 'v) btree \<Rightarrow> ('k, 'v) btree" where
  "bt_and_modify k f q = (case map_of q k of None \<Rightarrow> q | Some v \<Rightarrow> bt_insert k (f v) q)"

lemma bt_inv_Nil [simp]: "bt_inv []"
  by (simp add: bt_inv_def)

lemma bt_inv_Cons [simp]:
  "bt_inv ((k, v) # q) \<longleftrightarrow> (\<forall>k'\<in>fst ` set q. k < k') \<and> bt_inv q"
  by (auto simp: bt_inv_def)

lemma dom_map_of_fst: "dom (map_of q) = fst ` set q"
  by (rule dom_map_of_conv_image_fst)

lemma map_of_bt_insert: "bt_inv q \<Longrightarrow> map_of (bt_insert k v q) = (map_of q)(k \<mapsto> v)"
proof (induction k v q rule: bt_insert.induct)
  case (2 k v a b q)
  then show ?case by (auto simp: fun_eq_iff)
qed simp

lemma keys_bt_insert: "fst ` set (bt_insert k v q) = insert k (fst ` set q)"
  by (induction k v q rule: bt_insert.induct) auto

lemma bt_inv_bt_insert [simp]: "bt_inv q \<Longrightarrow> bt_inv (bt_insert k v q)"
  by (induction k v q rule: bt_insert.induct) (auto simp: keys_bt_insert)

lemma bt_inv_distinct: "bt_inv q \<Longrightarrow> distinct (map fst q)"
  unfolding bt_inv_def by (metis strict_sorted_iff)

lemma bt_inv_length: "bt_inv q \<Longrightarrow> length q = card (fst ` set q)"
  using bt_inv_distinct [of q] distinct_card [of "map fst q"] by simp

lemma bt_inv_last: "bt_inv q \<Longrightarrow> q \<noteq> [] \<Longrightarrow> \<forall>k\<in>fst ` set q. k \<le> fst (last q)"
proof (induction q)
  case (Cons e q)
  then show ?case by (cases e; cases "q = []") (auto intro: order.strict_implies_order)
qed simp

lemma map_of_last: "bt_inv q \<Longrightarrow> q \<noteq> [] \<Longrightarrow> map_of q (fst (last q)) = Some (snd (last q))"
  using bt_inv_distinct [of q] last_in_set [of q] by (simp add: map_of_eq_Some_iff)

interpretation bt: ordered_map bt_inv "[]" map_of bt_first bt_last bt_pop_first bt_insert length
proof (unfold_locales, goal_cases)
  case (5 m k v)
  then show ?case by (cases m) (auto simp: bt_first_def dom_map_of_fst intro: order.strict_implies_order)
next
  case (7 m k v)
  then have "m \<noteq> []" "(k, v) = last m" by (auto simp: bt_last_def split: if_splits)
  then show ?case
    using bt_inv_last [of m] map_of_last [of m] 7(1) by (metis dom_map_of_fst fst_conv snd_conv)
next
  case (9 m k v m')
  then show ?case
    by (cases m) (auto simp: bt_first_def bt_pop_first_def fun_eq_iff map_of_eq_None_iff)
qed (auto simp: bt_first_def bt_last_def bt_pop_first_def map_of_bt_insert finite_dom_map_of
    dom_map_of_fst bt_inv_length split: list.splits)

section \<open>Entry operations\<close>

lemma bt_contains_key_iff: "bt_contains_key k q \<longleftrightarrow> k \<in> fst ` set q"
  by (auto simp: bt_contains_key_def map_of_eq_None_iff)

lemma bt_inv_or_insert [simp]: "bt_inv q \<Longrightarrow> bt_inv (bt_or_insert k v q)"
  by (simp add: bt_or_insert_def)

lemma keys_bt_or_insert: "fst ` set (bt_or_insert k v q) = insert k (fst ` set q)"
  by (auto simp: bt_or_insert_def keys_bt_insert bt_contains_key_iff)

lemma map_of_bt_or_insert:
  "bt_inv q \<Longrightarrow> map_of (bt_or_insert k v q) =
    (case map_of q k of None \<Rightarrow> (map_of q)(k \<mapsto> v) | Some _ \<Rightarrow> map_of q)"
  by (auto simp: bt_or_insert_def bt_contains_key_def map_of_bt_insert split: option.splits)

lemma bt_or_insert_nonempty [simp]: "bt_or_insert k v q \<noteq> []"
  using keys_bt_or_insert [of k v q] by auto

lemma bt_inv_and_modify [simp]: "bt_inv q \<Longrightarrow> bt_inv (bt_and_modify k f q)"
  by (simp add: bt_and_modify_def split: option.split)

lemma map_of_bt_and_modify:
  "bt_inv q \<Longrightarrow> map_of (bt_and_modify k f q) = (map_of q)(k := map_option f (map_of q k))"
  by (auto simp: bt_and_modify_def map_of_bt_insert fun_eq_iff split: option.split)

lemma keys_bt_and_modify: "fst ` set (bt_and_modify k f q) = fst ` set q"
proof (cases "map_of q k")
  case (Some v)
  then have "k \<in> fst ` set q" by (metis domI dom_map_of_fst)
  with Some show ?thesis by (auto simp: bt_and_modify_def keys_bt_insert)
qed (simp add: bt_and_modify_def)

lemma length_bt_and_modify: "bt_inv q \<Longrightarrow> length (bt_and_modify k f q) = length q"
  by (simp add: bt_inv_length keys_bt_and_modify)

lemma set_bt_insert_subset: "set (bt_insert k v q) \<subseteq> insert (k, v) (set q)"
  by (induction k v q rule: bt_insert.induct) auto

lemma set_bt_or_insert_subset: "set (bt_or_insert k v q) \<subseteq> insert (k, v) (set q)"
  using set_bt_insert_subset [of k v q] by (auto simp: bt_or_insert_def)

lemma bt_insert_last: "\<forall>a\<in>fst ` set q. a < k \<Longrightarrow> bt_insert k v q = q @ [(k, v)]"
  by (induction k v q rule: bt_insert.induct) auto

end
