(* ===== verification/Machine.thy ===== *)
theory Machine
  imports Prelude
begin

text \<open>
  Runs of event-driven components.  A component is a step function on its state; a run is a fold
  of the step over a list of events.  The locale \<open>machine\<close> lifts an invariant of single steps to
  runs; \<open>emitting_machine\<close> extends it with the values each step emits and lifts a relation between
  the state and what was emitted so far.
\<close>

locale machine =
  fixes step :: "'e \<Rightarrow> 's \<Rightarrow> 's"
    and inv :: "'s \<Rightarrow> bool"
  assumes inv_step: "inv s \<Longrightarrow> inv (step e s)"
begin

lemma inv_run: "inv s \<Longrightarrow> inv (fold step es s)"
  by (induction es arbitrary: s) (simp_all add: inv_step)

lemma inv_run_prefix: "inv s \<Longrightarrow> inv (fold step (take n es) s)"
  by (rule inv_run)

end

text \<open>\<open>run_emit step out s es\<close> collects what the steps emit, in order.\<close>

fun run_emit :: "('e \<Rightarrow> 's \<Rightarrow> 's) \<Rightarrow> ('e \<Rightarrow> 's \<Rightarrow> 'o list) \<Rightarrow> 'e list \<Rightarrow> 's \<Rightarrow> 'o list" where
  "run_emit step out [] s = []"
| "run_emit step out (e # es) s = out e s @ run_emit step out es (step e s)"

lemma run_emit_append:
  "run_emit step out (es @ es') s = run_emit step out es s @ run_emit step out es' (fold step es s)"
  by (induction es arbitrary: s) simp_all

locale emitting_machine = machine step inv
  for step :: "'e \<Rightarrow> 's \<Rightarrow> 's" and inv :: "'s \<Rightarrow> bool" +
  fixes out :: "'e \<Rightarrow> 's \<Rightarrow> 'o list"
    and good :: "'e \<Rightarrow> bool"
    and hist :: "'o list \<Rightarrow> 's \<Rightarrow> bool"
  assumes hist_step: "inv s \<Longrightarrow> good e \<Longrightarrow> hist os s \<Longrightarrow> hist (os @ out e s) (step e s)"
begin

lemma hist_run:
  "inv s \<Longrightarrow> list_all good es \<Longrightarrow> hist os s \<Longrightarrow>
    hist (os @ run_emit step out es s) (fold step es s)"
proof (induction es arbitrary: s os)
  case Nil
  then show ?case by simp
next
  case (Cons e es)
  then have "hist ((os @ out e s) @ run_emit step out es (step e s)) (fold step es (step e s))"
    by (intro Cons.IH hist_step inv_step) auto
  then show ?case by simp
qed

end

end
