(* ===== verification/Router.thy ===== *)
theory Router
  imports Machine
begin

text \<open>
  The routing table of \<open>crates/common/src/router.rs\<close>: a vector of routes with the endpoint
  each leads to.  The locale \<open>route_table\<close> is the interface the connection manager relies on,
  stated over the set of entries; the interpretation \<open>rt\<close> discharges it for the vector.
\<close>

section \<open>Data and operations\<close>

record route =
  route_address :: ipv4
  subnet_mask :: ipv4

definition calculate_network_address :: "route \<Rightarrow> ipv4" where
  "calculate_network_address r = route_address r AND subnet_mask r"

definition reachable_from :: "route \<Rightarrow> ipv4 \<Rightarrow> bool" where
  "reachable_from r address_to_test =
    (if calculate_network_address r = (address_to_test AND subnet_mask r) then True else False)"

record address_endpoint_mapping =
  aem_address :: route
  aem_endpoint_id :: endpoint_id

type_synonym router = "address_endpoint_mapping list"

definition router_new :: router where
  "router_new = []"

definition is_default_route :: "address_endpoint_mapping \<Rightarrow> bool" where
  "is_default_route n \<longleftrightarrow>
    route_address (aem_address n) = 0 \<and> subnet_mask (aem_address n) = 0"

text \<open>The second half of \<open>insert_route\<close>: the first default route changes places with the last entry.\<close>

definition swap_default_route :: "router \<Rightarrow> router" where
  "swap_default_route routes =
    (case position is_default_route routes of
       Some index \<Rightarrow>
         if index \<noteq> length routes - 1 then swap_at index (length routes - 1) routes
         else routes
     | None \<Rightarrow> routes)"

definition insert_route :: "route \<Rightarrow> endpoint_id \<Rightarrow> router \<Rightarrow> router" where
  "insert_route address endpoint_id routes =
    (let aem = \<lparr>aem_address = address, aem_endpoint_id = endpoint_id\<rparr>;
         routes = (if aem \<notin> set routes then routes @ [aem] else routes)
     in swap_default_route routes)"

fun lookup_loop :: "ipv4 \<Rightarrow> router \<Rightarrow> endpoint_id list \<Rightarrow> endpoint_id list" where
  "lookup_loop a [] endpoints = endpoints"
| "lookup_loop a (aem # routes) endpoints =
    lookup_loop a routes
      (if reachable_from (aem_address aem) a
       then if aem_endpoint_id aem \<notin> set endpoints
            then endpoints @ [aem_endpoint_id aem] else endpoints
       else endpoints)"

definition router_lookup :: "router \<Rightarrow> ipv4 \<Rightarrow> endpoint_id list" where
  "router_lookup routes address_to_lookup = lookup_loop address_to_lookup routes []"

definition remove_route_to_endpoint :: "endpoint_id \<Rightarrow> router \<Rightarrow> router" where
  "remove_route_to_endpoint endpoint_id routes =
    filter (\<lambda>aem. aem_endpoint_id aem \<noteq> endpoint_id) routes"

section \<open>Matching\<close>

lemma reachable_from_iff:
  "reachable_from r a \<longleftrightarrow> route_address r AND subnet_mask r = a AND subnet_mask r"
  by (simp add: reachable_from_def calculate_network_address_def)

lemma reachable_from_default [simp]: "is_default_route n \<Longrightarrow> reachable_from (aem_address n) a"
  by (simp add: is_default_route_def reachable_from_iff)

text \<open>The mask of a prefix of \<open>n\<close> bits, as \<open>255.255.255.0\<close> is for \<open>n = 24\<close>.\<close>

definition prefix_mask :: "nat \<Rightarrow> ipv4" where
  "prefix_mask n = push_bit (32 - n) (mask n)"

lemma bit_ipv4_less: "bit (a :: ipv4) i \<Longrightarrow> i < 32"
  using bit_imp_le_length [of a i] by simp

lemma bit_prefix_mask: "n \<le> 32 \<Longrightarrow> bit (prefix_mask n) i \<longleftrightarrow> i < 32 \<and> 32 - n \<le> i"
  by (auto simp: prefix_mask_def bit_push_bit_iff bit_mask_iff dest: bit_imp_le_length)

section \<open>Inserting\<close>

lemma swap_default_route_cases:
  obtains (none) "swap_default_route routes = routes" "\<forall>x\<in>set routes. \<not> is_default_route x"
  | (last) ys x where "swap_default_route routes = routes" "routes = ys @ [x]"
      "is_default_route x" "\<forall>y\<in>set ys. \<not> is_default_route y"
  | (swapped) ys x zs z where "routes = ys @ x # zs @ [z]"
      "swap_default_route routes = ys @ z # zs @ [x]"
      "is_default_route x" "\<forall>y\<in>set ys. \<not> is_default_route y"
proof (cases "position is_default_route routes")
  case None
  then have "swap_default_route routes = routes" by (simp add: swap_default_route_def)
  moreover have "\<forall>x\<in>set routes. \<not> is_default_route x" using None by (simp add: position_None_iff)
  ultimately show ?thesis by (rule none)
next
  case (Some i)
  then obtain ys x rest where s: "routes = ys @ x # rest" "length ys = i"
    "is_default_route x" "\<forall>y\<in>set ys. \<not> is_default_route y"
    by (rule position_SomeE)
  show ?thesis
  proof (cases rest rule: rev_cases)
    case Nil
    then show ?thesis using last [of ys x] s Some by (simp add: swap_default_route_def)
  next
    case (snoc zs z)
    then have "swap_default_route routes =
        swap_at (length ys) (length ys + Suc (length zs)) (ys @ x # zs @ [z])"
      using Some s by (simp add: swap_default_route_def)
    also have "\<dots> = ys @ z # zs @ [x]" by (rule swap_at_split)
    finally show ?thesis using swapped [of ys x zs z] s(1,3,4) snoc by simp
  qed
qed

lemma set_swap_default_route [simp]: "set (swap_default_route routes) = set routes"
  by (rule swap_default_route_cases [of routes]) auto

lemma distinct_swap_default_route [simp]: "distinct (swap_default_route routes) = distinct routes"
  by (rule swap_default_route_cases [of routes]) auto

lemma set_insert_route:
  "set (insert_route a e routes) = insert \<lparr>aem_address = a, aem_endpoint_id = e\<rparr> (set routes)"
  by (auto simp: insert_route_def Let_def)

lemma distinct_insert_route: "distinct routes \<Longrightarrow> distinct (insert_route a e routes)"
  by (simp add: insert_route_def Let_def)

text \<open>Default routes follow every other route; this is what the swap is for.\<close>

definition defaults_last :: "router \<Rightarrow> bool" where
  "defaults_last routes \<longleftrightarrow>
    routes = filter (\<lambda>n. \<not> is_default_route n) routes @ filter is_default_route routes"

lemma defaults_lastI:
  assumes "routes = ns @ ds" "\<forall>n\<in>set ns. \<not> is_default_route n" "\<forall>d\<in>set ds. is_default_route d"
  shows "defaults_last routes"
proof -
  have "filter (\<lambda>n. \<not> is_default_route n) routes = ns" "filter is_default_route routes = ds"
    using assms by (auto simp: filter_empty_conv)
  then show ?thesis using assms(1) by (simp add: defaults_last_def)
qed

lemma defaults_lastE:
  assumes "defaults_last routes"
  obtains ns ds where "routes = ns @ ds"
    "\<forall>n\<in>set ns. \<not> is_default_route n" "\<forall>d\<in>set ds. is_default_route d"
proof
  show "routes = filter (\<lambda>n. \<not> is_default_route n) routes @ filter is_default_route routes"
    using assms by (simp add: defaults_last_def)
qed simp_all

text \<open>A default route inside the default part, or one entry beyond it, is all the swap can meet.\<close>

lemma defaults_last_tail:
  assumes "ns @ ds = ys @ x # zs" "\<forall>n\<in>set ns. \<not> is_default_route n"
    and "\<forall>d\<in>set ds. is_default_route d" "is_default_route x"
  shows "\<forall>d\<in>set zs. is_default_route d"
  using assms by (auto simp: append_eq_append_conv2 append_eq_Cons_conv)

lemma defaults_last_swap:
  assumes "defaults_last (butlast routes) \<or> defaults_last routes"
  shows "defaults_last (swap_default_route routes)"
proof (rule swap_default_route_cases [of routes])
  assume "swap_default_route routes = routes" "\<forall>x\<in>set routes. \<not> is_default_route x"
  then show ?thesis by (intro defaults_lastI [of _ routes "[]"]) auto
next
  fix ys x
  assume "swap_default_route routes = routes" "routes = ys @ [x]"
    "is_default_route x" "\<forall>y\<in>set ys. \<not> is_default_route y"
  then show ?thesis by (intro defaults_lastI [of _ ys "[x]"]) auto
next
  fix ys x zs z
  assume sw: "routes = ys @ x # zs @ [z]" "swap_default_route routes = ys @ z # zs @ [x]"
    "is_default_route x" "\<forall>y\<in>set ys. \<not> is_default_route y"
  have tail: "\<forall>d\<in>set zs. is_default_route d"
  proof -
    consider "defaults_last (ys @ x # zs)" | "defaults_last (ys @ x # zs @ [z])"
      using assms sw(1) by (auto simp: butlast_append)
    then show ?thesis
    proof cases
      case 1
      then show ?thesis by (rule defaults_lastE) (metis defaults_last_tail sw(3))
    next
      case 2
      then have "\<forall>d\<in>set (zs @ [z]). is_default_route d"
        by (rule defaults_lastE) (metis defaults_last_tail sw(3))
      then show ?thesis by simp
    qed
  qed
  show ?thesis
  proof (cases "is_default_route z")
    case True
    then show ?thesis using tail sw(2-4) by (intro defaults_lastI [of _ ys "z # zs @ [x]"]) auto
  next
    case False
    then show ?thesis using tail sw(2-4) by (intro defaults_lastI [of _ "ys @ [z]" "zs @ [x]"]) auto
  qed
qed

lemma defaults_last_insert_route: "defaults_last routes \<Longrightarrow> defaults_last (insert_route a e routes)"
  by (simp add: insert_route_def Let_def defaults_last_swap)

lemma defaults_last_Nil [simp]: "defaults_last []"
  by (simp add: defaults_last_def)

lemma defaults_last_remove:
  assumes "defaults_last routes"
  shows "defaults_last (remove_route_to_endpoint e routes)"
proof (rule defaults_lastE [OF assms])
  fix ns ds
  assume "routes = ns @ ds" "\<forall>n\<in>set ns. \<not> is_default_route n" "\<forall>d\<in>set ds. is_default_route d"
  then show ?thesis
    by (intro defaults_lastI [of _ "remove_route_to_endpoint e ns" "remove_route_to_endpoint e ds"])
      (auto simp: remove_route_to_endpoint_def)
qed

lemma distinct_remove_route: "distinct routes \<Longrightarrow> distinct (remove_route_to_endpoint e routes)"
  by (simp add: remove_route_to_endpoint_def)

section \<open>Looking up\<close>

text \<open>\<open>dedup xs\<close> keeps the first occurrence of each element, as the \<open>contains\<close> guard of the loop does.\<close>

definition dedup :: "'a list \<Rightarrow> 'a list" where
  "dedup xs = rev (remdups (rev xs))"

lemma dedup_simps [simp]:
  "dedup [] = []"
  "set (dedup xs) = set xs"
  "distinct (dedup xs)"
  by (simp_all add: dedup_def)

lemma dedup_snoc: "dedup (xs @ [x]) = (if x \<in> set xs then dedup xs else dedup xs @ [x])"
  by (simp add: dedup_def)

lemma dedup_append:
  "dedup (xs @ ys) = dedup xs @ dedup (filter (\<lambda>y. y \<notin> set xs) ys)"
  by (induction ys rule: rev_induct) (auto simp: dedup_snoc simp flip: append_assoc)

lemma filter_dedup: "filter p (dedup xs) = dedup (filter p xs)"
  by (induction xs rule: rev_induct) (auto simp: dedup_snoc)

definition matching :: "ipv4 \<Rightarrow> router \<Rightarrow> router" where
  "matching a routes = filter (\<lambda>aem. reachable_from (aem_address aem) a) routes"

lemma matching_append [simp]: "matching a (xs @ ys) = matching a xs @ matching a ys"
  by (simp add: matching_def)

lemma lookup_loop_dedup:
  "lookup_loop a routes (dedup eps) = dedup (eps @ map aem_endpoint_id (matching a routes))"
proof (induction routes arbitrary: eps)
  case Nil
  then show ?case by (simp add: matching_def)
next
  case (Cons aem routes)
  have "(if reachable_from (aem_address aem) a
       then if aem_endpoint_id aem \<notin> set (dedup eps)
            then dedup eps @ [aem_endpoint_id aem] else dedup eps
       else dedup eps) = dedup (eps @ map aem_endpoint_id (matching a [aem]))"
    by (simp add: matching_def dedup_snoc)
  then show ?case
    using Cons.IH [of "eps @ map aem_endpoint_id (matching a [aem])"] by (simp add: matching_def)
qed

lemma router_lookup_dedup:
  "router_lookup routes a = dedup (map aem_endpoint_id (matching a routes))"
  using lookup_loop_dedup [of a routes "[]"] by (simp add: router_lookup_def)

lemma set_router_lookup:
  "set (router_lookup routes a) =
    {e. \<exists>aem\<in>set routes. aem_endpoint_id aem = e \<and> reachable_from (aem_address aem) a}"
  by (auto simp: router_lookup_dedup matching_def)

lemma router_lookup_remove:
  "router_lookup (remove_route_to_endpoint e routes) a = filter (\<lambda>x. x \<noteq> e) (router_lookup routes a)"
proof -
  have "map aem_endpoint_id (matching a (remove_route_to_endpoint e routes)) =
      filter (\<lambda>x. x \<noteq> e) (map aem_endpoint_id (matching a routes))"
    by (simp add: matching_def remove_route_to_endpoint_def filter_map o_def conj_commute)
  then show ?thesis by (simp add: router_lookup_dedup filter_dedup)
qed

section \<open>The interface the connection manager uses\<close>

locale route_table =
  fixes empty :: "'t"
    and ins :: "'r \<Rightarrow> 'e \<Rightarrow> 't \<Rightarrow> 't"
    and find :: "'t \<Rightarrow> 'a \<Rightarrow> 'e list"
    and drop_endpoint :: "'e \<Rightarrow> 't \<Rightarrow> 't"
    and entries :: "'t \<Rightarrow> ('r \<times> 'e) set"
    and covers :: "'r \<Rightarrow> 'a \<Rightarrow> bool"
  assumes entries_empty: "entries empty = {}"
    and entries_ins: "entries (ins r e t) = insert (r, e) (entries t)"
    and entries_drop: "entries (drop_endpoint e t) = {p \<in> entries t. snd p \<noteq> e}"
    and set_find: "set (find t a) = {e. \<exists>r. (r, e) \<in> entries t \<and> covers r a}"
    and distinct_find: "distinct (find t a)"
begin

definition targets :: "'t \<Rightarrow> 'e set" where
  "targets t = snd ` entries t"

lemma targets_empty: "targets empty = {}"
  by (simp add: targets_def entries_empty)

lemma targets_ins: "targets (ins r e t) = insert e (targets t)"
  by (simp add: targets_def entries_ins)

lemma targets_drop: "targets (drop_endpoint e t) = targets t - {e}"
  by (auto simp: targets_def entries_drop)

lemma targets_fold_ins: "targets (fold (\<lambda>r. ins r e) rs t) = targets t \<union> (if rs = [] then {} else {e})"
  by (induction rs arbitrary: t) (auto simp: targets_ins)

lemma entries_fold_ins: "entries (fold (\<lambda>r. ins r e) rs t) = entries t \<union> (\<lambda>r. (r, e)) ` set rs"
  by (induction rs arbitrary: t) (auto simp: entries_ins)

lemma find_targets: "set (find t a) \<subseteq> targets t"
  by (force simp: set_find targets_def)

lemma find_after_drop: "e \<notin> set (find (drop_endpoint e t) a)"
  by (simp add: set_find entries_drop)

lemma find_after_announce:
  "r \<in> set rs \<Longrightarrow> covers r a \<Longrightarrow> e \<in> set (find (fold (\<lambda>r. ins r e) rs t) a)"
  by (auto simp: set_find entries_fold_ins)

end

definition route_entries :: "router \<Rightarrow> (route \<times> endpoint_id) set" where
  "route_entries routes = (\<lambda>aem. (aem_address aem, aem_endpoint_id aem)) ` set routes"

definition route_targets :: "router \<Rightarrow> endpoint_id set" where
  "route_targets routes = aem_endpoint_id ` set routes"

interpretation rt: route_table router_new insert_route router_lookup remove_route_to_endpoint
    route_entries reachable_from
  rewrites "route_table.targets route_entries = route_targets"
proof -
  show "route_table router_new insert_route router_lookup remove_route_to_endpoint
      route_entries reachable_from"
    by unfold_locales
      (auto simp: route_entries_def router_new_def set_insert_route remove_route_to_endpoint_def
        router_lookup_dedup matching_def image_iff)
  then show "route_table.targets route_entries = route_targets"
    by (simp add: route_table.targets_def fun_eq_iff route_entries_def route_targets_def image_image)
qed

section \<open>Properties\<close>

datatype router_op = Announce route endpoint_id | Forget endpoint_id

fun router_step :: "router_op \<Rightarrow> router \<Rightarrow> router" where
  "router_step (Announce r e) routes = insert_route r e routes"
| "router_step (Forget e) routes = remove_route_to_endpoint e routes"

definition router_inv :: "router \<Rightarrow> bool" where
  "router_inv routes \<longleftrightarrow> distinct routes \<and> defaults_last routes"

interpretation rm: machine router_step router_inv
proof
  fix routes e
  assume "router_inv routes"
  then show "router_inv (router_step e routes)"
    by (cases e) (auto simp: router_inv_def distinct_insert_route defaults_last_insert_route
        defaults_last_remove distinct_remove_route)
qed

lemma router_inv_new: "router_inv router_new"
  by (simp add: router_inv_def router_new_def)

text \<open>
  C19: Whatever routes are inserted and removed, the table holds no entry twice and every default
  route (0.0.0.0/0) comes after every other route, as the comment on \<open>insert_route\<close> asks.
\<close>

theorem default_routes_stay_last:
  "distinct (fold router_step ops router_new) \<and> defaults_last (fold router_step ops router_new)"
  using rm.inv_run [OF router_inv_new, of ops] by (simp add: router_inv_def)

text \<open>
  C20: A lookup returns exactly the endpoints some entry of the table reaches the address through,
  each once.  In a table built by the operations the endpoints with a specific route come first,
  those that only a default route reaches come last.
\<close>

theorem lookup_exact_and_ordered:
  fixes ops :: "router_op list" and a :: ipv4
  defines "routes \<equiv> fold router_step ops router_new"
  shows "distinct (router_lookup routes a) \<and>
    (\<exists>specific fallback. router_lookup routes a = specific @ fallback \<and>
      set specific = {e. \<exists>aem\<in>set routes. aem_endpoint_id aem = e \<and>
        reachable_from (aem_address aem) a \<and> \<not> is_default_route aem} \<and>
      set fallback = {e. \<exists>aem\<in>set routes. aem_endpoint_id aem = e \<and> is_default_route aem} -
        set specific)"
proof -
  have "defaults_last routes"
    using rm.inv_run [OF router_inv_new, of ops] by (simp add: router_inv_def routes_def)
  then obtain ns ds where nd: "routes = ns @ ds"
    "\<forall>n\<in>set ns. \<not> is_default_route n" "\<forall>d\<in>set ds. is_default_route d"
    by (rule defaults_lastE)
  let ?s = "dedup (map aem_endpoint_id (matching a ns))"
  let ?f = "dedup (filter (\<lambda>y. y \<notin> set (map aem_endpoint_id (matching a ns)))
      (map aem_endpoint_id (matching a ds)))"
  have "router_lookup routes a = ?s @ ?f"
    by (simp add: router_lookup_dedup nd(1) dedup_append)
  moreover have "set ?s = {e. \<exists>aem\<in>set routes. aem_endpoint_id aem = e \<and>
        reachable_from (aem_address aem) a \<and> \<not> is_default_route aem}"
    using nd by (auto simp: matching_def)
  moreover have "set ?f = {e. \<exists>aem\<in>set routes. aem_endpoint_id aem = e \<and> is_default_route aem} - set ?s"
    using nd by (auto simp: matching_def)
  moreover have "distinct (router_lookup routes a)" by (simp add: router_lookup_dedup)
  ultimately show ?thesis by blast
qed

text \<open>
  C36: For a mask of \<open>n\<close> leading ones, a route reaches exactly the addresses that agree with the
  route's address on the first \<open>n\<close> bits, whatever host bits the route's address carries.
\<close>

theorem reachable_from_prefix:
  assumes "n \<le> 32" and "subnet_mask r = prefix_mask n"
  shows "reachable_from r a \<longleftrightarrow> drop_bit (32 - n) (route_address r) = drop_bit (32 - n) a"
proof -
  have "bit (x AND prefix_mask n) i \<longleftrightarrow> 32 - n \<le> i \<and> bit x i" for x :: ipv4 and i
    by (auto simp: bit_and_iff bit_prefix_mask [OF assms(1)] dest: bit_ipv4_less)
  then have "reachable_from r a \<longleftrightarrow>
      (\<forall>i. 32 - n \<le> i \<longrightarrow> bit (route_address r) i = bit a i)"
    unfolding reachable_from_iff assms(2) by (auto simp: bit_eq_iff dest: bit_ipv4_less)
  also have "\<dots> \<longleftrightarrow> (\<forall>j. bit (route_address r) (32 - n + j) = bit a (32 - n + j))"
    by (metis le_add1 le_Suc_ex)
  also have "\<dots> \<longleftrightarrow> drop_bit (32 - n) (route_address r) = drop_bit (32 - n) a"
    by (auto simp: bit_eq_iff bit_drop_bit_eq) (metis add.commute add_lessD1 bit_ipv4_less)+
  finally show ?thesis .
qed

lemma prefix_mask_24: "prefix_mask 24 = 0xFFFFFF00"
  by (simp add: prefix_mask_def mask_eq_exp_minus_1 push_bit_eq_mult)

theorem reachable_from_prefix_witness:
  "(24::nat) \<le> 32 \<and> subnet_mask \<lparr>route_address = 0xC0A80001, subnet_mask = 0xFFFFFF00\<rparr> = prefix_mask 24 \<and>
   (reachable_from \<lparr>route_address = 0xC0A80001, subnet_mask = 0xFFFFFF00\<rparr> 0xC0A80002 \<longleftrightarrow>
     drop_bit 8 (0xC0A80001 :: ipv4) = drop_bit 8 0xC0A80002) \<and>
   reachable_from \<lparr>route_address = 0xC0A80001, subnet_mask = 0xFFFFFF00\<rparr> 0xC0A80002"
  using reachable_from_prefix [where n = 24 and r = "\<lparr>route_address = 0xC0A80001, subnet_mask = 0xFFFFFF00\<rparr>" and a = "0xC0A80002"]
  by (simp add: prefix_mask_24 reachable_from_iff)

text \<open>
  Once the routes to an endpoint are removed, no lookup returns that endpoint, and the answer
  for every other endpoint is what it was, in the same order.
\<close>

lemma remove_route_forgets_endpoint:
  "router_lookup (remove_route_to_endpoint e routes) a = filter (\<lambda>x. x \<noteq> e) (router_lookup routes a)
   \<and> e \<notin> set (router_lookup (remove_route_to_endpoint e routes) a)"
  by (simp add: rt.find_after_drop router_lookup_remove)

end
