(* ===== verification/Messages.thy ===== *)
theory Messages
  imports Router
begin

text \<open>
  The wire messages of \<open>crates/common/src/messages.rs\<close>.  Their byte encoding is bincode's and
  serde_json's, which are not part of the repository; it is a parameter of the model (theory
  \<open>World\<close>).
\<close>

record packet =
  pkt_seq :: u64
  pkt_id :: endpoint_id
  pkt_bytes :: "u8 list"

record hello =
  hello_id :: endpoint_id
  hello_session_id :: uuid
  hello_static_routes :: "route list option"
  hello_seq :: u64

record hello_ack =
  ack_id :: endpoint_id
  ack_session_id :: uuid
  ack_static_routes :: "route list option"
  ack_seq :: u64

datatype messages = Packet packet | Hello hello | HelloAck hello_ack

record interface_state =
  ist_interface_name :: string
  ist_enabled :: bool

datatype duplication_commands = InterfaceState interface_state

datatype sockaddr = V4 ipv4 u16 | V6 "128 word" u16

end
