(* ===== verification/World.thy ===== *)
theory World
  imports Messages
begin

text \<open>
  What lies outside the repository.

  \<^item> The operating system is a \<open>world\<close>: the current instant, the wall clock
    (\<open>SystemTime\<close>), the trace of the system calls made
    so far, an arbitrary function giving the answer to a call that is the \<open>n\<close>-th one, and whether
    receiving on an unconnected socket can fail.  Nothing is assumed
    about the answers.
  \<^item> The crates the program calls (smol timers and channels, futures, bincode, serde_json, etherparse) are
    the fields of a record \<open>('t, 'c) deps\<close> passed to every definition that uses them; \<open>'t\<close> is the
    type of timers, \<open>'c\<close> that of channels.  What their documentation promises is stated by the
    predicates \<open>timer_laws\<close>, \<open>channel_laws\<close> and \<open>select_laws\<close>, hypotheses of the theorems that need them.
    The record \<open>ref_deps\<close> is an instance that satisfies them.
\<close>

section \<open>System calls\<close>

type_synonym fd = nat

datatype syscall =
    SocketNew
  | SetReuseAddress fd
  | BindDevice fd string
  | Bind fd sockaddr
  | SetNonblocking fd
  | AsyncTryFrom fd
  | ConnectTo fd sockaddr
  | GetPeerName fd
  | GetSockName fd
  | Send fd "u8 list"
  | UdpBind sockaddr
  | TunCreate ipv4 ipv4 "32 word"
  | TunSend "u8 list"
  | FileCreate string
  | LogWrite fd string
  | LogFlush fd

record world =
  w_now :: instant
  w_system_now :: system_time
  w_trace :: "syscall list"
  w_answer :: "syscall \<Rightarrow> nat \<Rightarrow> nat io_result"
  w_recv_fails :: bool
  w_uuids :: "nat \<Rightarrow> uuid"
  w_uuid_count :: nat

definition sys :: "syscall \<Rightarrow> world \<Rightarrow> nat io_result \<times> world" where
  "sys c w = (w_answer w c (length (w_trace w)), w\<lparr>w_trace := w_trace w @ [c]\<rparr>)"

text \<open>\<open>try_call c w k\<close> is \<open>c?\<close> followed by \<open>k\<close>: an error returns at once.\<close>

definition try_call ::
  "syscall \<Rightarrow> world \<Rightarrow> (nat \<Rightarrow> world \<Rightarrow> 'a io_result \<times> world) \<Rightarrow> 'a io_result \<times> world" where
  "try_call c w k =
    (case sys c w of (Inl e, w') \<Rightarrow> (Inl e, w') | (Inr n, w') \<Rightarrow> k n w')"

text \<open>\<open>must_call c w\<close> is \<open>c.unwrap()\<close>.\<close>

definition must_call :: "syscall \<Rightarrow> world \<Rightarrow> (nat \<times> world) run" where
  "must_call c w = (case sys c w of (Inl e, w) \<Rightarrow> Inl UnwrapErr | (Inr n, w) \<Rightarrow> Inr (n, w))"

definition fresh_uuid :: "world \<Rightarrow> uuid \<times> world" where
  "fresh_uuid w = (w_uuids w (w_uuid_count w), w\<lparr>w_uuid_count := Suc (w_uuid_count w)\<rparr>)"

text \<open>\<open>extends w w'\<close>: \<open>w'\<close> is \<open>w\<close> after some further calls at the same instant.\<close>

definition extends :: "world \<Rightarrow> world \<Rightarrow> bool" where
  "extends w w' \<longleftrightarrow> w_now w' = w_now w \<and> w_system_now w' = w_system_now w \<and> w_answer w' = w_answer w \<and> w_recv_fails w' = w_recv_fails w \<and> w_uuids w' = w_uuids w \<and>
    (\<exists>cs. w_trace w' = w_trace w @ cs)"

lemma extends_refl [simp, intro]: "extends w w"
  by (simp add: extends_def)

lemma extends_trans [trans]: "extends u v \<Longrightarrow> extends v w \<Longrightarrow> extends u w"
  by (auto simp: extends_def)

lemma extends_sys: "sys c w = (r, w') \<Longrightarrow> extends w w'"
  by (auto simp: sys_def extends_def)

lemma extends_try_call:
  assumes "try_call c w k = (r, w')"
    and "\<And>n v r. k n v = (r, w') \<Longrightarrow> extends v w'"
  shows "extends w w'"
proof -
  obtain a v where s: "sys c w = (a, v)" by (cases "sys c w")
  note extends_sys [OF s]
  with assms s show ?thesis
    by (cases a) (auto simp: try_call_def intro: extends_trans)
qed

lemma extends_must_call: "must_call c w = Inr (n, w') \<Longrightarrow> extends w w'"
  by (cases "sys c w") (auto simp: must_call_def split: sum.splits dest: extends_sys)

section \<open>Refused calls\<close>

text \<open>The kernel refuses some call other than sending a datagram, or receiving can fail.\<close>

definition essential :: "syscall \<Rightarrow> bool" where
  "essential c \<longleftrightarrow> (case c of Send fd bytes \<Rightarrow> False | _ \<Rightarrow> True)"

lemma essential_simps [simp]:
  "essential SocketNew" "essential (SetReuseAddress fd)" "essential (BindDevice fd n)" "essential (Bind fd a)"
  "essential (GetPeerName fd)" "essential (GetSockName fd)" "essential (SetNonblocking fd)" "essential (AsyncTryFrom fd)" "essential (ConnectTo fd a)"
  "essential (UdpBind a)" "essential (TunCreate i m u)" "essential (TunSend bytes)"
  "essential (FileCreate s)" "essential (LogWrite fd s)" "essential (LogFlush fd)"
  by (simp_all add: essential_def)

definition refuses :: "world \<Rightarrow> bool" where
  "refuses w \<longleftrightarrow> w_recv_fails w \<or> (\<exists>c n e. essential c \<and> w_answer w c n = Inl e)"

lemma refuses_extends: "extends w w' \<Longrightarrow> refuses w' = refuses w"
  by (simp add: refuses_def extends_def)

lemma refusesI: "w_answer w c n = Inl e \<Longrightarrow> essential c \<Longrightarrow> refuses w"
  by (auto simp: refuses_def)

lemma sys_refuses: "sys c w = (Inl e, w') \<Longrightarrow> essential c \<Longrightarrow> refuses w"
  by (auto simp: sys_def intro: refusesI)

lemma must_call_outcome:
  assumes "essential c" "extends w\<^sub>0 w"
  shows "outcome (\<lambda>p. p = UnwrapErr \<and> refuses w\<^sub>0) (\<lambda>(n, w'). extends w\<^sub>0 w') (must_call c w)"
proof -
  obtain r w' where s: "sys c w = (r, w')" by (cases "sys c w")
  then show ?thesis
    using assms sys_refuses [of c w] extends_trans [OF assms(2) extends_sys [OF s]] refuses_extends [OF assms(2)]
    by (cases r) (auto simp: must_call_def)
qed

text \<open>Writing a line to a log also fails when the wall clock is before the epoch.\<close>

definition faulty :: "world \<Rightarrow> bool" where
  "faulty w \<longleftrightarrow> refuses w \<or> w_system_now w < 0"

lemma faulty_extends: "extends w w' \<Longrightarrow> faulty w' = faulty w"
  by (simp add: faulty_def refuses_extends) (simp add: extends_def)

lemma refuses_faulty: "refuses w \<Longrightarrow> faulty w"
  by (simp add: faulty_def)

section \<open>Crates the program calls\<close>

datatype try_send_error = Full | Closed

datatype ip_slice = SliceError | SliceIpv4 ipv4 | SliceIpv6 | SliceNoIp

record ('t, 'c) deps =
  timer_after :: "instant \<Rightarrow> duration \<Rightarrow> 't"
  timer_set_after :: "instant \<Rightarrow> duration \<Rightarrow> 't \<Rightarrow> 't"
  timer_never :: 't
  timer_will_fire :: "'t \<Rightarrow> bool"
  timer_next :: "instant \<Rightarrow> 't \<Rightarrow> 't option"
  chan_bounded :: "nat \<Rightarrow> 'c"
  chan_try_send :: "packet \<Rightarrow> 'c \<Rightarrow> try_send_error option \<times> 'c"
  chan_recv :: "'c \<Rightarrow> (packet option \<times> 'c) option"
  bincode_serialize :: "messages \<Rightarrow> u8 list option"
  bincode_deserialize :: "u8 list \<Rightarrow> messages option"
  json_from_slice :: "u8 list \<Rightarrow> duplication_commands option"
  slice_from_ip :: "u8 list \<Rightarrow> ip_slice"
  select_all :: "nat \<Rightarrow> nat \<Rightarrow> nat run"

text \<open>
  The timer of smol: \<open>due\<close> is the instant a timer fires at, if it ever does.  \<open>timer_next now t\<close>
  is \<open>Some\<close> when awaiting the timer at \<open>now\<close> returns at once.
\<close>

definition timer_laws :: "('t, 'c) deps \<Rightarrow> ('t \<Rightarrow> instant option) \<Rightarrow> bool" where
  "timer_laws X due \<longleftrightarrow>
    (\<forall>n d. due (timer_after X n d) = Some (n + d)) \<and>
    (\<forall>n d t. due (timer_set_after X n d t) = Some (n + d)) \<and>
    due (timer_never X) = None \<and>
    (\<forall>t. timer_will_fire X t \<longleftrightarrow> due t \<noteq> None) \<and>
    (\<forall>n t. timer_next X n t \<noteq> None \<longleftrightarrow> (\<exists>i. due t = Some i \<and> i \<le> n))"

lemma timer_lawsD:
  assumes "timer_laws X due"
  shows "due (timer_after X n d) = Some (n + d)"
    and "due (timer_set_after X n d t) = Some (n + d)"
    and "due (timer_never X) = None"
    and "timer_will_fire X t \<longleftrightarrow> due t \<noteq> None"
  using assms by (auto simp: timer_laws_def)

lemma timer_next_due: "timer_laws X due \<Longrightarrow> timer_next X n t = Some t' \<Longrightarrow> \<exists>i. due t = Some i \<and> i \<le> n"
  unfolding timer_laws_def by (metis option.distinct(1))

text \<open>
  The bounded channel: a first-in first-out queue whose \<open>try_send\<close> fails exactly when it is full
  (both ends live in the packet sorter, so it is never closed).
\<close>

definition channel_laws :: "('t, 'c) deps \<Rightarrow> ('c \<Rightarrow> packet list) \<Rightarrow> ('c \<Rightarrow> nat) \<Rightarrow> bool" where
  "channel_laws X contents cap \<longleftrightarrow>
    (\<forall>n. contents (chan_bounded X n) = [] \<and> cap (chan_bounded X n) = n) \<and>
    (\<forall>p c. cap (snd (chan_try_send X p c)) = cap c) \<and>
    (\<forall>p c. contents (snd (chan_try_send X p c)) =
       (if length (contents c) < cap c then contents c @ [p] else contents c)) \<and>
    (\<forall>p c. fst (chan_try_send X p c) = (if length (contents c) < cap c then None else Some Full)) \<and>
    (\<forall>c. (contents c = [] \<longrightarrow> chan_recv X c = None) \<and>
       (\<forall>p ps. contents c = p # ps \<longrightarrow>
         (\<exists>c'. chan_recv X c = Some (Some p, c') \<and> contents c' = ps \<and> cap c' = cap c)))"

lemma channel_lawsD:
  assumes "channel_laws X contents cap"
  shows "contents (chan_bounded X n) = []"
    and "cap (chan_bounded X n) = n"
    and "cap (snd (chan_try_send X p c)) = cap c"
    and "contents (snd (chan_try_send X p c)) =
       (if length (contents c) < cap c then contents c @ [p] else contents c)"
    and "contents c = [] \<Longrightarrow> chan_recv X c = None"
    and "contents c = p # ps \<Longrightarrow>
       \<exists>c'. chan_recv X c = Some (Some p, c') \<and> contents c' = ps \<and> cap c' = cap c"
  using assms by (auto simp: channel_laws_def)

text \<open>
  \<open>select_all\<close> of the futures crate, given a scheduling choice and the number of futures: the index
  of a future that has resolved.  It panics on an empty list.
\<close>

definition select_laws :: "('t, 'c) deps \<Rightarrow> bool" where
  "select_laws X \<longleftrightarrow> (\<forall>i. select_all X i 0 = Inl SelectAllEmpty) \<and>
    (\<forall>i n. 0 < n \<longrightarrow> (\<exists>j<n. select_all X i n = Inr j))"

section \<open>An instance\<close>

definition ref_deps :: "(instant option, nat \<times> packet list) deps" where
  "ref_deps = \<lparr>
    timer_after = (\<lambda>n d. Some (n + d)),
    timer_set_after = (\<lambda>n d t. Some (n + d)),
    timer_never = None,
    timer_will_fire = (\<lambda>t. t \<noteq> None),
    timer_next = (\<lambda>n t. case t of None \<Rightarrow> None | Some i \<Rightarrow> if i \<le> n then Some t else None),
    chan_bounded = (\<lambda>n. (n, [])),
    chan_try_send = (\<lambda>p c. if length (snd c) < fst c then (None, (fst c, snd c @ [p])) else (Some Full, c)),
    chan_recv = (\<lambda>c. case snd c of [] \<Rightarrow> None | p # ps \<Rightarrow> Some (Some p, (fst c, ps))),
    bincode_serialize = (\<lambda>m. Some []),
    bincode_deserialize = (\<lambda>bs. None),
    json_from_slice = (\<lambda>bs. None),
    slice_from_ip = (\<lambda>bs. SliceError),
    select_all = (\<lambda>i n. if n = 0 then Inl SelectAllEmpty else Inr (i mod n))\<rparr>"

lemma ref_timer_laws: "timer_laws ref_deps id"
  by (auto simp: timer_laws_def ref_deps_def split: option.splits if_splits)

lemma ref_select_laws: "select_laws ref_deps"
  by (auto simp: select_laws_def ref_deps_def)

lemma ref_channel_laws: "channel_laws ref_deps snd fst"
  by (auto simp: channel_laws_def ref_deps_def split: list.splits)

end
