(* ===== verification/Packet_Sorter.thy ===== *)
theory Packet_Sorter
  imports Ordered_Map World Machine
begin

text \<open>
  The reordering buffer of \<open>crates/common/src/packet_sorter.rs\<close>.  Packets wait in a \<open>BTreeMap\<close>
  keyed by sequence number until every earlier packet has been released or a deadline gives the
  gap up; released packets go to a bounded channel the event loop reads.

  Every operation is given the instant it runs at; all clock readings inside one operation are
  that instant.  \<open>next_seq\<close> is a 64-bit word and \<open>next_seq += 1\<close> wraps, as in a release build (a
  debug build panics there).  The two ends of the channel live in the same structure and are one
  field of the model.
\<close>

section \<open>State and operations\<close>

record queued_packet =
  qp_packet :: packet
  qp_timestamp :: instant

record ('t, 'c) packet_sorter =
  packet_queue :: "(u64, queued_packet) btree"
  next_seq :: u64
  deadline :: duration
  deadline_timer :: 't
  sorted_packet_queue :: 'c

definition packet_sorter_new :: "('t, 'c) deps \<Rightarrow> instant \<Rightarrow> duration \<Rightarrow> ('t, 'c) packet_sorter" where
  "packet_sorter_new X now d =
    \<lparr>packet_queue = [], next_seq = 0, deadline = d,
     deadline_timer = timer_after X now d, sorted_packet_queue = chan_bounded X 1000\<rparr>"

text \<open>The inner \<open>None\<close> of \<open>pop_first\<close> cannot occur: \<open>first_entry\<close> has just returned an entry.\<close>

definition get_next_packet ::
  "('t, 'c) deps \<Rightarrow> instant \<Rightarrow> ('t, 'c) packet_sorter \<Rightarrow> packet option \<times> ('t, 'c) packet_sorter" where
  "get_next_packet X now s =
    (case bt_first (packet_queue s) of
       Some (key, _) \<Rightarrow>
         if key = next_seq s then
           (case bt_pop_first (packet_queue s) of
              Some ((_, pkt), queue) \<Rightarrow>
                (Some (qp_packet pkt),
                 s\<lparr>next_seq := next_seq s + 1, packet_queue := queue,
                   deadline_timer := timer_set_after X now (deadline s) (deadline_timer s)\<rparr>)
            | None \<Rightarrow> (None, s))
         else (None, s)
     | None \<Rightarrow> (None, s))"

lemma get_next_packet_shrinks:
  "get_next_packet X now s = (Some p, s') \<Longrightarrow> length (packet_queue s') < length (packet_queue s)"
  by (auto simp: get_next_packet_def bt_first_def bt_pop_first_def split: list.splits if_splits)

text \<open>Both errors of \<open>try_send\<close> are logged and the packet is dropped.\<close>

function enqueue_sorted_packets ::
  "('t, 'c) deps \<Rightarrow> instant \<Rightarrow> ('t, 'c) packet_sorter \<Rightarrow> ('t, 'c) packet_sorter" where
  "enqueue_sorted_packets X now s =
    (case get_next_packet X now s of
       (Some packet, s') \<Rightarrow>
         enqueue_sorted_packets X now
           (s'\<lparr>sorted_packet_queue := snd (chan_try_send X packet (sorted_packet_queue s'))\<rparr>)
     | (None, s') \<Rightarrow> s')"
  by pat_completeness auto
termination
  by (relation "measure (\<lambda>(X, now, s). length (packet_queue s))") (auto dest: get_next_packet_shrinks [OF sym])

declare enqueue_sorted_packets.simps [simp del]

definition advance_queue ::
  "('t, 'c) deps \<Rightarrow> instant \<Rightarrow> ('t, 'c) packet_sorter \<Rightarrow> ('t, 'c) packet_sorter" where
  "advance_queue X now s =
    (case bt_first (packet_queue s) of
       Some (key, _) \<Rightarrow>
         let s = enqueue_sorted_packets X now (s\<lparr>next_seq := key\<rparr>) in
         (case bt_first (packet_queue s) of
            None \<Rightarrow> s\<lparr>deadline_timer := timer_never X\<rparr>
          | Some (_, next) \<Rightarrow>
              let time_waited_in_queue = now - qp_timestamp next in
              if deadline s \<le> time_waited_in_queue
              then s\<lparr>deadline_timer := timer_set_after X now 0 (deadline_timer s)\<rparr>
              else s\<lparr>deadline_timer :=
                timer_set_after X now (deadline s - time_waited_in_queue) (deadline_timer s)\<rparr>)
     | None \<Rightarrow> s\<lparr>deadline_timer := timer_never X\<rparr>)"

definition insert_packet ::
  "('t, 'c) deps \<Rightarrow> instant \<Rightarrow> packet \<Rightarrow> ('t, 'c) packet_sorter \<Rightarrow> ('t, 'c) packet_sorter" where
  "insert_packet X now pkt s =
    (let sequence_number = pkt_seq pkt in
     if next_seq s \<le> sequence_number then
       let queued_packet = \<lparr>qp_packet = pkt, qp_timestamp = now\<rparr>;
           inserted = s\<lparr>packet_queue :=
             bt_or_insert sequence_number queued_packet (packet_queue s)\<rparr>;
           s = (case bt_last (packet_queue s) of
                  Some (tail, _) \<Rightarrow>
                    (case checked_sub sequence_number tail of
                       Some diff \<Rightarrow> if 100 < diff then advance_queue X now inserted else inserted
                     | None \<Rightarrow> inserted)
                | None \<Rightarrow> inserted);
           s = enqueue_sorted_packets X now s
       in if \<not> timer_will_fire X (deadline_timer s)
          then s\<lparr>deadline_timer := timer_set_after X now (deadline s) (deadline_timer s)\<rparr>
          else s
     else s)"

text \<open>\<open>None\<close>: the receiver is still waiting.  \<open>Some (None, _)\<close>: the channel is closed.\<close>

definition await_have_next_packet ::
  "('t, 'c) deps \<Rightarrow> ('t, 'c) packet_sorter \<Rightarrow> (packet option \<times> ('t, 'c) packet_sorter) option" where
  "await_have_next_packet X s =
    (case chan_recv X (sorted_packet_queue s) of
       None \<Rightarrow> None
     | Some (r, c) \<Rightarrow> Some (r, s\<lparr>sorted_packet_queue := c\<rparr>))"

definition get_queue_length :: "('t, 'c) packet_sorter \<Rightarrow> nat" where
  "get_queue_length s = length (packet_queue s)"

definition have_next_packet :: "('t, 'c) packet_sorter \<Rightarrow> bool" where
  "have_next_packet s =
    (case bt_first (packet_queue s) of Some (key, _) \<Rightarrow> key = next_seq s | None \<Rightarrow> False)"

text \<open>\<open>None\<close>: the deadline has not been reached.\<close>

definition await_deadline ::
  "('t, 'c) deps \<Rightarrow> instant \<Rightarrow> ('t, 'c) packet_sorter \<Rightarrow> ('t, 'c) packet_sorter option" where
  "await_deadline X now s =
    map_option (\<lambda>t. s\<lparr>deadline_timer := t\<rparr>) (timer_next X now (deadline_timer s))"

definition set_deadline :: "duration \<Rightarrow> ('t, 'c) packet_sorter \<Rightarrow> ('t, 'c) packet_sorter" where
  "set_deadline new_deadline s = s\<lparr>deadline := new_deadline\<rparr>"

section \<open>What the release loop does\<close>

text \<open>\<open>ready n q\<close>: the packets at the front of the queue numbered \<open>n\<close>, \<open>n + 1\<close>, and so on.\<close>

fun ready :: "u64 \<Rightarrow> (u64, queued_packet) btree \<Rightarrow> packet list" where
  "ready n [] = []"
| "ready n ((k, e) # q) = (if k = n then qp_packet e # ready (n + 1) q else [])"

definition send_all :: "('t, 'c) deps \<Rightarrow> packet list \<Rightarrow> 'c \<Rightarrow> 'c" where
  "send_all X ps c = fold (\<lambda>p c. snd (chan_try_send X p c)) ps c"

lemma send_all_simps [simp]:
  "send_all X [] c = c"
  "send_all X (p # ps) c = send_all X ps (snd (chan_try_send X p c))"
  by (simp_all add: send_all_def)

lemma send_all_append: "send_all X (ps @ ps') c = send_all X ps' (send_all X ps c)"
  by (simp add: send_all_def)

lemma length_ready: "length (ready n q) \<le> length q"
  by (induction n q rule: ready.induct) auto

text \<open>The loop in closed form: it releases the ready packets and nothing else.\<close>

lemma enqueue_sorted_packets_eq:
  "enqueue_sorted_packets X now s =
    (let r = ready (next_seq s) (packet_queue s) in
     s\<lparr>packet_queue := drop (length r) (packet_queue s),
       next_seq := next_seq s + of_nat (length r),
       deadline_timer := (timer_set_after X now (deadline s) ^^ length r) (deadline_timer s),
       sorted_packet_queue := send_all X r (sorted_packet_queue s)\<rparr>)"
proof (induction X now s rule: enqueue_sorted_packets.induct)
  case (1 X now s)
  show ?case
  proof (cases "packet_queue s")
    case Nil
    then show ?thesis
      by (simp add: enqueue_sorted_packets.simps [of X now s] get_next_packet_def bt_first_def)
  next
    case (Cons e q)
    obtain k p where e: "e = (k, p)" by (cases e)
    show ?thesis
    proof (cases "k = next_seq s")
      case False
      then show ?thesis using Cons e
        by (simp add: enqueue_sorted_packets.simps [of X now s] get_next_packet_def bt_first_def)
    next
      case True
      let ?s' = "s\<lparr>next_seq := next_seq s + 1, packet_queue := q,
        deadline_timer := timer_set_after X now (deadline s) (deadline_timer s)\<rparr>"
      have g: "get_next_packet X now s = (Some (qp_packet p), ?s')"
        using Cons e True by (simp add: get_next_packet_def bt_first_def bt_pop_first_def)
      from "1.IH" [OF g [symmetric] refl]
      show ?thesis using Cons e True g
        by (simp add: enqueue_sorted_packets.simps [of X now s] Let_def funpow_swap1 add.assoc)
    qed
  qed
qed

lemma enqueue_sorted_packets_sel [simp]:
  "packet_queue (enqueue_sorted_packets X now s) =
     drop (length (ready (next_seq s) (packet_queue s))) (packet_queue s)"
  "next_seq (enqueue_sorted_packets X now s) =
     next_seq s + of_nat (length (ready (next_seq s) (packet_queue s)))"
  "deadline (enqueue_sorted_packets X now s) = deadline s"
  "sorted_packet_queue (enqueue_sorted_packets X now s) =
     send_all X (ready (next_seq s) (packet_queue s)) (sorted_packet_queue s)"
  by (simp_all add: enqueue_sorted_packets_eq Let_def)

section \<open>Invariant\<close>

lemma u64_succ_le: "n < k \<Longrightarrow> n + 1 \<le> (k :: u64)"
  by (rule inc_le)

definition keyed :: "(u64, queued_packet) btree \<Rightarrow> bool" where
  "keyed q \<longleftrightarrow> (\<forall>(k, e)\<in>set q. pkt_seq (qp_packet e) = k)"

text \<open>The queue is sorted, filed under the packets' own numbers, and no queued packet is due for release.\<close>

definition sorter_inv :: "('t, 'c) packet_sorter \<Rightarrow> bool" where
  "sorter_inv s \<longleftrightarrow> bt_inv (packet_queue s) \<and> keyed (packet_queue s) \<and>
    (\<forall>k\<in>fst ` set (packet_queue s). next_seq s < k)"

lemma sorter_invD:
  assumes "sorter_inv s"
  shows "bt_inv (packet_queue s)" "keyed (packet_queue s)"
    and "\<forall>k\<in>fst ` set (packet_queue s). next_seq s \<le> k"
    and "next_seq s \<notin> fst ` set (packet_queue s)"
  using assms by (auto simp: sorter_inv_def intro: order.strict_implies_order)

lemma keyed_simps [simp]:
  "keyed []"
  "keyed ((k, e) # q) \<longleftrightarrow> pkt_seq (qp_packet e) = k \<and> keyed q"
  by (auto simp: keyed_def)

lemma keyed_drop: "keyed q \<Longrightarrow> keyed (drop n q)"
  by (auto simp: keyed_def dest: in_set_dropD)

lemma bt_inv_drop: "bt_inv q \<Longrightarrow> bt_inv (drop n q)"
  by (simp add: bt_inv_def drop_map [symmetric] sorted_wrt_drop)

lemma keyed_or_insert: "keyed q \<Longrightarrow> keyed (bt_or_insert (pkt_seq p) \<lparr>qp_packet = p, qp_timestamp = t\<rparr> q)"
  using set_bt_or_insert_subset by (fastforce simp: keyed_def)

text \<open>What is left after a release starts beyond the new \<open>next_seq\<close>, also when that wraps.\<close>

lemma ready_rest:
  assumes "bt_inv q" "\<forall>k\<in>fst ` set q. n \<le> k"
  shows "\<forall>k\<in>fst ` set (drop (length (ready n q)) q). n + of_nat (length (ready n q)) < k"
  using assms
proof (induction n q rule: ready.induct)
  case (2 n k e q)
  show ?case
  proof (cases "k = n")
    case True
    with 2 have "\<forall>k'\<in>fst ` set (drop (length (ready (n + 1) q)) q).
        n + 1 + of_nat (length (ready (n + 1) q)) < k'"
      by (intro 2(1)) (auto intro: u64_succ_le)
    with True show ?thesis by (simp add: ac_simps)
  next
    case False
    with 2 show ?thesis by (force simp: order.strict_iff_order)
  qed
qed simp

lemma enqueue_sorter_inv:
  assumes "bt_inv (packet_queue s)" "keyed (packet_queue s)"
    and "\<forall>k\<in>fst ` set (packet_queue s). next_seq s \<le> k"
  shows "sorter_inv (enqueue_sorted_packets X now s)"
  using assms by (simp add: sorter_inv_def keyed_drop bt_inv_drop ready_rest)

lemma sorter_inv_timer [simp]: "sorter_inv (s\<lparr>deadline_timer := t\<rparr>) = sorter_inv s"
  by (simp add: sorter_inv_def)

lemma sorter_inv_channel [simp]: "sorter_inv (s\<lparr>sorted_packet_queue := c\<rparr>) = sorter_inv s"
  by (simp add: sorter_inv_def)

lemma advance_queue_sel:
  "packet_queue (advance_queue X now s) =
    (case packet_queue s of [] \<Rightarrow> [] | (k, e) # q \<Rightarrow>
      drop (length (ready k (packet_queue s))) (packet_queue s))"
  "next_seq (advance_queue X now s) =
    (case packet_queue s of [] \<Rightarrow> next_seq s | (k, e) # q \<Rightarrow>
      k + of_nat (length (ready k (packet_queue s))))"
  "sorted_packet_queue (advance_queue X now s) =
    (case packet_queue s of [] \<Rightarrow> sorted_packet_queue s | (k, e) # q \<Rightarrow>
      send_all X (ready k (packet_queue s)) (sorted_packet_queue s))"
  "deadline (advance_queue X now s) = deadline s"
  by (simp_all add: advance_queue_def bt_first_def Let_def split: list.splits)

lemma advance_queue_core:
  "advance_queue X now s =
    (case packet_queue s of [] \<Rightarrow> s | (k, e) # q \<Rightarrow> enqueue_sorted_packets X now (s\<lparr>next_seq := k\<rparr>))
    \<lparr>deadline_timer := deadline_timer (advance_queue X now s)\<rparr>"
  by (simp add: advance_queue_def bt_first_def Let_def split: list.splits)

lemma advance_sorter_inv:
  assumes "bt_inv (packet_queue s)" "keyed (packet_queue s)"
  shows "sorter_inv (advance_queue X now s)"
proof (cases "packet_queue s")
  case Nil
  then show ?thesis by (simp add: sorter_inv_def advance_queue_sel)
next
  case (Cons a q)
  obtain k e where a: "a = (k, e)" by (cases a)
  have "sorter_inv (enqueue_sorted_packets X now (s\<lparr>next_seq := k\<rparr>))"
    using assms Cons a by (intro enqueue_sorter_inv) (auto intro: order.strict_implies_order)
  then show ?thesis by (subst advance_queue_core) (simp add: Cons a)
qed

text \<open>\<open>insert_packet\<close> up to its last step, the arming of the timer.\<close>

definition inserted :: "instant \<Rightarrow> packet \<Rightarrow> ('t, 'c) packet_sorter \<Rightarrow> ('t, 'c) packet_sorter" where
  "inserted now pkt s = s\<lparr>packet_queue :=
     bt_or_insert (pkt_seq pkt) \<lparr>qp_packet = pkt, qp_timestamp = now\<rparr> (packet_queue s)\<rparr>"

definition jumps :: "packet \<Rightarrow> ('t, 'c) packet_sorter \<Rightarrow> bool" where
  "jumps pkt s \<longleftrightarrow> packet_queue s \<noteq> [] \<and> fst (last (packet_queue s)) \<le> pkt_seq pkt \<and>
    100 < pkt_seq pkt - fst (last (packet_queue s))"

lemma insert_packet_core:
  assumes "next_seq s \<le> pkt_seq pkt"
  shows "insert_packet X now pkt s =
    (enqueue_sorted_packets X now
      (if jumps pkt s then advance_queue X now (inserted now pkt s) else inserted now pkt s))
    \<lparr>deadline_timer := deadline_timer (insert_packet X now pkt s)\<rparr>"
  using assms
  by (auto simp: insert_packet_def bt_last_def jumps_def checked_sub_def inserted_def Let_def
      split: prod.splits if_splits)

lemma insert_packet_stale: "pkt_seq pkt < next_seq s \<Longrightarrow> insert_packet X now pkt s = s"
  by (simp add: insert_packet_def Let_def)

lemma inserted_sel [simp]:
  "next_seq (inserted now pkt s) = next_seq s"
  "deadline (inserted now pkt s) = deadline s"
  "deadline_timer (inserted now pkt s) = deadline_timer s"
  "sorted_packet_queue (inserted now pkt s) = sorted_packet_queue s"
  "packet_queue (inserted now pkt s) =
    bt_or_insert (pkt_seq pkt) \<lparr>qp_packet = pkt, qp_timestamp = now\<rparr> (packet_queue s)"
  by (simp_all add: inserted_def)

lemma insert_sorter_inv:
  assumes "sorter_inv s"
  shows "sorter_inv (insert_packet X now pkt s)"
proof (cases "next_seq s \<le> pkt_seq pkt")
  case True
  have i: "bt_inv (packet_queue (inserted now pkt s))" "keyed (packet_queue (inserted now pkt s))"
    using assms by (auto simp: sorter_inv_def keyed_or_insert)
  have "\<forall>k\<in>fst ` set (packet_queue (inserted now pkt s)). next_seq (inserted now pkt s) \<le> k"
    using sorter_invD(3) [OF assms] True by (simp add: keys_bt_or_insert)
  with i have "sorter_inv (enqueue_sorted_packets X now (inserted now pkt s))"
    by (intro enqueue_sorter_inv)
  moreover have "sorter_inv (advance_queue X now (inserted now pkt s))"
    using i by (rule advance_sorter_inv)
  then have "sorter_inv (enqueue_sorted_packets X now (advance_queue X now (inserted now pkt s)))"
    by (intro enqueue_sorter_inv) (auto simp: sorter_inv_def intro: order.strict_implies_order)
  ultimately show ?thesis
    by (subst insert_packet_core [OF True]) simp
qed (simp add: insert_packet_stale assms)

end
