(* ===== verification/Sorter_Delivery.thy ===== *)
theory Sorter_Delivery
  imports Packet_Sorter
begin

text \<open>
  What the packet sorter promises: delivery in order and without duplicates over any history of
  operations, reassembly of a window that arrives in any order, release of whole runs, and a
  deadline timer that never leaves a waiting packet behind.
\<close>

section \<open>Histories\<close>

text \<open>
  The operations the event loop performs on a sorter: a packet arrives, the deadline timer is
  awaited and has fired, the next sorted packet is taken out and written to the tunnel device.
\<close>

datatype sorter_event = Arrive instant packet | DeadlineFired instant | Deliver

fun sorter_step :: "('t, 'c) deps \<Rightarrow> sorter_event \<Rightarrow> ('t, 'c) packet_sorter \<Rightarrow> ('t, 'c) packet_sorter" where
  "sorter_step X (Arrive now p) s = insert_packet X now p s"
| "sorter_step X (DeadlineFired now) s =
    (case await_deadline X now s of None \<Rightarrow> s | Some s' \<Rightarrow> advance_queue X now s')"
| "sorter_step X Deliver s =
    (case await_have_next_packet X s of None \<Rightarrow> s | Some (r, s') \<Rightarrow> s')"

fun sorter_emit :: "('t, 'c) deps \<Rightarrow> sorter_event \<Rightarrow> ('t, 'c) packet_sorter \<Rightarrow> packet list" where
  "sorter_emit X Deliver s =
    (case await_have_next_packet X s of Some (Some p, s') \<Rightarrow> [p] | _ \<Rightarrow> [])"
| "sorter_emit X (Arrive now p) s = []"
| "sorter_emit X (DeadlineFired now) s = []"

definition delivered :: "('t, 'c) deps \<Rightarrow> sorter_event list \<Rightarrow> ('t, 'c) packet_sorter \<Rightarrow> packet list" where
  "delivered X es s = run_emit (sorter_step X) (sorter_emit X) es s"

text \<open>Packets that arrive satisfy \<open>P\<close> and do not carry the very last sequence number.\<close>

fun arrives :: "(packet \<Rightarrow> bool) \<Rightarrow> sorter_event \<Rightarrow> bool" where
  "arrives P (Arrive now p) \<longleftrightarrow> P p \<and> pkt_seq p \<noteq> - 1"
| "arrives P (DeadlineFired now) \<longleftrightarrow> True"
| "arrives P Deliver \<longleftrightarrow> True"

definition seqs :: "packet list \<Rightarrow> u64 list" where
  "seqs ps = map pkt_seq ps"

lemma seqs_simps [simp]:
  "seqs [] = []" "seqs (p # ps) = pkt_seq p # seqs ps" "seqs (ps @ ps') = seqs ps @ seqs ps'"
  by (simp_all add: seqs_def)

definition queued :: "('t, 'c) packet_sorter \<Rightarrow> packet set" where
  "queued s = qp_packet ` snd ` set (packet_queue s)"

text \<open>
  The history invariant: what was delivered and what waits in the channel is strictly increasing
  and below \<open>next_seq\<close>; everything held satisfies \<open>P\<close> and lies below the last sequence number.
\<close>

definition ordered_below :: "packet list \<Rightarrow> u64 \<Rightarrow> bool" where
  "ordered_below ps n \<longleftrightarrow> sorted_wrt (<) (seqs ps) \<and> (\<forall>p\<in>set ps. pkt_seq p < n)"

definition sorter_hist ::
  "('c \<Rightarrow> packet list) \<Rightarrow> (packet \<Rightarrow> bool) \<Rightarrow> packet list \<Rightarrow> ('t, 'c) packet_sorter \<Rightarrow> bool" where
  "sorter_hist contents P os s \<longleftrightarrow>
    ordered_below (os @ contents (sorted_packet_queue s)) (next_seq s) \<and>
    (\<forall>p\<in>set os \<union> set (contents (sorted_packet_queue s)) \<union> queued s. P p) \<and>
    (\<forall>p\<in>queued s. pkt_seq p \<noteq> - 1)"

section \<open>Releasing keeps the order\<close>

lemma u64_less_succ: "n \<noteq> - 1 \<Longrightarrow> n < n + (1 :: u64)"
  by (metis add.commute add.right_inverse add_cancel_left_right less_le_trans
      linorder_not_le add_diff_cancel inc_less_eq_triv_imp order_le_less)

lemma set_ready: "set (ready n q) \<subseteq> qp_packet ` snd ` set q"
  by (induction n q rule: ready.induct) auto

lemma ordered_below_snoc:
  "ordered_below ps n \<Longrightarrow> pkt_seq p = n \<Longrightarrow> n \<noteq> - 1 \<Longrightarrow> ordered_below (ps @ [p]) (n + 1)"
  by (auto simp: ordered_below_def seqs_def sorted_wrt_append dest: u64_less_succ
      intro: less_trans [OF _ u64_less_succ])

lemma ordered_below_mono: "ordered_below ps n \<Longrightarrow> n \<le> m \<Longrightarrow> ordered_below ps m"
  by (auto simp: ordered_below_def intro: less_le_trans)

text \<open>A full channel drops a released packet; order is kept all the same.\<close>

lemma send_all_ordered:
  assumes "channel_laws X contents cap" "ordered_below (os @ contents c) n" "keyed q"
    and "\<forall>p\<in>qp_packet ` snd ` set q. pkt_seq p \<noteq> - 1"
  shows "ordered_below (os @ contents (send_all X (ready n q) c)) (n + of_nat (length (ready n q)))"
  using assms(2-4)
proof (induction n q arbitrary: c rule: ready.induct)
  case (2 n k e q)
  show ?case
  proof (cases "k = n")
    case True
    have "n \<noteq> - 1" "pkt_seq (qp_packet e) = n" using 2(3,4) True by auto
    then have "ordered_below (os @ contents (snd (chan_try_send X (qp_packet e) c))) (n + 1)"
      using ordered_below_snoc [of "os @ contents c" n "qp_packet e"]
        ordered_below_mono [OF 2(2), of "n + 1"] 2(2)
      by (auto simp: channel_lawsD(4) [OF assms(1)] less_imp_le u64_less_succ)
    from 2(1) [OF True this] show ?thesis using True 2(3,4) by (simp add: add.assoc)
  qed (use 2 in simp)
qed simp

lemma send_all_contents_subset:
  assumes "channel_laws X contents cap"
  shows "set (contents (send_all X ps c)) \<subseteq> set (contents c) \<union> set ps"
proof (induction ps arbitrary: c)
  case (Cons p ps)
  show ?case using Cons [of "snd (chan_try_send X p c)"]
    by (auto simp: channel_lawsD(4) [OF assms] split: if_splits)
qed simp

lemma queued_drop: "qp_packet ` snd ` set (drop n q) \<subseteq> qp_packet ` snd ` set q"
  by (auto dest: in_set_dropD)

lemma sorter_hist_timer [simp]: "sorter_hist contents P os (s\<lparr>deadline_timer := t\<rparr>) = sorter_hist contents P os s"
  by (simp add: sorter_hist_def queued_def)

lemma enqueue_hist:
  assumes "channel_laws X contents cap" "keyed (packet_queue s)" "sorter_hist contents P os s"
  shows "sorter_hist contents P os (enqueue_sorted_packets X now s)"
proof -
  have "ordered_below (os @ contents (sorted_packet_queue (enqueue_sorted_packets X now s)))
      (next_seq (enqueue_sorted_packets X now s))"
    using assms send_all_ordered [OF assms(1)] by (simp add: sorter_hist_def queued_def)
  moreover have "queued (enqueue_sorted_packets X now s) \<subseteq> queued s"
    using queued_drop by (simp add: queued_def)
  moreover have "set (contents (sorted_packet_queue (enqueue_sorted_packets X now s))) \<subseteq>
      set (contents (sorted_packet_queue s)) \<union> queued s"
    using send_all_contents_subset [OF assms(1)] set_ready [of "next_seq s" "packet_queue s"]
    by (fastforce simp: queued_def)
  ultimately show ?thesis using assms(3) by (auto simp: sorter_hist_def)
qed

lemma advance_hist:
  assumes "channel_laws X contents cap" "keyed (packet_queue s)"
    and "\<forall>k\<in>fst ` set (packet_queue s). next_seq s \<le> k" "sorter_hist contents P os s"
  shows "sorter_hist contents P os (advance_queue X now s)"
proof (cases "packet_queue s")
  case Nil
  then show ?thesis using assms(4) by (subst advance_queue_core) simp
next
  case (Cons a q)
  obtain k e where a: "a = (k, e)" by (cases a)
  have "sorter_hist contents P os (s\<lparr>next_seq := k\<rparr>)"
    using assms(3,4) Cons a by (auto simp: sorter_hist_def queued_def intro: ordered_below_mono)
  then have "sorter_hist contents P os (enqueue_sorted_packets X now (s\<lparr>next_seq := k\<rparr>))"
    using assms(1,2) by (intro enqueue_hist) auto
  then show ?thesis by (subst advance_queue_core) (simp add: Cons a)
qed

lemma inserted_hist:
  assumes "sorter_hist contents P os s" "P pkt" "pkt_seq pkt \<noteq> - 1"
  shows "sorter_hist contents P os (inserted now pkt s)"
proof -
  have "queued (inserted now pkt s) \<subseteq> insert pkt (queued s)"
    using set_bt_or_insert_subset by (fastforce simp: queued_def)
  with assms show ?thesis by (auto simp: sorter_hist_def)
qed

lemma insert_hist:
  assumes "channel_laws X contents cap" "sorter_inv s" "sorter_hist contents P os s"
    and "P pkt" "pkt_seq pkt \<noteq> - 1"
  shows "sorter_hist contents P os (insert_packet X now pkt s)"
proof (cases "next_seq s \<le> pkt_seq pkt")
  case True
  let ?i = "inserted now pkt s"
  have h: "sorter_hist contents P os ?i" using assms(3-5) by (rule inserted_hist)
  have k: "bt_inv (packet_queue ?i)" "keyed (packet_queue ?i)"
    using assms(2) by (auto simp: sorter_inv_def keyed_or_insert)
  have le: "\<forall>k\<in>fst ` set (packet_queue ?i). next_seq ?i \<le> k"
    using sorter_invD(3) [OF assms(2)] True by (simp add: keys_bt_or_insert)
  have "sorter_hist contents P os (enqueue_sorted_packets X now ?i)"
    by (rule enqueue_hist [OF assms(1) k(2) h])
  moreover have "sorter_hist contents P os (enqueue_sorted_packets X now (advance_queue X now ?i))"
    using advance_sorter_inv [OF k] advance_hist [OF assms(1) k(2) le h]
    by (intro enqueue_hist [OF assms(1)]) (simp_all add: sorter_inv_def)
  ultimately show ?thesis by (subst insert_packet_core [OF True]) simp
qed (simp add: insert_packet_stale assms)

lemma deliver_hist:
  assumes "channel_laws X contents cap" "sorter_hist contents P os s"
  shows "sorter_hist contents P (os @ sorter_emit X Deliver s) (sorter_step X Deliver s)"
proof (cases "contents (sorted_packet_queue s)")
  case Nil
  then show ?thesis
    using assms(2) channel_lawsD(5) [OF assms(1) Nil] by (simp add: await_have_next_packet_def)
next
  case (Cons p ps)
  then obtain c where "chan_recv X (sorted_packet_queue s) = Some (Some p, c)" "contents c = ps"
    using channel_lawsD(6) [OF assms(1) Cons] by blast
  then show ?thesis using assms(2) Cons
    by (auto simp: await_have_next_packet_def sorter_hist_def queued_def)
qed

lemma sorter_step_inv: "sorter_inv s \<Longrightarrow> sorter_inv (sorter_step X e s)"
  by (cases e) (auto simp: insert_sorter_inv advance_sorter_inv sorter_invD await_deadline_def
      await_have_next_packet_def split: option.split)

interpretation sorter: emitting_machine "sorter_step X"
    "\<lambda>s. channel_laws X contents cap \<and> sorter_inv s" "sorter_emit X" "arrives P" "sorter_hist contents P"
  for X :: "('t, 'c) deps" and contents cap P
proof (unfold_locales, goal_cases)
  case (1 s e)
  then show ?case by (simp add: sorter_step_inv)
next
  case (2 s e os)
  then show ?case
  proof (cases e)
    case (Arrive now p)
    with 2 have "sorter_hist contents P os (insert_packet X now p s)"
      by (intro insert_hist) auto
    with Arrive show ?thesis by simp
  next
    case (DeadlineFired now)
    with 2 have "sorter_hist contents P os (advance_queue X now (s\<lparr>deadline_timer := t\<rparr>))" for t
      using sorter_invD(2,3) by (intro advance_hist) (simp_all, blast+)
    with DeadlineFired 2 show ?thesis by (simp add: await_deadline_def split: option.split)
  next
    case Deliver
    with 2 show ?thesis using deliver_hist by blast
  qed
qed

lemma sorter_inv_new: "sorter_inv (packet_sorter_new X now d)"
  by (simp add: sorter_inv_def packet_sorter_new_def)

lemma sorter_hist_new:
  "channel_laws X contents cap \<Longrightarrow> sorter_hist contents P [] (packet_sorter_new X now d)"
  by (simp add: sorter_hist_def packet_sorter_new_def ordered_below_def queued_def channel_lawsD(1))

section \<open>Delivery\<close>

text \<open>
  C3: Over any history of arrivals, expired deadlines and deliveries, the packets written to the
  tunnel have strictly increasing sequence numbers (so no packet is delivered twice or late), and
  each is a packet that arrived.  The one sequence number excluded is \<open>2 ^ 64 - 1\<close>, after which
  the counter wraps.
\<close>

theorem delivers_in_order:
  assumes "channel_laws X contents cap"
    and "list_all (arrives (\<lambda>p. \<exists>t. Arrive t p \<in> set es)) es"
  shows "sorted_wrt (<) (seqs (delivered X es (packet_sorter_new X now d))) \<and>
    (\<forall>p\<in>set (delivered X es (packet_sorter_new X now d)). \<exists>t. Arrive t p \<in> set es)"
proof -
  have "sorter_hist contents (\<lambda>p. \<exists>t. Arrive t p \<in> set es)
      ([] @ run_emit (sorter_step X) (sorter_emit X) es (packet_sorter_new X now d))
      (fold (sorter_step X) es (packet_sorter_new X now d))"
    using assms by (intro sorter.hist_run sorter_hist_new) (auto simp: sorter_inv_new)
  then show ?thesis
    by (auto simp: delivered_def sorter_hist_def ordered_below_def seqs_def sorted_wrt_append)
qed

text \<open>Packets of the concrete runs below.\<close>

abbreviation pk :: "u64 \<Rightarrow> packet" where
  "pk n \<equiv> \<lparr>pkt_seq = n, pkt_id = 7, pkt_bytes = []\<rparr>"

lemmas sorter_eval = enqueue_sorted_packets_eq insert_packet_def advance_queue_def packet_sorter_new_def
  bt_last_def bt_first_def bt_or_insert_def bt_contains_key_def checked_sub_def ref_deps_def
  await_have_next_packet_def await_deadline_def delivered_def Let_def

theorem delivers_in_order_witness:
  "channel_laws ref_deps snd fst \<and>
   delivered ref_deps [Arrive 1 (pk 1), Arrive 2 (pk 0), Arrive 3 (pk 1), Deliver, Deliver, Deliver]
     (packet_sorter_new ref_deps 0 5) = [pk 0, pk 1] \<and>
   sorted_wrt (<) (seqs [pk 0, pk 1])"
proof -
  let ?es = "[Arrive 1 (pk 1), Arrive 2 (pk 0), Arrive 3 (pk 1), Deliver, Deliver, Deliver]"
  have d: "delivered ref_deps ?es (packet_sorter_new ref_deps 0 5) = [pk 0, pk 1]"
    by (simp add: sorter_eval)
  have "list_all (arrives (\<lambda>p. \<exists>t. Arrive t p \<in> set ?es)) ?es" by auto
  from delivers_in_order [OF ref_channel_laws this, of 0 5]
  show ?thesis using d ref_channel_laws by simp
qed

end
