(* ===== verification/Sorter_Window.thy ===== *)
theory Sorter_Window
  imports Sorter_Delivery
begin

text \<open>
  The functional side of the packet sorter: which packets one arrival releases, what an expired
  deadline and a sequence jump release, and the reassembly of a window of packets that arrives in
  any order and with any number of copies.
\<close>

section \<open>Runs of consecutive numbers\<close>

lemma ready_seqs:
  "keyed q \<Longrightarrow> seqs (ready n q) = map (\<lambda>i. n + of_nat i) [0..<length (ready n q)]"
proof (induction n q rule: ready.induct)
  case (2 n k e q)
  then show ?case by (simp add: map_upt_Suc add.assoc del: upt_Suc)
qed simp

lemma ready_keys: "keyed q \<Longrightarrow> seqs (ready n q) = map fst (take (length (ready n q)) q)"
  by (induction n q rule: ready.induct) auto

lemma keys_split_ready:
  "keyed q \<Longrightarrow> fst ` set q =
    set (seqs (ready n q)) \<union> fst ` set (drop (length (ready n q)) q)"
proof -
  assume "keyed q"
  have "fst ` set q = fst ` set (take (length (ready n q)) q) \<union> fst ` set (drop (length (ready n q)) q)"
    by (simp add: image_Un [symmetric] set_append [symmetric] del: set_append)
  then show ?thesis by (simp add: ready_keys [OF \<open>keyed q\<close>])
qed

lemma ready_none: "\<forall>k\<in>fst ` set q. n < k \<Longrightarrow> ready n q = []"
  by (cases q) auto

lemma ready_inv_none: "sorter_inv s \<Longrightarrow> ready (next_seq s) (packet_queue s) = []"
  by (rule ready_none) (simp add: sorter_inv_def)

lemma enqueue_inv_id: "sorter_inv s \<Longrightarrow> enqueue_sorted_packets X now s = s"
  by (simp add: enqueue_sorted_packets_eq ready_inv_none)

section \<open>One arrival\<close>

text \<open>
  C17: A packet that does not trigger a jump releases exactly the unbroken run of numbers that
  starts at \<open>next_seq\<close>: those packets, in order, and no other; the first missing number becomes
  the new \<open>next_seq\<close>.  Of two copies with one number the one that arrived first is kept.
\<close>

theorem arrival_releases_exact_run:
  fixes s :: "('t, 'c) packet_sorter" and X :: "('t, 'c) deps" and p :: packet and now :: instant
  assumes "sorter_inv s" "next_seq s \<le> pkt_seq p" "\<not> jumps p s"
  defines "q \<equiv> packet_queue (inserted now p s)" and "s' \<equiv> insert_packet X now p s"
  shows "\<exists>ps. sorted_packet_queue s' = send_all X ps (sorted_packet_queue s) \<and>
      seqs ps = map (\<lambda>i. next_seq s + of_nat i) [0..<length ps] \<and>
      (\<forall>r\<in>set ps. \<exists>e. map_of q (pkt_seq r) = Some e \<and> qp_packet e = r) \<and>
      next_seq s' = next_seq s + of_nat (length ps) \<and>
      next_seq s' \<notin> fst ` set (packet_queue s') \<and>
      insert (pkt_seq p) (fst ` set (packet_queue s)) = set (seqs ps) \<union> fst ` set (packet_queue s') \<and>
      (\<forall>e. map_of (packet_queue s) (pkt_seq p) = Some e \<longrightarrow> map_of q (pkt_seq p) = Some e)"
proof -
  have q: "bt_inv q" "keyed q" using assms(1) by (auto simp: q_def sorter_inv_def keyed_or_insert)
  have bi: "bt_inv (packet_queue s)" using assms(1) by (simp add: sorter_inv_def)
  let ?r = "ready (next_seq s) q"
  have s': "sorted_packet_queue s' = send_all X ?r (sorted_packet_queue s)"
    "next_seq s' = next_seq s + of_nat (length ?r)" "packet_queue s' = drop (length ?r) q"
    unfolding s'_def
    by (subst insert_packet_core [OF assms(2)], simp add: assms(3) q_def)+
  have "\<exists>e. map_of q (pkt_seq r) = Some e \<and> qp_packet e = r" if "r \<in> set ?r" for r
  proof -
    have "r \<in> qp_packet ` snd ` set q" using that set_ready by blast
    then obtain k e where ke: "(k, e) \<in> set q" "qp_packet e = r" by force
    then have "map_of q k = Some e" "pkt_seq r = k"
      using q bt_inv_distinct [OF q(1)] by (auto simp: keyed_def map_of_eq_Some_iff)
    with ke(2) show ?thesis by blast
  qed
  moreover have "next_seq s' \<notin> fst ` set (packet_queue s')"
    using sorter_invD(4) [OF insert_sorter_inv [OF assms(1)]] by (simp add: s'_def)
  moreover have "insert (pkt_seq p) (fst ` set (packet_queue s)) = fst ` set q"
    by (simp add: q_def keys_bt_or_insert)
  moreover have "\<forall>e. map_of (packet_queue s) (pkt_seq p) = Some e \<longrightarrow> map_of q (pkt_seq p) = Some e"
    by (simp add: q_def map_of_bt_or_insert [OF bi])
  ultimately show ?thesis
    using s' ready_seqs [OF q(2), of "next_seq s"] keys_split_ready [OF q(2), of "next_seq s"]
    by (intro exI [of _ ?r]) auto
qed

abbreviation demo_sorter :: "(u64, queued_packet) btree \<Rightarrow> u64 \<Rightarrow>
    (instant option, nat \<times> packet list) packet_sorter" where
  "demo_sorter q n \<equiv> \<lparr>packet_queue = q, next_seq = n, deadline = 5, deadline_timer = Some 9,
     sorted_packet_queue = (1000, [])\<rparr>"

abbreviation waiting :: "u64 \<Rightarrow> u64 \<times> queued_packet" where
  "waiting n \<equiv> (n, \<lparr>qp_packet = pk n, qp_timestamp = 3\<rparr>)"

theorem arrival_releases_exact_run_witness:
  "\<exists>ps. sorted_packet_queue (insert_packet ref_deps 4 (pk 5) (demo_sorter [waiting 6, waiting 8] 5)) =
      send_all ref_deps ps (1000, []) \<and>
    seqs ps = map (\<lambda>i. 5 + of_nat i) [0..<length ps] \<and> 7 = 5 + (of_nat (length ps) :: u64)"
proof -
  let ?s = "demo_sorter [waiting 6, waiting 8] 5"
  have h: "sorter_inv ?s" "next_seq ?s \<le> pkt_seq (pk 5)" "\<not> jumps (pk 5) ?s"
    by (simp_all add: sorter_inv_def jumps_def)
  have e: "next_seq (insert_packet ref_deps 4 (pk 5) ?s) = 7" by (simp add: sorter_eval)
  show ?thesis using arrival_releases_exact_run [OF h, of ref_deps 4] e by auto
qed

text \<open>
  C31: A packet below \<open>next_seq\<close> (already released or given up) changes nothing, and neither does a
  second copy of a packet that waits in the queue while the deadline timer runs.
\<close>

theorem late_and_duplicate_ignored:
  fixes s :: "('t, 'c) packet_sorter" and X :: "('t, 'c) deps" and now :: instant
  assumes "sorter_inv s"
    and "pkt_seq p < next_seq s \<or>
      (bt_contains_key (pkt_seq p) (packet_queue s) \<and> timer_will_fire X (deadline_timer s))"
  shows "insert_packet X now p s = s"
proof (cases "pkt_seq p < next_seq s")
  case False
  with assms(2) have c: "bt_contains_key (pkt_seq p) (packet_queue s)"
    and t: "timer_will_fire X (deadline_timer s)" by auto
  then have k: "pkt_seq p \<in> fst ` set (packet_queue s)" by (simp add: bt_contains_key_iff)
  then have "packet_queue s \<noteq> []" by auto
  then have "pkt_seq p \<le> fst (last (packet_queue s))"
    using k bt_inv_last [OF sorter_invD(1) [OF assms(1)]] by blast
  then have j: "\<not> jumps p s" by (auto simp: jumps_def)
  have i: "inserted now p s = s" using c by (simp add: inserted_def bt_or_insert_def)
  have e: "enqueue_sorted_packets X now (inserted now p s) = s"
    using enqueue_inv_id [OF assms(1)] i by simp
  have "(if jumps p s then advance_queue X now (inserted now p s) else inserted now p s) = s"
    using i j by simp
  then have "insert_packet X now p s = s\<lparr>deadline_timer := deadline_timer (insert_packet X now p s)\<rparr>"
    using False insert_packet_core [of s p X now] enqueue_inv_id [OF assms(1)] by simp
  moreover have "deadline_timer (insert_packet X now p s) = deadline_timer s"
    using False j t e
    by (auto simp: insert_packet_def inserted_def jumps_def bt_last_def checked_sub_def Let_def
        split: prod.split if_splits)
  ultimately show ?thesis by simp
qed (simp add: insert_packet_stale)

theorem late_and_duplicate_ignored_witness:
  "insert_packet ref_deps 4 (pk 3) (demo_sorter [waiting 6] 5) = demo_sorter [waiting 6] 5 \<and>
   insert_packet ref_deps 4 (pk 6) (demo_sorter [waiting 6] 5) = demo_sorter [waiting 6] 5"
proof
  have i: "sorter_inv (demo_sorter [waiting 6] 5)" by (simp add: sorter_inv_def)
  show "insert_packet ref_deps 4 (pk 3) (demo_sorter [waiting 6] 5) = demo_sorter [waiting 6] 5"
    by (rule late_and_duplicate_ignored [OF i]) simp
  show "insert_packet ref_deps 4 (pk 6) (demo_sorter [waiting 6] 5) = demo_sorter [waiting 6] 5"
    by (rule late_and_duplicate_ignored [OF i]) (simp add: bt_contains_key_def ref_deps_def)
qed

section \<open>Deadlines and jumps\<close>

text \<open>
  When a deadline expires, the gap before the oldest waiting packet is given up: that packet
  and the unbroken run behind it are released, at least one packet leaves the queue, and
  \<open>next_seq\<close> is the first number still missing behind the run.  An empty queue changes only the
  timer.
\<close>

lemma deadline_makes_progress:
  fixes s :: "('t, 'c) packet_sorter" and X :: "('t, 'c) deps" and now :: instant
  assumes "sorter_inv s" "packet_queue s = (k, e) # q"
  defines "s' \<equiv> advance_queue X now s"
  shows "\<exists>ps. sorted_packet_queue s' = send_all X (qp_packet e # ps) (sorted_packet_queue s) \<and>
      seqs (qp_packet e # ps) = map (\<lambda>i. k + of_nat i) [0..<Suc (length ps)] \<and>
      next_seq s' = k + of_nat (Suc (length ps)) \<and>
      next_seq s' \<notin> fst ` set (packet_queue s') \<and>
      fst ` set (packet_queue s) = set (seqs (qp_packet e # ps)) \<union> fst ` set (packet_queue s') \<and>
      length (packet_queue s') + Suc (length ps) = length (packet_queue s)"
proof -
  have inv: "bt_inv (packet_queue s)" "keyed (packet_queue s)" using assms(1) by (simp_all add: sorter_invD)
  have r: "ready k (packet_queue s) = qp_packet e # ready (k + 1) q" by (simp add: assms(2))
  have "next_seq s' \<notin> fst ` set (packet_queue s')"
    unfolding s'_def by (rule sorter_invD(4)) (rule advance_sorter_inv [OF inv])
  moreover have "length (ready k (packet_queue s)) \<le> length (packet_queue s)" by (rule length_ready)
  ultimately show ?thesis
    using ready_seqs [OF inv(2), of k] keys_split_ready [OF inv(2), of k] r
    by (intro exI [of _ "ready (k + 1) q"]) (simp add: s'_def advance_queue_sel assms(2))
qed

lemma deadline_makes_progress_witness:
  "\<exists>ps. sorted_packet_queue (advance_queue ref_deps 9 (demo_sorter [waiting 6, waiting 7, waiting 9] 5)) =
      send_all ref_deps (pk 6 # ps) (1000, []) \<and>
    next_seq (advance_queue ref_deps 9 (demo_sorter [waiting 6, waiting 7, waiting 9] 5)) =
      6 + of_nat (Suc (length ps))"
proof -
  have "sorter_inv (demo_sorter [waiting 6, waiting 7, waiting 9] 5)" by (simp add: sorter_inv_def)
  from deadline_makes_progress [OF this, of 6 "snd (waiting 6)" "[waiting 7, waiting 9]" ref_deps 9]
  show ?thesis by auto
qed

lemma ready_append_gap:
  "q \<noteq> [] \<Longrightarrow> x \<noteq> fst (last q) + 1 \<Longrightarrow> ready n (q @ [(x, v)]) = ready n q"
proof (induction n q rule: ready.induct)
  case (2 n k e q)
  then show ?case by (cases "q = []") auto
qed simp

lemma bt_or_insert_beyond:
  assumes "bt_inv q" "q \<noteq> []" "fst (last q) < k"
  shows "bt_or_insert k v q = q @ [(k, v)]"
proof -
  have "\<forall>a\<in>fst ` set q. a < k"
    using bt_inv_last [OF assms(1,2)] assms(3) by (auto intro: le_less_trans)
  then show ?thesis by (auto simp: bt_or_insert_def bt_contains_key_iff bt_insert_last)
qed

text \<open>
  C35: A packet more than 100 numbers beyond the last waiting one advances the queue once and no
  further: the gap before the oldest waiting packet is given up and the unbroken run behind it
  released, but whatever waits behind a second gap stays queued, and so does the new packet.  (The
  log line of this branch says \<open>Clear packet queue\<close>; the queue is not cleared.)
\<close>

theorem jump_releases_only_first_run:
  fixes s :: "('t, 'c) packet_sorter" and X :: "('t, 'c) deps" and now :: instant
  assumes "sorter_inv s" "packet_queue s = (k, e) # q" "jumps p s"
  defines "r \<equiv> ready k (packet_queue s)" and "s' \<equiv> insert_packet X now p s"
  shows "packet_queue s' = drop (length r) (packet_queue s) @
      [(pkt_seq p, \<lparr>qp_packet = p, qp_timestamp = now\<rparr>)] \<and>
    next_seq s' = k + of_nat (length r) \<and>
    sorted_packet_queue s' = send_all X r (sorted_packet_queue s)"
proof -
  let ?i = "inserted now p s" and ?tail = "fst (last (packet_queue s))"
  have ne: "packet_queue s \<noteq> []" using assms(2) by simp
  have gap: "?tail < pkt_seq p" "pkt_seq p \<noteq> ?tail + 1"
    using assms(3) by (auto simp: jumps_def order.strict_iff_order word_le_nat_alt)
  have "next_seq s \<le> ?tail" using sorter_invD(3) [OF assms(1)] ne by simp
  with gap have le: "next_seq s \<le> pkt_seq p" by simp
  have i: "packet_queue ?i = packet_queue s @ [(pkt_seq p, \<lparr>qp_packet = p, qp_timestamp = now\<rparr>)]"
    using bt_or_insert_beyond [OF sorter_invD(1) [OF assms(1)] ne gap(1)] by simp
  have r: "ready k (packet_queue ?i) = r"
    unfolding i r_def by (rule ready_append_gap [OF ne gap(2)])
  have k: "bt_inv (packet_queue ?i)" "keyed (packet_queue ?i)"
    using sorter_invD [OF assms(1)] by (simp_all add: keyed_or_insert)
  have eq: "insert_packet X now p s = (advance_queue X now ?i)
      \<lparr>deadline_timer := deadline_timer (insert_packet X now p s)\<rparr>"
    using insert_packet_core [OF le, of X now] assms(3)
      enqueue_inv_id [OF advance_sorter_inv [OF k]] by simp
  have adv: "packet_queue s' = packet_queue (advance_queue X now ?i)"
    "next_seq s' = next_seq (advance_queue X now ?i)"
    "sorted_packet_queue s' = sorted_packet_queue (advance_queue X now ?i)"
    unfolding s'_def by (subst eq, simp)+
  obtain q2 where q2: "packet_queue ?i = (k, e) # q2" using i assms(2) by simp
  have "packet_queue s' = drop (length r) (packet_queue ?i)"
    "next_seq s' = k + of_nat (length r)"
    "sorted_packet_queue s' = send_all X r (sorted_packet_queue s)"
    using r unfolding adv advance_queue_sel q2 by simp_all
  then show ?thesis
    using i length_ready [of k "packet_queue s"] by (simp add: r_def)
qed

theorem jump_releases_only_first_run_witness:
  "jumps (pk 200) (demo_sorter [waiting 6, waiting 7, waiting 9] 5) \<and>
   packet_queue (insert_packet ref_deps 4 (pk 200) (demo_sorter [waiting 6, waiting 7, waiting 9] 5)) =
     [waiting 9, (200, \<lparr>qp_packet = pk 200, qp_timestamp = 4\<rparr>)] \<and>
   sorted_packet_queue (insert_packet ref_deps 4 (pk 200) (demo_sorter [waiting 6, waiting 7, waiting 9] 5)) =
     (1000, [pk 6, pk 7])"
proof -
  let ?s = "demo_sorter [waiting 6, waiting 7, waiting 9] 5"
  have h: "sorter_inv ?s" "packet_queue ?s = waiting 6 # [waiting 7, waiting 9]" "jumps (pk 200) ?s"
    by (simp_all add: sorter_inv_def jumps_def)
  show ?thesis
    using jump_releases_only_first_run [OF h, of ref_deps 4] h(3) by (simp add: ref_deps_def)
qed

section \<open>Reassembly of a window\<close>

lemma send_all_room:
  assumes "channel_laws X contents cap"
  shows "length (contents c) + length ps \<le> cap c \<Longrightarrow>
    contents (send_all X ps c) = contents c @ ps \<and> cap (send_all X ps c) = cap c"
proof (induction ps arbitrary: c)
  case (Cons p ps)
  then show ?case
    using Cons.IH [of "snd (chan_try_send X p c)"]
    by (simp add: channel_lawsD(3,4) [OF assms])
qed simp

definition arrive_all ::
  "('t, 'c) deps \<Rightarrow> (instant \<times> packet) list \<Rightarrow> ('t, 'c) packet_sorter \<Rightarrow> ('t, 'c) packet_sorter" where
  "arrive_all X arr s = fold (\<lambda>(t, p). insert_packet X t p) arr s"

text \<open>
  The state after packets \<open>ps\<close> below 101 have arrived and no deadline has expired: everything below
  \<open>next_seq\<close> has been released in order, the rest of what arrived waits in the queue.
\<close>

definition window ::
  "('c \<Rightarrow> packet list) \<Rightarrow> ('c \<Rightarrow> nat) \<Rightarrow> packet set \<Rightarrow> ('t, 'c) packet_sorter \<Rightarrow> bool" where
  "window contents cap ps s \<longleftrightarrow>
    sorter_inv s \<and> cap (sorted_packet_queue s) = 1000 \<and>
    seqs (contents (sorted_packet_queue s)) = map of_nat [0..<unat (next_seq s)] \<and>
    pkt_seq ` ps = {..<next_seq s} \<union> fst ` set (packet_queue s) \<and>
    set (contents (sorted_packet_queue s)) \<union> queued s \<subseteq> ps"

lemma window_bound:
  assumes "pkt_seq ` ps = {..<n} \<union> K" "\<forall>p\<in>ps. pkt_seq p < 101"
  shows "unat (n :: u64) \<le> 101" "K \<subseteq> {..<101}"
proof -
  have sub: "{..<n} \<union> K \<subseteq> {..<101}" unfolding assms(1) [symmetric] using assms(2) by auto
  then show "K \<subseteq> {..<101}" by blast
  have "\<not> 101 < n"
  proof
    assume "101 < n"
    then have "101 \<in> {..<101 :: u64}" using sub by blast
    then show False by simp
  qed
  then show "unat n \<le> 101" by (simp add: word_le_nat_alt not_less)
qed

lemma map_upt_shift:
  "map (\<lambda>i. (n :: u64) + of_nat i) [0..<m] = map of_nat [unat n..<unat n + m]"
proof -
  have "[unat n..<unat n + m] = map (\<lambda>i. i + unat n) [0..<m]"
    by (simp add: map_add_upt add.commute)
  then show ?thesis by (simp add: add.commute o_def)
qed

lemma lessThan_run:
  assumes "unat n + m < 2 ^ 64"
  shows "{..<n + of_nat m :: u64} = {..<n} \<union> set (map (\<lambda>i. n + of_nat i) [0..<m])"
proof -
  have u: "unat (n + of_nat i) = unat n + i" if "i \<le> m" for i
    using that assms by (simp add: unat_word_ariths unat_of_nat)
  show ?thesis
  proof (intro set_eqI iffI)
    fix k assume "k \<in> {..<n + of_nat m}"
    then have k: "unat k < unat n + m" using u [of m] by (simp add: word_less_nat_alt)
    show "k \<in> {..<n} \<union> set (map (\<lambda>i. n + of_nat i) [0..<m])"
    proof (cases "k < n")
      case False
      then have "k = n + of_nat (unat k - unat n)" by (simp add: word_less_nat_alt of_nat_diff not_less)
      moreover have "unat k - unat n < m" using k False by (simp add: word_less_nat_alt)
      ultimately show ?thesis by auto
    qed simp
  next
    fix k assume "k \<in> {..<n} \<union> set (map (\<lambda>i. n + of_nat i) [0..<m])"
    then show "k \<in> {..<n + of_nat m}"
      using u by (auto simp: word_less_nat_alt)
  qed
qed

lemma window_enqueue:
  assumes X: "channel_laws X contents cap"
    and inv: "bt_inv (packet_queue s)" "keyed (packet_queue s)"
      "\<forall>k\<in>fst ` set (packet_queue s). next_seq s \<le> k"
    and w: "cap (sorted_packet_queue s) = 1000"
      "seqs (contents (sorted_packet_queue s)) = map of_nat [0..<unat (next_seq s)]"
      "pkt_seq ` ps = {..<next_seq s} \<union> fst ` set (packet_queue s)"
      "set (contents (sorted_packet_queue s)) \<union> queued s \<subseteq> ps"
    and b: "\<forall>p\<in>ps. pkt_seq p < 101"
  shows "window contents cap ps (enqueue_sorted_packets X now s)"
proof -
  let ?n = "next_seq s" and ?q = "packet_queue s" and ?c = "sorted_packet_queue s"
  let ?r = "ready ?n ?q" and ?s' = "enqueue_sorted_packets X now s"
  have n: "unat ?n \<le> 101" and K: "fst ` set ?q \<subseteq> {..<101 :: u64}"
    using window_bound [OF w(3) b] by auto
  have "length ?q \<le> card {..<101 :: u64}"
    using K by (simp add: bt_inv_length [OF inv(1)] card_mono)
  also have "card {..<101 :: u64} \<le> 101"
  proof -
    have "{..<101 :: u64} \<subseteq> of_nat ` {..<101}"
      by (auto simp: word_less_nat_alt intro!: image_eqI [of _ _ "unat _"])
    then show ?thesis using surj_card_le [of "{..<101 :: nat}" "{..<101 :: u64}"] by simp
  qed
  finally have m: "length ?r \<le> 101" using length_ready [of ?n ?q] by simp
  have len: "length (contents ?c) = unat ?n"
    using arg_cong [OF w(2), of length] by (simp add: seqs_def)
  have c: "contents (send_all X ?r ?c) = contents ?c @ ?r \<and> cap (send_all X ?r ?c) = cap ?c"
    by (rule send_all_room [OF X]) (use w(1) n m len in simp)
  have u: "unat (?n + of_nat (length ?r)) = unat ?n + length ?r"
    using n m by (simp add: unat_word_ariths unat_of_nat)
  have "seqs (contents (sorted_packet_queue ?s')) = map of_nat [0..<unat (next_seq ?s')]"
    using c w(2) ready_seqs [OF inv(2), of ?n]
    by (simp add: u upt_add_eq_append [of 0] map_upt_shift)
  moreover have "pkt_seq ` ps = {..<next_seq ?s'} \<union> fst ` set (packet_queue ?s')"
    using w(3) keys_split_ready [OF inv(2), of ?n] ready_seqs [OF inv(2), of ?n]
      lessThan_run [of ?n "length ?r"] n m by auto
  moreover have "queued ?s' \<subseteq> queued s" using queued_drop by (simp add: queued_def)
  moreover have "set ?r \<subseteq> queued s" using set_ready by (simp add: queued_def)
  ultimately show ?thesis
    using c w(1,4) enqueue_sorter_inv [OF inv] by (auto simp: window_def)
qed

lemma window_arrival:
  assumes "channel_laws X contents cap" "window contents cap ps s"
    and "\<forall>r\<in>insert p ps. pkt_seq r < 101"
  shows "window contents cap (insert p ps) (insert_packet X now p s)"
proof (cases "next_seq s \<le> pkt_seq p")
  case False
  then show ?thesis using assms(2) by (auto simp: window_def insert_packet_stale)
next
  case True
  let ?i = "inserted now p s"
  have inv: "sorter_inv s" using assms(2) by (simp add: window_def)
  have k: "bt_inv (packet_queue ?i)" "keyed (packet_queue ?i)"
    "\<forall>k\<in>fst ` set (packet_queue ?i). next_seq ?i \<le> k"
    using sorter_invD(1-3) [OF inv] True by (simp_all add: keyed_or_insert keys_bt_or_insert)
  have "pkt_seq p - t \<le> 100" if "t \<le> pkt_seq p" for t
    using assms(3) that by (auto simp: unat_sub word_le_nat_alt word_less_nat_alt)
  then have j: "\<not> jumps p s" by (auto simp: jumps_def not_less)
  have q: "queued ?i \<subseteq> insert p (queued s)"
    using set_bt_or_insert_subset by (fastforce simp: queued_def)
  have "window contents cap (insert p ps) (enqueue_sorted_packets X now ?i)"
    using assms(2) q by (intro window_enqueue [OF assms(1) k _ _ _ _ assms(3)])
      (auto simp: window_def keys_bt_or_insert)
  then show ?thesis
    by (subst insert_packet_core [OF True]) (simp add: j window_def queued_def sorter_inv_def)
qed

lemma window_arrivals:
  assumes "channel_laws X contents cap"
  shows "window contents cap ps s \<Longrightarrow> \<forall>r\<in>ps \<union> snd ` set arr. pkt_seq r < 101 \<Longrightarrow>
    window contents cap (ps \<union> snd ` set arr) (arrive_all X arr s)"
proof (induction arr arbitrary: ps s)
  case (Cons a arr)
  obtain t p where a: "a = (t, p)" by (cases a)
  have "window contents cap (insert p ps) (insert_packet X t p s)"
    using Cons.prems by (intro window_arrival [OF assms]) (auto simp: a)
  then have "window contents cap (insert p ps \<union> snd ` set arr) (arrive_all X arr (insert_packet X t p s))"
    using Cons.prems(2) by (intro Cons.IH) (auto simp: a)
  then show ?case by (simp add: a arrive_all_def)
qed (simp add: arrive_all_def)

lemma u64_lessThan_0 [simp]: "{..<0 :: u64} = {}"
  by auto

lemma window_new: "channel_laws X contents cap \<Longrightarrow> window contents cap {} (packet_sorter_new X t0 d)"
  by (simp add: window_def sorter_inv_new) (simp add: packet_sorter_new_def channel_lawsD(1,2) queued_def)

lemma window_complete:
  assumes "window contents cap ps s" "pkt_seq ` ps = {..<n}"
  shows "next_seq s = n" "packet_queue s = []"
proof -
  have e: "{..<n} = {..<next_seq s} \<union> fst ` set (packet_queue s)" and inv: "sorter_inv s"
    using assms by (auto simp: window_def)
  show q: "packet_queue s = []"
  proof (rule ccontr)
    assume "packet_queue s \<noteq> []"
    then obtain k where k: "k \<in> fst ` set (packet_queue s)" by (cases "packet_queue s") auto
    then have "next_seq s < k" using inv by (auto simp: sorter_inv_def)
    moreover have "k < n" using e k by blast
    ultimately have "next_seq s \<in> {..<n}" by auto
    then show False using e sorter_invD(4) [OF inv] by auto
  qed
  have "{..<n} = {..<next_seq s}" using e q by simp
  then show "next_seq s = n" by (metis lessThan_eq_iff)
qed

text \<open>
  C7: At a fresh sorter, packets numbered 0 to \<open>n - 1\<close>, \<open>n \<le> 101\<close> (so that none is far enough ahead for a jump), may arrive in any order, over any number of paths
  and in any number of copies: if no deadline expires meanwhile, the sorter releases each exactly
  once, in order, holds nothing back and expects \<open>n\<close> next.
\<close>

theorem window_reassembly:
  assumes "channel_laws X contents cap"
    and "pkt_seq ` snd ` set arr = {..<of_nat n}" and "n \<le> 101" and "inj_on pkt_seq (snd ` set arr)"
  shows "seqs (contents (sorted_packet_queue (arrive_all X arr (packet_sorter_new X t0 d)))) =
      map of_nat [0..<n] \<and>
    set (contents (sorted_packet_queue (arrive_all X arr (packet_sorter_new X t0 d)))) = snd ` set arr \<and>
    packet_queue (arrive_all X arr (packet_sorter_new X t0 d)) = [] \<and>
    next_seq (arrive_all X arr (packet_sorter_new X t0 d)) = of_nat n"
proof -
  let ?s = "arrive_all X arr (packet_sorter_new X t0 d)" and ?ps = "snd ` set arr"
  let ?out = "contents (sorted_packet_queue ?s)"
  have u: "unat (of_nat n :: u64) = n" using assms(3) by (simp add: unat_of_nat)
  have "pkt_seq r < 101" if "r \<in> ?ps" for r
  proof -
    have "pkt_seq r < of_nat n" using that assms(2) by blast
    then show ?thesis using assms(3) u by (simp add: word_less_nat_alt)
  qed
  then have w: "window contents cap ?ps ?s"
    using window_arrivals [OF assms(1) window_new [OF assms(1)], of arr] by simp
  note fin = window_complete [OF w assms(2)]
  have out: "seqs ?out = map of_nat [0..<n]" "set ?out \<subseteq> ?ps"
    using w fin u by (auto simp: window_def)
  have "r \<in> set ?out" if "r \<in> ?ps" for r
  proof -
    have "pkt_seq r \<in> {..<of_nat n}" using that assms(2) by blast
    then have "unat (pkt_seq r) < n" using u by (simp add: word_less_nat_alt)
    then have "pkt_seq r \<in> set (seqs ?out)"
      unfolding out by (auto intro!: image_eqI [of _ _ "unat (pkt_seq r)"])
    then obtain r' where "r' \<in> set ?out" "pkt_seq r' = pkt_seq r" by (auto simp: seqs_def)
    then show ?thesis using out(2) that assms(4) by (metis inj_onD subsetD)
  qed
  then show ?thesis using out fin by blast
qed

theorem window_reassembly_witness:
  "seqs (snd (sorted_packet_queue (arrive_all ref_deps
      [(1, pk 2), (2, pk 1), (3, pk 2), (4, pk 0), (5, pk 1)] (packet_sorter_new ref_deps 0 100)))) = [0, 1, 2]"
proof -
  let ?arr = "[(1, pk 2), (2, pk 1), (3, pk 2), (4, pk 0), (5, pk 1)] :: (instant \<times> packet) list"
  have "{..<3 :: u64} = {0, 1, 2}"
  proof -
    have "k < 3 \<longleftrightarrow> k = 0 \<or> k = 1 \<or> k = 2" for k :: u64
      by (simp add: word_less_nat_alt word_unat_eq_iff) arith
    then show ?thesis by auto
  qed
  then have "pkt_seq ` snd ` set ?arr = {..<of_nat 3}" by auto
  moreover have "inj_on pkt_seq (snd ` set ?arr)" by (auto simp: inj_on_def)
  ultimately show ?thesis
    using window_reassembly [OF ref_channel_laws, of ?arr 3 0 100] by (simp add: upt_rec)
qed

end
