(* ===== verification/Sorter_Timer.thy ===== *)
theory Sorter_Timer
  imports Sorter_Window
begin

text \<open>
  The deadline timer of the packet sorter: while a packet waits the timer is armed, it fires no
  later than one deadline after the last operation, and after a deadline has been handled it is
  set for the moment the new oldest packet has waited its time.
\<close>

section \<open>The timer through one operation\<close>

lemma due_funpow_set_after:
  assumes "timer_laws X due"
  shows "due ((timer_set_after X now d ^^ n) t) = (if n = 0 then due t else Some (now + d))"
  by (cases n) (simp_all add: timer_lawsD(2) [OF assms])

lemma due_enqueue:
  assumes "timer_laws X due"
  shows "due (deadline_timer (enqueue_sorted_packets X now s)) =
    (if ready (next_seq s) (packet_queue s) = [] then due (deadline_timer s)
     else Some (now + deadline s))"
  by (simp add: enqueue_sorted_packets_eq Let_def due_funpow_set_after [OF assms])

lemma due_advance:
  assumes "timer_laws X due"
  shows "due (deadline_timer (advance_queue X now s)) =
    (case packet_queue (advance_queue X now s) of [] \<Rightarrow> None
     | (k, e) # q \<Rightarrow> Some (now + (deadline s - (now - qp_timestamp e))))"
  by (auto simp: advance_queue_def bt_first_def Let_def timer_lawsD [OF assms]
      split: list.split prod.split)

lemma due_insert:
  assumes "timer_laws X due" "next_seq s \<le> pkt_seq p"
  shows "\<exists>i. due (deadline_timer (insert_packet X now p s)) = Some i \<and>
    (i \<le> now + deadline s \<or> due (deadline_timer s) = Some i)"
proof -
  let ?m = "if jumps p s then advance_queue X now (inserted now p s) else inserted now p s"
  let ?e = "enqueue_sorted_packets X now ?m"
  have e: "insert_packet X now p s =
      (if \<not> timer_will_fire X (deadline_timer ?e)
       then ?e\<lparr>deadline_timer := timer_set_after X now (deadline ?e) (deadline_timer ?e)\<rparr> else ?e)"
    using assms(2)
    by (auto simp: insert_packet_def bt_last_def jumps_def checked_sub_def inserted_def Let_def
        split: prod.splits if_splits)
  have d: "deadline ?m = deadline s" by (simp add: advance_queue_sel)
  have m: "due (deadline_timer ?m) = None \<or> (\<exists>i. due (deadline_timer ?m) = Some i \<and>
      (i \<le> now + deadline s \<or> due (deadline_timer s) = Some i))"
    by (auto simp: due_advance [OF assms(1)] split: list.split)
  show ?thesis
    using m unfolding e
    by (auto simp: timer_lawsD [OF assms(1)] due_enqueue [OF assms(1)] d advance_queue_sel)
qed

section \<open>The timer over a history\<close>

text \<open>
  \<open>timed due now s\<close>: the timer is due within one deadline of \<open>now\<close> if it is due at all, and it is
  due if a packet waits.
\<close>

definition timed :: "('t \<Rightarrow> instant option) \<Rightarrow> instant \<Rightarrow> ('t, 'c) packet_sorter \<Rightarrow> bool" where
  "timed due now s \<longleftrightarrow>
    (\<forall>i. due (deadline_timer s) = Some i \<longrightarrow> i \<le> now + deadline s) \<and>
    (packet_queue s \<noteq> [] \<longrightarrow> due (deadline_timer s) \<noteq> None)"

fun event_time :: "instant \<Rightarrow> sorter_event \<Rightarrow> instant" where
  "event_time t (Arrive now p) = now"
| "event_time t (DeadlineFired now) = now"
| "event_time t Deliver = t"

fun chronological :: "instant \<Rightarrow> sorter_event list \<Rightarrow> bool" where
  "chronological t [] \<longleftrightarrow> True"
| "chronological t (e # es) \<longleftrightarrow> t \<le> event_time t e \<and> chronological (event_time t e) es"

definition last_time :: "instant \<Rightarrow> sorter_event list \<Rightarrow> instant" where
  "last_time t es = fold (\<lambda>e t. event_time t e) es t"

lemma deadline_step [simp]: "deadline (sorter_step X e s) = deadline s"
  by (cases e) (auto simp: insert_packet_def advance_queue_sel await_deadline_def Let_def
      await_have_next_packet_def split: option.split prod.split)

lemma timed_step:
  assumes "timer_laws X due" "timed due t s" "t \<le> event_time t e"
  shows "timed due (event_time t e) (sorter_step X e s)"
proof (cases e)
  case (Arrive now p)
  show ?thesis
  proof (cases "next_seq s \<le> pkt_seq p")
    case True
    with due_insert [OF assms(1) True, of now] Arrive assms(2,3) show ?thesis
      using deadline_step [of X e s] by (fastforce simp: timed_def)
  next
    case False
    with Arrive assms(2,3) show ?thesis by (fastforce simp: timed_def insert_packet_stale)
  qed
next
  case (DeadlineFired now)
  then have "timed due now (advance_queue X now (s\<lparr>deadline_timer := u\<rparr>))" for u
    by (auto simp: timed_def due_advance [OF assms(1)] advance_queue_sel(4) split: list.split)
  then show ?thesis using DeadlineFired assms(2,3)
    by (fastforce simp: await_deadline_def timed_def split: option.split)
next
  case Deliver
  then show ?thesis using assms(2)
    by (auto simp: timed_def await_have_next_packet_def split: option.split)
qed

lemma timed_run:
  "timer_laws X due \<Longrightarrow> timed due t s \<Longrightarrow> chronological t es \<Longrightarrow>
    timed due (last_time t es) (fold (sorter_step X) es s)"
proof (induction es arbitrary: t s)
  case (Cons e es)
  then have "timed due (last_time (event_time t e) es) (fold (sorter_step X) es (sorter_step X e s))"
    by (intro Cons.IH timed_step) auto
  then show ?case by (simp add: last_time_def)
qed (simp add: last_time_def)

lemma deadline_run: "deadline (fold (sorter_step X) es s) = deadline s"
  by (induction es arbitrary: s) auto

text \<open>
  C18: No packet is stuck: after any history whose clock does not run backwards, a sorter with a
  waiting packet has its deadline timer armed, to fire no later than one deadline after the last
  operation.
\<close>

theorem waiting_packets_have_a_deadline:
  assumes "timer_laws X due" "chronological t0 es"
    and "packet_queue (fold (sorter_step X) es (packet_sorter_new X t0 d)) \<noteq> []"
  shows "\<exists>i. due (deadline_timer (fold (sorter_step X) es (packet_sorter_new X t0 d))) = Some i \<and>
    i \<le> last_time t0 es + d"
proof -
  have "timed due t0 (packet_sorter_new X t0 d)"
    by (simp add: timed_def packet_sorter_new_def timer_lawsD(1) [OF assms(1)])
  from timed_run [OF assms(1) this assms(2)] assms(3) show ?thesis
    by (auto simp: timed_def deadline_run packet_sorter_new_def)
qed

theorem waiting_packets_have_a_deadline_witness:
  "\<exists>i. deadline_timer (fold (sorter_step ref_deps) [Arrive 3 (pk 4), DeadlineFired 4, Arrive 9 (pk 6)]
      (packet_sorter_new ref_deps 0 100)) = Some i \<and> i \<le> 109"
proof -
  let ?es = "[Arrive 3 (pk 4), DeadlineFired 4, Arrive 9 (pk 6)]"
  have "packet_queue (fold (sorter_step ref_deps) ?es (packet_sorter_new ref_deps 0 100)) \<noteq> []"
    by (simp add: sorter_eval)
  from waiting_packets_have_a_deadline [OF ref_timer_laws _ this]
  show ?thesis by (simp add: last_time_def)
qed

text \<open>
  C33: After an expired deadline has been handled, the timer is set for the moment the oldest
  packet still waiting has waited exactly one deadline since it arrived (at once, if it has
  already), and it is switched off when nothing waits.
\<close>

theorem deadline_rearmed_for_oldest:
  fixes s :: "('t, 'c) packet_sorter"
  assumes "timer_laws X due" "\<forall>(k, e)\<in>set (packet_queue s). qp_timestamp e \<le> now"
  shows "due (deadline_timer (advance_queue X now s)) =
    (case packet_queue (advance_queue X now s) of [] \<Rightarrow> None
     | (k, e) # q \<Rightarrow> Some (max now (qp_timestamp e + deadline s)))"
proof -
  have "set (packet_queue (advance_queue X now s)) \<subseteq> set (packet_queue s)"
    by (auto simp: advance_queue_sel split: list.splits dest: in_set_dropD)
  then have "qp_timestamp e \<le> now" if "packet_queue (advance_queue X now s) = (k, e) # q" for k e q
    using assms(2) that by auto
  moreover have "now + (d - (now - t)) = max now (t + d)" if "t \<le> now" for t d :: nat
    using that by (auto simp: max_def)
  ultimately show ?thesis by (auto simp: due_advance [OF assms(1)] split: list.split)
qed

theorem deadline_rearmed_for_oldest_witness:
  "deadline_timer (advance_queue ref_deps 4 (demo_sorter [waiting 6, waiting 9] 5)) = Some 8"
proof -
  have "\<forall>(k, e)\<in>set (packet_queue (demo_sorter [waiting 6, waiting 9] 5)). qp_timestamp e \<le> 4" by simp
  from deadline_rearmed_for_oldest [OF ref_timer_laws this]
  show ?thesis by (simp add: advance_queue_sel)
qed

end
