(* ===== verification/Sorter_Loop.thy ===== *)
theory Sorter_Loop
  imports Packet_Sorter "HOL-Library.While_Combinator"
begin

text \<open>The loop that releases packets, as a loop: it ends.\<close>

section \<open>The release loop as a loop\<close>

definition release_next :: "('t, 'c) deps \<Rightarrow> instant \<Rightarrow> ('t, 'c) packet_sorter \<Rightarrow> ('t, 'c) packet_sorter" where
  "release_next X now s =
    (case get_next_packet X now s of
       (Some packet, s') \<Rightarrow> s'\<lparr>sorted_packet_queue := snd (chan_try_send X packet (sorted_packet_queue s'))\<rparr>
     | (None, s') \<Rightarrow> s')"

lemma have_next_packet_iff: "have_next_packet s \<longleftrightarrow> (\<exists>p s'. get_next_packet X now s = (Some p, s'))"
  by (auto simp: have_next_packet_def get_next_packet_def bt_first_def bt_pop_first_def split: list.split)

lemma get_next_packet_None: "get_next_packet X now s = (None, s') \<Longrightarrow> s' = s"
  by (auto simp: get_next_packet_def bt_first_def bt_pop_first_def split: list.splits if_splits)

text \<open>
  C34: The loop that releases packets ends, from any state of the sorter and whatever the channel does: as a
  loop that runs while the next packet is there it returns, what it returns is the function
  of the model, and it takes at most one round for every queued packet.
\<close>

theorem release_loop_terminates:
  "while_option have_next_packet (release_next X now) s = Some (enqueue_sorted_packets X now s) \<and>
    (\<exists>n \<le> get_queue_length s. enqueue_sorted_packets X now s = (release_next X now ^^ n) s)"
proof (induction X now s rule: enqueue_sorted_packets.induct)
  case (1 X now s)
  show ?case
  proof (cases "get_next_packet X now s")
    case (Pair r s1)
    show ?thesis
    proof (cases r)
      case None
      then have "\<not> have_next_packet s" "s1 = s"
        using Pair by (simp_all add: have_next_packet_iff [of s X now] get_next_packet_None)
      then show ?thesis using Pair None
        by (subst while_option_unfold) (auto simp: enqueue_sorted_packets.simps [of X now s] intro: exI [of _ 0])
    next
      case (Some p)
      let ?s = "release_next X now s"
      have r: "?s = s1\<lparr>sorted_packet_queue := snd (chan_try_send X p (sorted_packet_queue s1))\<rparr>"
        using Pair Some by (simp add: release_next_def)
      have l: "get_queue_length ?s < get_queue_length s"
        using get_next_packet_shrinks [of X now s p s1] Pair Some by (simp add: get_queue_length_def r)
      have IH: "while_option have_next_packet (release_next X now) ?s = Some (enqueue_sorted_packets X now ?s)"
        "\<exists>n \<le> get_queue_length ?s. enqueue_sorted_packets X now ?s = (release_next X now ^^ n) ?s"
        using "1.IH" [OF Pair [symmetric] Some] unfolding r by blast+
      have e: "enqueue_sorted_packets X now s = enqueue_sorted_packets X now ?s"
        using Pair Some r by (simp add: enqueue_sorted_packets.simps [of X now s])
      have "have_next_packet s" using Pair Some by (simp add: have_next_packet_iff [of s X now])
      then have "while_option have_next_packet (release_next X now) s = Some (enqueue_sorted_packets X now s)"
        using IH(1) e by (subst while_option_unfold) simp
      moreover obtain n where "n \<le> get_queue_length ?s" "enqueue_sorted_packets X now ?s = (release_next X now ^^ n) ?s"
        using IH(2) by blast
      then have "Suc n \<le> get_queue_length s \<and> enqueue_sorted_packets X now s = (release_next X now ^^ Suc n) s"
        using e l by (simp add: funpow_Suc_right del: funpow.simps)
      ultimately show ?thesis by blast
    qed
  qed
qed

end
