(* ===== verification/Connection.thy ===== *)
theory Connection
  imports World
begin

text \<open>
  One network path to a peer: \<open>crates/common/src/connection.rs\<close>, and the socket set-up of
  \<open>crates/common/src/lib.rs\<close>.

  A socket is its descriptor with the addresses it was bound and connected to.  The scratch
  \<open>buffer\<close> and the asynchronous duplicate of the socket kept for reading have no field: reading is
  an event of the loop that carries the bytes received.  The instant a timer is set at is the
  instant the operation runs at.
\<close>

section \<open>Sockets\<close>

record udp_socket =
  sk_fd :: fd
  sk_local :: "sockaddr option"
  sk_peer :: "sockaddr option"

text \<open>
  The environment of \<open>interface_to_ipaddr\<close>: the interfaces the kernel lists, each with its
  addresses (\<open>Inl\<close> an IPv4 address, \<open>Inr\<close> an IPv6 address).
\<close>

type_synonym interfaces = "(string \<times> (ipv4 + 128 word) list) list"

definition interface_to_ipaddr :: "interfaces \<Rightarrow> string \<Rightarrow> ipv4 io_result" where
  "interface_to_ipaddr ifs interface =
    (case find (\<lambda>iface. fst iface = interface) ifs of
       None \<Rightarrow> Inl NotFound
     | Some iface \<Rightarrow>
         (case find isl (snd iface) of
            None \<Rightarrow> Inl AddrNotAvailable
          | Some ipaddr \<Rightarrow> (case ipaddr of Inl ip \<Rightarrow> Inr ip | Inr ip6 \<Rightarrow> Inl AddrNotAvailable)))"

text \<open>
  \<open>make_socket\<close>: creating the socket must succeed, a failure to bind to the device is an error when
  the device is gone and a panic otherwise, the local address defaults to that of the interface.
\<close>

definition make_socket ::
  "interfaces \<Rightarrow> string \<Rightarrow> ipv4 option \<Rightarrow> u16 option \<Rightarrow> bool \<Rightarrow> world \<Rightarrow> (udp_socket io_result \<times> world) run" where
  "make_socket ifs interface local_address local_port bind_to_device w =
    (case sys SocketNew w of
       (Inl e, w) \<Rightarrow> Inl UnwrapErr
     | (Inr fd, w) \<Rightarrow>
         bindR (if bind_to_device
           then (case sys (BindDevice fd interface) w of
                   (Inl e, w) \<Rightarrow> if e = NoDevice then Inr (Inl e, w) else Inl UnexpectedBindError
                 | (Inr _, w) \<Rightarrow> Inr (Inr (), w))
           else Inr (Inr (), w))
         (\<lambda>(bound, w). case bound of
            Inl e \<Rightarrow> Inr (Inl e, w)
          | Inr _ \<Rightarrow>
              bindR (case local_address of
                  Some ip \<Rightarrow> Inr ip
                | None \<Rightarrow> unwrap_result (interface_to_ipaddr ifs interface))
              (\<lambda>ip.
                let address = V4 ip (case local_port of Some p \<Rightarrow> p | None \<Rightarrow> 0) in
                Inr (try_call (Bind fd address) w (\<lambda>_ w.
                     try_call (SetNonblocking fd) w (\<lambda>_ w.
                     try_call (AsyncTryFrom fd) w (\<lambda>_ w.
                       (Inr \<lparr>sk_fd = fd, sk_local = Some address, sk_peer = None\<rparr>, w))))))))"

section \<open>Connections\<close>

datatype connection_state = Startup | Connected | Disconnected

record 't connection =
  std_socket :: "udp_socket option"
  cn_interface_name :: "string option"
  local_address :: "sockaddr option"
  connection_timeout_duration :: duration
  connection_timeout :: 't
  state :: connection_state
  peer_addr :: sockaddr
  enabled :: bool

record read_info =
  packet_bytes :: "u8 list"
  source_address :: sockaddr
  ri_interface_name :: string

text \<open>
  The two addresses are asked of the kernel.  It answers with the address the socket was connected to
  (\<open>peer_addr\<close> of a socket that was not is an error), and with the one it was bound to, where a port
  0 stands for one the kernel chose: the number it answers.
\<close>

definition bound_address :: "sockaddr \<Rightarrow> nat \<Rightarrow> sockaddr" where
  "bound_address a port =
    (case a of
       V4 ip p \<Rightarrow> V4 ip (if p = 0 then of_nat port else p)
     | V6 ip p \<Rightarrow> V6 ip (if p = 0 then of_nat port else p))"

definition connection_new ::
  "('t, 'c) deps \<Rightarrow> udp_socket \<Rightarrow> string option \<Rightarrow> nat \<Rightarrow> world \<Rightarrow> ('t connection \<times> world) run" where
  "connection_new X socket interface_name timeout w =
    bindR (must_call (GetPeerName (sk_fd socket)) w) (\<lambda>(_, w).
    bindR (case sk_peer socket of None \<Rightarrow> Inl UnwrapErr | Some a \<Rightarrow> Inr a) (\<lambda>destination_socket_addr.
    bindR (must_call (GetSockName (sk_fd socket)) w) (\<lambda>(port, w).
    bindR (case sk_local socket of None \<Rightarrow> Inl UnwrapErr | Some a \<Rightarrow> Inr (bound_address a port)) (\<lambda>local_addr.
      Inr (\<lparr>std_socket = Some socket, cn_interface_name = interface_name,
        local_address = Some local_addr,
        connection_timeout_duration = from_millis timeout,
        connection_timeout = timer_after X (w_now w) (from_millis timeout),
        state = Startup, peer_addr = destination_socket_addr, enabled = True\<rparr>, w)))))"

text \<open>One of the two questions is refused.\<close>

definition names_refused :: "udp_socket \<Rightarrow> world \<Rightarrow> bool" where
  "names_refused sk w \<longleftrightarrow> isl (w_answer w (GetPeerName (sk_fd sk)) (length (w_trace w))) \<or>
     isl (w_answer w (GetSockName (sk_fd sk)) (Suc (length (w_trace w))))"

lemma names_refused_refuses: "names_refused sk w \<Longrightarrow> refuses w"
  by (auto simp: names_refused_def isl_def intro: refusesI)

lemma connection_new_cases:
  assumes "sk_peer sk = Some addr" "sk_local sk = Some l"
  shows "if names_refused sk w then connection_new X sk name timeout w = Inl UnwrapErr
    else \<exists>c a. connection_new X sk name timeout w =
        Inr (c, w\<lparr>w_trace := w_trace w @ [GetPeerName (sk_fd sk), GetSockName (sk_fd sk)]\<rparr>) \<and>
      c = \<lparr>std_socket = Some sk, cn_interface_name = name, local_address = Some a,
        connection_timeout_duration = from_millis timeout,
        connection_timeout = timer_after X (w_now w) (from_millis timeout),
        state = Startup, peer_addr = addr, enabled = True\<rparr>"
  using assms
  by (cases "w_answer w (GetPeerName (sk_fd sk)) (length (w_trace w))";
      cases "w_answer w (GetSockName (sk_fd sk)) (Suc (length (w_trace w)))")
    (simp_all add: connection_new_def names_refused_def must_call_def sys_def)

lemma connection_new_outcome:
  assumes "sk_peer sk \<noteq> None" "sk_local sk \<noteq> None"
  shows "outcome (\<lambda>p. p = UnwrapErr \<and> refuses w) (\<lambda>(c, w'). extends w w' \<and> std_socket c = Some sk)
    (connection_new X sk name timeout w)"
proof -
  obtain addr l where "sk_peer sk = Some addr" "sk_local sk = Some l" using assms by blast
  from connection_new_cases [OF this, of w X name timeout] show ?thesis
    using names_refused_refuses [of sk w] by (auto simp: extends_def split: if_splits)
qed

definition reset_hello_timeout :: "('t, 'c) deps \<Rightarrow> instant \<Rightarrow> 't connection \<Rightarrow> 't connection" where
  "reset_hello_timeout X now c =
    c\<lparr>connection_timeout := timer_set_after X now (connection_timeout_duration c) (connection_timeout c)\<rparr>"

definition get_interface_name :: "'t connection \<Rightarrow> string" where
  "get_interface_name c = (case cn_interface_name c of Some n \<Rightarrow> n | None \<Rightarrow> ''DYN-interface'')"

definition get_name_address_touple :: "'t connection \<Rightarrow> string \<times> sockaddr" where
  "get_name_address_touple c =
    (case cn_interface_name c of
       Some n \<Rightarrow> (n, peer_addr c)
     | None \<Rightarrow> (''DYN-interface'', peer_addr c))"

text \<open>What \<open>read\<close> returns once the socket has delivered \<open>bytes\<close>.\<close>

definition connection_read :: "'t connection \<Rightarrow> u8 list \<Rightarrow> read_info" where
  "connection_read c bytes =
    \<lparr>packet_bytes = bytes, source_address = peer_addr c, ri_interface_name = get_interface_name c\<rparr>"

text \<open>\<open>write\<close> never blocks: a busy interface drops the packet and reports success.\<close>

definition connection_write :: "'t connection \<Rightarrow> u8 list \<Rightarrow> world \<Rightarrow> (nat io_result \<times> world) run" where
  "connection_write c packet w =
    (case std_socket c of
       Some s \<Rightarrow>
         (case sys (Send (sk_fd s) packet) w of
            (Inr send_bytes, w) \<Rightarrow> Inr (Inr send_bytes, w)
          | (Inl e, w) \<Rightarrow> if e = WouldBlock then Inr (Inr 0, w) else Inr (Inl e, w))
     | None \<Rightarrow> Inl Unreachable)"

text \<open>\<open>None\<close>: the timeout has not been reached.\<close>

definition await_connection_timeout ::
  "('t, 'c) deps \<Rightarrow> instant \<Rightarrow> 't connection \<Rightarrow> ((sockaddr \<times> string) \<times> 't connection) option" where
  "await_connection_timeout X now c =
    map_option (\<lambda>t. ((peer_addr c, get_interface_name c), c\<lparr>connection_timeout := t\<rparr>))
      (timer_next X now (connection_timeout c))"

definition connection_enable :: "'t connection \<Rightarrow> 't connection" where
  "connection_enable c = c\<lparr>enabled := True\<rparr>"

definition connection_disable :: "'t connection \<Rightarrow> 't connection" where
  "connection_disable c = c\<lparr>enabled := False\<rparr>"

definition is_enabled :: "'t connection \<Rightarrow> bool" where
  "is_enabled c = enabled c"

section \<open>Facts about writing\<close>

definition fd_of :: "'t connection \<Rightarrow> fd" where
  "fd_of c = sk_fd (the (std_socket c))"

text \<open>The answer \<open>write\<close> gives from what the kernel answers.\<close>

definition write_result :: "nat io_result \<Rightarrow> nat io_result" where
  "write_result r = (case r of Inr n \<Rightarrow> Inr n | Inl e \<Rightarrow> if e = WouldBlock then Inr 0 else Inl e)"

lemma connection_write_eq:
  "std_socket c \<noteq> None \<Longrightarrow> connection_write c packet w =
    Inr (write_result (w_answer w (Send (fd_of c) packet) (length (w_trace w))), w\<lparr>w_trace := w_trace w @ [Send (fd_of c) packet]\<rparr>)"
  by (auto simp: connection_write_def sys_def fd_of_def write_result_def split: sum.split)

lemma connection_write_panics_iff: "panics (connection_write c packet w) \<longleftrightarrow> std_socket c = None"
  by (auto simp: connection_write_def sys_def split: option.split sum.split)

lemma connection_write_extends: "connection_write c packet w = Inr (r, w') \<Longrightarrow> extends w w'"
  by (auto simp: connection_write_def sys_def extends_def split: option.splits sum.splits if_splits)

lemma name_address_touple: "get_name_address_touple c = (get_interface_name c, peer_addr c)"
  by (simp add: get_name_address_touple_def get_interface_name_def split: option.split)

section \<open>Properties\<close>

text \<open>
  A write to a connection with its socket makes exactly one \<open>send\<close> call with the whole packet
  and never panics; a socket that would block counts as a success of length 0, every other error
  of the kernel is handed to the caller unchanged.
\<close>

lemma write_is_one_best_effort_send:
  assumes "std_socket c = Some s"
  shows "\<exists>r w'. connection_write c packet w = Inr (r, w') \<and>
    w_trace w' = w_trace w @ [Send (sk_fd s) packet] \<and>
    r \<noteq> Inl WouldBlock \<and>
    r = (if w_answer w (Send (sk_fd s) packet) (length (w_trace w)) = Inl WouldBlock then Inr 0
         else w_answer w (Send (sk_fd s) packet) (length (w_trace w)))"
  using assms by (auto simp: connection_write_def sys_def split: sum.split)

abbreviation demo_world :: "(syscall \<Rightarrow> nat \<Rightarrow> nat io_result) \<Rightarrow> world" where
  "demo_world answers \<equiv> \<lparr>w_now = 10, w_system_now = 10, w_trace = [], w_answer = answers,
     w_recv_fails = False, w_uuids = of_nat, w_uuid_count = 0\<rparr>"

abbreviation demo_connection :: "fd \<Rightarrow> string \<Rightarrow> connection_state \<Rightarrow> instant option connection" where
  "demo_connection n iface st \<equiv>
    \<lparr>std_socket = Some \<lparr>sk_fd = n, sk_local = Some (V4 1 0), sk_peer = Some (V4 2 40000)\<rparr>,
     cn_interface_name = Some iface, local_address = Some (V4 1 0),
     connection_timeout_duration = 1000, connection_timeout = Some 1000, state = st,
     peer_addr = V4 2 40000, enabled = True\<rparr>"

lemma write_is_one_best_effort_send_witness:
  "\<exists>r w'. connection_write (demo_connection 3 ''veth1'' Connected) [1, 2] (demo_world (\<lambda>c n. Inl WouldBlock)) =
      Inr (r, w') \<and> w_trace w' = [Send 3 [1, 2]] \<and> r = Inr 0"
  using write_is_one_best_effort_send [of "demo_connection 3 ''veth1'' Connected" _ "[1, 2]"
      "demo_world (\<lambda>c n. Inl WouldBlock)"] by auto

text \<open>
  Opening a client socket panics exactly when the kernel refuses a socket, or refuses to bind
  it to the device for a reason other than the device being gone; a missing device, and a refusal
  to bind the address, are errors of the call.  (The local address is given, as every caller does.)
\<close>

lemma make_socket_panics_iff:
  "panics (make_socket ifs interface (Some ip) port True w) \<longleftrightarrow>
    (case w_answer w SocketNew (length (w_trace w)) of
       Inl e \<Rightarrow> True
     | Inr fd \<Rightarrow> (case w_answer w (BindDevice fd interface) (Suc (length (w_trace w))) of
         Inl e \<Rightarrow> e \<noteq> NoDevice
       | Inr _ \<Rightarrow> False))"
  by (auto simp: make_socket_def sys_def Let_def split: sum.split)

end
