(* ===== verification/Path_Latency.thy ===== *)
theory Path_Latency
  imports Ordered_Map Machine
begin

text \<open>
  The latency estimator of \<open>crates/common/src/path_latency.rs\<close>: for each hello sequence number the
  wall-clock times at which copies of it arrived, at most 100 numbers at a time.

  The arithmetic on \<open>f64\<close> is a parameter \<open>F\<close> of the estimate: its operations, the conversion of a
  duration to seconds and back (\<open>None\<close> where \<open>Duration::from_secs_f64\<close> panics).  A wall clock may be
  set back between two readings; \<open>duration_since\<close> then fails and its \<open>unwrap\<close> panics.
\<close>

section \<open>State and operations\<close>

record path_latency =
  ack_timestamps :: "(u64, system_time list) btree"

definition MAX_TIMESTAMPS :: nat where
  "MAX_TIMESTAMPS = 100"

definition path_latency_new :: path_latency where
  "path_latency_new = \<lparr>ack_timestamps = []\<rparr>"

definition insert_new_timestamp :: "system_time \<Rightarrow> u64 \<Rightarrow> path_latency \<Rightarrow> path_latency" where
  "insert_new_timestamp now seq l =
    (if length (ack_timestamps l) < MAX_TIMESTAMPS then
       if bt_contains_key seq (ack_timestamps l)
       then l\<lparr>ack_timestamps := bt_and_modify seq (\<lambda>a. a @ [now]) (ack_timestamps l)\<rparr>
       else l\<lparr>ack_timestamps := bt_insert seq [now] (ack_timestamps l)\<rparr>
     else
       let popped = (case bt_pop_first (ack_timestamps l) of Some (_, rest) \<Rightarrow> rest | None \<Rightarrow> ack_timestamps l) in
       if bt_contains_key seq popped
       then l\<lparr>ack_timestamps := bt_and_modify seq (\<lambda>a. a @ [now]) popped\<rparr>
       else l\<lparr>ack_timestamps := bt_insert seq [now] popped\<rparr>)"

record 'f f64 =
  f_lit :: "nat \<Rightarrow> 'f"
  f_add :: "'f \<Rightarrow> 'f \<Rightarrow> 'f"
  f_mul :: "'f \<Rightarrow> 'f \<Rightarrow> 'f"
  f_div :: "'f \<Rightarrow> 'f \<Rightarrow> 'f"
  f_eq :: "'f \<Rightarrow> 'f \<Rightarrow> bool"
  as_secs_f64 :: "duration \<Rightarrow> 'f"
  from_secs_f64 :: "'f \<Rightarrow> duration option"

fun delay_loop :: "'f f64 \<Rightarrow> (u64, system_time list) btree \<Rightarrow> 'f \<Rightarrow> 'f \<Rightarrow> ('f \<times> 'f) run" where
  "delay_loop F [] acc count = Inr (acc, count)"
| "delay_loop F ((seq, timestamps) # rest) acc count =
    (if 2 \<le> length timestamps then
       (case duration_since (last timestamps) (hd timestamps) of
          None \<Rightarrow> Inl UnwrapErr
        | Some difference \<Rightarrow>
            delay_loop F rest (f_add F acc (as_secs_f64 F difference)) (f_add F count (f_lit F 1)))
     else delay_loop F rest acc count)"

definition estimate_path_delay_difference :: "'f f64 \<Rightarrow> path_latency \<Rightarrow> duration run" where
  "estimate_path_delay_difference F l =
    bindR (delay_loop F (ack_timestamps l) (f_lit F 0) (f_lit F 0)) (\<lambda>(acc, count).
      if f_eq F count (f_lit F 0) then Inr 0
      else let alpha = f_div F (f_lit F 2) (f_add F count (f_lit F 2)) in
        (case from_secs_f64 F (f_mul F acc alpha) of
           Some d \<Rightarrow> Inr d
         | None \<Rightarrow> Inl UnwrapErr))"

section \<open>The table of timestamps\<close>

definition latency_inv :: "path_latency \<Rightarrow> bool" where
  "latency_inv l \<longleftrightarrow> bt_inv (ack_timestamps l) \<and> length (ack_timestamps l) \<le> MAX_TIMESTAMPS \<and>
    (\<forall>ts\<in>snd ` set (ack_timestamps l). ts \<noteq> [])"

text \<open>What is left to insert into: the smallest number goes when the table is full.\<close>

definition make_room :: "path_latency \<Rightarrow> (u64, system_time list) btree" where
  "make_room l = (if length (ack_timestamps l) < MAX_TIMESTAMPS then ack_timestamps l
    else tl (ack_timestamps l))"

lemma insert_new_timestamp_room:
  "ack_timestamps (insert_new_timestamp now seq l) =
    (if bt_contains_key seq (make_room l)
     then bt_and_modify seq (\<lambda>a. a @ [now]) (make_room l)
     else bt_insert seq [now] (make_room l))"
  by (auto simp: insert_new_timestamp_def make_room_def bt_pop_first_def MAX_TIMESTAMPS_def Let_def
      split: list.split)

lemma make_room_props:
  assumes "latency_inv l"
  shows "bt_inv (make_room l)" "length (make_room l) < MAX_TIMESTAMPS"
    and "set (make_room l) \<subseteq> set (ack_timestamps l)"
proof -
  show "bt_inv (make_room l)" using assms
    by (cases "ack_timestamps l") (auto simp: latency_inv_def make_room_def)
  show "length (make_room l) < MAX_TIMESTAMPS" using assms
    by (auto simp: latency_inv_def make_room_def MAX_TIMESTAMPS_def)
  show "set (make_room l) \<subseteq> set (ack_timestamps l)"
    by (cases "ack_timestamps l") (auto simp: make_room_def)
qed

lemma map_of_insert_new_timestamp:
  assumes "latency_inv l"
  shows "map_of (ack_timestamps (insert_new_timestamp now seq l)) =
    (map_of (make_room l))(seq \<mapsto>
      (case map_of (make_room l) seq of None \<Rightarrow> [now] | Some ts \<Rightarrow> ts @ [now]))"
  using make_room_props(1) [OF assms]
  by (auto simp: insert_new_timestamp_room map_of_bt_insert map_of_bt_and_modify bt_contains_key_def
      split: option.split)

text \<open>A property of every list of timestamps, kept when a first or a further one is recorded.\<close>

lemma insert_new_timestamp_all:
  assumes "latency_inv l" "\<forall>ts\<in>snd ` set (ack_timestamps l). P ts" "P [now]"
    and "\<And>ts. P ts \<Longrightarrow> P (ts @ [now])"
  shows "\<forall>ts\<in>snd ` set (ack_timestamps (insert_new_timestamp now seq l)). P ts"
proof
  let ?q = "ack_timestamps (insert_new_timestamp now seq l)"
  note room = make_room_props [OF assms(1)]
  have inv: "bt_inv ?q" using room(1) by (simp add: insert_new_timestamp_room)
  have P: "P ts" if "map_of (make_room l) k = Some ts" for k ts
    using map_of_SomeD [OF that] room(3) assms(2) by force
  fix ts assume "ts \<in> snd ` set ?q"
  then obtain k where "map_of ?q k = Some ts"
    using bt_inv_distinct [OF inv] by (auto simp: map_of_eq_Some_iff)
  then show "P ts"
    using P assms(3,4) by (auto simp: map_of_insert_new_timestamp [OF assms(1)]
        split: if_splits option.splits)
qed

lemma latency_inv_insert:
  assumes "latency_inv l"
  shows "latency_inv (insert_new_timestamp now seq l)"
proof -
  note room = make_room_props [OF assms]
  have "length (ack_timestamps (insert_new_timestamp now seq l)) \<le> Suc (length (make_room l))"
    using bt.len_put_le [OF room(1)] length_bt_and_modify [OF room(1)]
    by (simp add: insert_new_timestamp_room)
  then have "length (ack_timestamps (insert_new_timestamp now seq l)) \<le> MAX_TIMESTAMPS"
    using room(2) by simp
  moreover have "bt_inv (ack_timestamps (insert_new_timestamp now seq l))"
    using room(1) by (simp add: insert_new_timestamp_room)
  moreover have "\<forall>ts\<in>snd ` set (ack_timestamps (insert_new_timestamp now seq l)). ts \<noteq> []"
    using assms by (intro insert_new_timestamp_all) (auto simp: latency_inv_def)
  ultimately show ?thesis by (simp add: latency_inv_def)
qed

text \<open>A run records a list of readings \<open>(now, seq)\<close>, the oldest first.\<close>

interpretation latency: machine "\<lambda>(now, seq). insert_new_timestamp now seq" latency_inv
  by unfold_locales (auto simp: latency_inv_insert)

lemma latency_inv_new: "latency_inv path_latency_new"
  by (simp add: latency_inv_def path_latency_new_def MAX_TIMESTAMPS_def)

abbreviation record_all :: "(system_time \<times> u64) list \<Rightarrow> path_latency \<Rightarrow> path_latency" where
  "record_all rs l \<equiv> fold (\<lambda>(now, seq). insert_new_timestamp now seq) rs l"

section \<open>Properties\<close>

text \<open>
  C37: However many hellos arrive, with whatever sequence numbers, the table of timestamps never
  holds more than 100 numbers, in increasing order.
\<close>

theorem latency_table_bounded:
  "length (ack_timestamps (record_all rs path_latency_new)) \<le> 100 \<and>
   bt_inv (ack_timestamps (record_all rs path_latency_new))"
  using latency.inv_run [OF latency_inv_new, of rs] by (simp add: latency_inv_def MAX_TIMESTAMPS_def)

text \<open>
  Recording a timestamp appends it to the list of its sequence number and leaves every other
  list alone; only in a full table one number, the smallest, is forgotten (its own list, if the
  number recorded is the smallest, starts afresh).
\<close>

lemma recording_appends:
  fixes rs :: "(system_time \<times> u64) list" and now :: system_time and n :: u64
  defines "old \<equiv> ack_timestamps (record_all rs path_latency_new)"
  defines "new \<equiv> ack_timestamps (insert_new_timestamp now n (record_all rs path_latency_new))"
  defines "kept \<equiv> if length old = 100 then (map_of old)(fst (hd old) := None) else map_of old"
  shows "map_of new = kept(n \<mapsto> (case kept n of None \<Rightarrow> [now] | Some ts \<Rightarrow> ts @ [now]))"
proof -
  let ?l = "record_all rs path_latency_new"
  have inv: "latency_inv ?l" by (rule latency.inv_run [OF latency_inv_new])
  have len: "length old \<le> 100" and bt: "bt_inv old"
    using inv by (simp_all add: latency_inv_def MAX_TIMESTAMPS_def old_def)
  have room: "map_of (make_room ?l) = kept"
  proof (cases "length old = 100")
    case True
    then obtain k ts q where "old = (k, ts) # q" by (cases old) auto
    moreover from this have "map_of q k = None"
      using bt by (auto simp: map_of_eq_None_iff)
    ultimately show ?thesis using True
      by (auto simp: make_room_def MAX_TIMESTAMPS_def kept_def fun_eq_iff simp flip: old_def)
  next
    case False
    then show ?thesis using len by (simp add: make_room_def MAX_TIMESTAMPS_def kept_def flip: old_def)
  qed
  show ?thesis
    unfolding new_def map_of_insert_new_timestamp [OF inv] room ..
qed

definition clock_set_back :: "(u64, system_time list) btree \<Rightarrow> bool" where
  "clock_set_back q \<longleftrightarrow> (\<exists>ts\<in>snd ` set q. 2 \<le> length ts \<and> last ts < hd ts)"

lemma delay_loop_panics: "delay_loop F q t c = Inl p \<longleftrightarrow> clock_set_back q \<and> p = UnwrapErr"
  by (induction F q t c rule: delay_loop.induct)
    (auto simp: clock_set_back_def duration_since_def not_le split: option.splits if_splits)

text \<open>
  C38: The estimate panics only when the wall clock was set back between the first and the last
  copy of some hello in the table, or when the final conversion to a duration does.
\<close>

theorem estimate_panics_iff:
  "panics (estimate_path_delay_difference F l) \<longleftrightarrow>
    clock_set_back (ack_timestamps l) \<or>
    (\<exists>acc count. delay_loop F (ack_timestamps l) (f_lit F 0) (f_lit F 0) = Inr (acc, count) \<and>
      \<not> f_eq F count (f_lit F 0) \<and>
      from_secs_f64 F (f_mul F acc (f_div F (f_lit F 2) (f_add F count (f_lit F 2)))) = None)"
proof (cases "delay_loop F (ack_timestamps l) (f_lit F 0) (f_lit F 0)")
  case (Inl p)
  then show ?thesis using delay_loop_panics [of F "ack_timestamps l" "f_lit F 0" "f_lit F 0" p]
    by (simp add: estimate_path_delay_difference_def)
next
  case (Inr r)
  then have "\<not> clock_set_back (ack_timestamps l)"
    using delay_loop_panics [of F "ack_timestamps l" "f_lit F 0" "f_lit F 0" UnwrapErr] by simp
  then show ?thesis using Inr
    by (cases r) (simp add: estimate_path_delay_difference_def Let_def split: option.split)
qed

lemma record_all_sorted:
  assumes "latency_inv l" "\<forall>ts\<in>snd ` set (ack_timestamps l). sorted ts \<and> (\<forall>t\<in>set ts. t \<le> t0)"
    and "sorted (t0 # map fst rs)"
  shows "\<forall>ts\<in>snd ` set (ack_timestamps (record_all rs l)). sorted ts"
  using assms
proof (induction rs arbitrary: l t0)
  case (Cons r rs)
  obtain now n where r: "r = (now, n)" by (cases r)
  have le: "t0 \<le> now" using Cons.prems(3) by (simp add: r)
  have "\<forall>ts\<in>snd ` set (ack_timestamps (insert_new_timestamp now n l)).
      sorted ts \<and> (\<forall>t\<in>set ts. t \<le> now)"
  proof (rule insert_new_timestamp_all [OF Cons.prems(1)])
    show "\<forall>ts\<in>snd ` set (ack_timestamps l). sorted ts \<and> (\<forall>t\<in>set ts. t \<le> now)"
      using Cons.prems(2) le by (meson order_trans)
  qed (simp_all add: sorted_append)
  moreover have "sorted (now # map fst rs)" using Cons.prems(3) by (simp add: r)
  ultimately have "\<forall>ts\<in>snd ` set (ack_timestamps (record_all rs (insert_new_timestamp now n l))). sorted ts"
    by (rule Cons.IH [OF latency_inv_insert [OF Cons.prems(1)]])
  then show ?case by (simp only: r fold_simps prod.case)
qed simp

text \<open>
  As long as the wall clock is not set back, summing the delays never panics, whatever the
  order and the sequence numbers of the hellos.
\<close>

lemma monotone_clock_never_panics:
  assumes "sorted (map fst rs)"
  shows "\<not> panics (delay_loop F (ack_timestamps (record_all rs path_latency_new)) t c)"
proof -
  have "sorted (fst (hd (rs @ [(0, 0)])) # map fst rs)" using assms by (cases rs) simp_all
  then have s: "\<forall>ts\<in>snd ` set (ack_timestamps (record_all rs path_latency_new)). sorted ts"
    by (rule record_all_sorted [OF latency_inv_new, rotated]) (simp add: path_latency_new_def)
  have "\<not> clock_set_back (ack_timestamps (record_all rs path_latency_new))"
  proof
    assume "clock_set_back (ack_timestamps (record_all rs path_latency_new))"
    then obtain ts where ts: "ts \<in> snd ` set (ack_timestamps (record_all rs path_latency_new))"
      "2 \<le> length ts" "last ts < hd ts"
      unfolding clock_set_back_def by blast
    then have "sorted ts" using s by blast
    then have "hd ts \<le> last ts" using ts(2) by (cases ts) auto
    then show False using ts(3) by simp
  qed
  then show ?thesis
    by (cases "delay_loop F (ack_timestamps (record_all rs path_latency_new)) t c")
      (auto simp: delay_loop_panics)
qed

definition nat_f64 :: "nat f64" where
  "nat_f64 = \<lparr>f_lit = id, f_add = (+), f_mul = (*), f_div = (div), f_eq = (=),
     as_secs_f64 = id, from_secs_f64 = Some\<rparr>"

lemma monotone_clock_never_panics_witness:
  "sorted (map fst [(3, 1), (5, 1), (9 :: system_time, 2 :: u64)]) \<and>
   \<not> panics (delay_loop nat_f64 (ack_timestamps (record_all [(3, 1), (5, 1), (9, 2)] path_latency_new)) 0 0)"
  using monotone_clock_never_panics [of "[(3, 1), (5, 1), (9, 2)]" nat_f64 0 0] by simp

end
