(* ===== verification/Endpoint.thy ===== *)
theory Endpoint
  imports Connection Packet_Sorter Path_Latency
begin

text \<open>
  A remote peer: \<open>crates/common/src/endpoint.rs\<close>.  An endpoint owns its connections, the counters of
  what was sent on them, the packet sorter of what was received and two latency estimators.

  Operations that write to sockets are functions of the \<open>world\<close>; the outer sum is a panic, an inner
  \<open>io_result\<close> the Rust \<open>Result\<close>.
\<close>

section \<open>State\<close>

record 't connection_entry =
  interface_name :: string
  interface_address :: sockaddr
  connection :: "'t connection"

record ('t, 'c) endpoint =
  ep_id :: endpoint_id
  session_id :: uuid
  connections :: "'t connection_entry list"
  tx_counter :: u64
  hello_counter :: u64
  hello_ack_counter :: u64
  packet_sorter :: "('t, 'c) packet_sorter"
  hello_path_latency :: path_latency
  hello_ack_path_latency :: path_latency

record endpoint_read_info =
  connection_read_info :: read_info
  eri_endpoint_id :: endpoint_id

definition endpoint_new ::
  "('t, 'c) deps \<Rightarrow> instant \<Rightarrow> endpoint_id \<Rightarrow> uuid \<Rightarrow> nat \<Rightarrow> ('t, 'c) endpoint" where
  "endpoint_new X now eid session packet_sorter_deadline =
    \<lparr>ep_id = eid, session_id = session, connections = [], tx_counter = 0, hello_counter = 0,
     hello_ack_counter = 0,
     packet_sorter = packet_sorter_new X now (from_millis packet_sorter_deadline),
     hello_path_latency = path_latency_new, hello_ack_path_latency = path_latency_new\<rparr>"

section \<open>Loops over the connections\<close>

text \<open>\<open>for_each f ces w\<close> is a \<open>for\<close> loop over \<open>&mut connections\<close> whose body writes to sockets.\<close>

fun for_each ::
  "('e \<Rightarrow> world \<Rightarrow> ('e \<times> world) run) \<Rightarrow> 'e list \<Rightarrow> world \<Rightarrow> ('e list \<times> world) run" where
  "for_each f [] w = Inr ([], w)"
| "for_each f (ce # ces) w =
    bindR (f ce w) (\<lambda>(ce', w).
    bindR (for_each f ces w) (\<lambda>(ces', w). Inr (ce' # ces', w)))"

definition set_state :: "connection_state \<Rightarrow> 't connection_entry \<Rightarrow> 't connection_entry" where
  "set_state st ce = ce\<lparr>connection := (connection ce)\<lparr>state := st\<rparr>\<rparr>"

abbreviation entry_state :: "'t connection_entry \<Rightarrow> connection_state" where
  "entry_state ce \<equiv> state (connection ce)"

section \<open>Operations\<close>

text \<open>
  The socket of a connection opened from the other side: one call per line of \<open>add_connection\<close>,
  each followed by \<open>?\<close>.
\<close>

definition open_dynamic_socket :: "sockaddr \<Rightarrow> sockaddr \<Rightarrow> world \<Rightarrow> udp_socket io_result \<times> world" where
  "open_dynamic_socket local_addr source_addr w =
    try_call SocketNew w (\<lambda>fd w.
    try_call (SetReuseAddress fd) w (\<lambda>_ w.
    try_call (Bind fd local_addr) w (\<lambda>_ w.
    try_call (SetNonblocking fd) w (\<lambda>_ w.
    try_call (AsyncTryFrom fd) w (\<lambda>_ w.
    try_call (ConnectTo fd source_addr) w (\<lambda>_ w.
      (Inr \<lparr>sk_fd = fd, sk_local = Some local_addr, sk_peer = Some source_addr\<rparr>, w)))))))"

definition is_entry :: "sockaddr \<Rightarrow> string \<Rightarrow> 't connection_entry \<Rightarrow> bool" where
  "is_entry addr name ce \<longleftrightarrow> interface_address ce = addr \<and> interface_name ce = name"

definition add_connection ::
  "('t, 'c) deps \<Rightarrow> sockaddr \<Rightarrow> string \<Rightarrow> sockaddr \<Rightarrow> nat \<Rightarrow> ('t, 'c) endpoint \<Rightarrow> world \<Rightarrow>
    (unit io_result \<times> ('t, 'c) endpoint \<times> world) run" where
  "add_connection X source_addr name local_addr timeout ep w =
    (if \<exists>ce\<in>set (connections ep). is_entry source_addr name ce then
       Inr (Inr (), ep\<lparr>connections := update_first (is_entry source_addr name)
          (\<lambda>ce. ce\<lparr>connection := reset_hello_timeout X (w_now w) (connection ce)\<rparr>) (connections ep)\<rparr>, w)
     else
       (case open_dynamic_socket local_addr source_addr w of
          (Inl e, w) \<Rightarrow> Inr (Inl e, ep, w)
        | (Inr socket, w) \<Rightarrow>
            bindR (connection_new X socket None timeout w) (\<lambda>(new_connection, w).
              Inr (Inr (), ep\<lparr>connections := connections ep @
                [\<lparr>interface_name = name, interface_address = source_addr,
                  connection = new_connection\<rparr>]\<rparr>, w))))"

definition ack_entry :: "u8 list \<Rightarrow> 't connection_entry \<Rightarrow> world \<Rightarrow> ('t connection_entry \<times> world) run" where
  "ack_entry serialized ce w =
    (if entry_state ce = Startup \<or> entry_state ce = Connected then
       bindR (connection_write (connection ce) serialized w) (\<lambda>(r, w).
         case r of
           Inr _ \<Rightarrow> Inr (set_state Connected ce, w)
         | Inl _ \<Rightarrow> Inr (set_state Disconnected ce, w))
     else Inr (ce, w))"

definition acknowledge ::
  "('t, 'c) deps \<Rightarrow> endpoint_id \<Rightarrow> uuid \<Rightarrow> route list option \<Rightarrow> ('t, 'c) endpoint \<Rightarrow> world \<Rightarrow>
    (('t, 'c) endpoint \<times> world) run" where
  "acknowledge X own_id session own_static_routes ep w =
    (let ack = \<lparr>ack_id = own_id, ack_session_id = session, ack_static_routes = own_static_routes,
                ack_seq = hello_ack_counter ep\<rparr>;
         ep = ep\<lparr>hello_ack_counter := hello_ack_counter ep + 1\<rparr>
     in bindR (unwrap (bincode_serialize X (HelloAck ack))) (\<lambda>serialized.
        bindR (for_each (ack_entry serialized) (connections ep) w) (\<lambda>(ces, w).
          Inr (ep\<lparr>connections := ces\<rparr>, w))))"

definition has_connections :: "('t, 'c) endpoint \<Rightarrow> bool" where
  "has_connections ep \<longleftrightarrow> length (connections ep) \<noteq> 0"

definition get_alive_connections :: "('t, 'c) endpoint \<Rightarrow> (string \<times> sockaddr) list" where
  "get_alive_connections ep = map (\<lambda>ce. (interface_name ce, interface_address ce)) (connections ep)"

definition update_deadline :: "'f f64 \<Rightarrow> ('t, 'c) endpoint \<Rightarrow> ('t, 'c) endpoint run" where
  "update_deadline F ep =
    bindR (estimate_path_delay_difference F (hello_path_latency ep)) (\<lambda>hello_diff.
    bindR (estimate_path_delay_difference F (hello_ack_path_latency ep)) (\<lambda>hello_ack_diff.
    bindR (duration_mul (max hello_diff hello_ack_diff) 2) (\<lambda>deadline.
      Inr (ep\<lparr>packet_sorter := set_deadline deadline (packet_sorter ep)\<rparr>))))"

definition disable_interface :: "string \<Rightarrow> ('t, 'c) endpoint \<Rightarrow> ('t, 'c) endpoint" where
  "disable_interface name ep = ep\<lparr>connections := map (\<lambda>ce.
     if interface_name ce = name then ce\<lparr>connection := connection_disable (connection ce)\<rparr> else ce)
     (connections ep)\<rparr>"

definition enable_interface :: "string \<Rightarrow> ('t, 'c) endpoint \<Rightarrow> ('t, 'c) endpoint" where
  "enable_interface name ep = ep\<lparr>connections := map (\<lambda>ce.
     if interface_name ce = name then ce\<lparr>connection := connection_enable (connection ce)\<rparr> else ce)
     (connections ep)\<rparr>"

text \<open>
  The four \<open>await\<close> functions poll something of every connection or of the sorter.  Which future
  resolves first is the scheduler's choice \<open>i\<close>.  A result \<open>None\<close> means that the future is not ready.
\<close>

definition await_connections ::
  "('t, 'c) deps \<Rightarrow> nat \<Rightarrow> u8 list io_result \<Rightarrow> ('t, 'c) endpoint \<Rightarrow> endpoint_read_info io_result run" where
  "await_connections X i received ep =
    bindR (select_all X i (length (connections ep))) (\<lambda>j.
      case received of
        Inl e \<Rightarrow> Inr (Inl e)
      | Inr bytes \<Rightarrow> Inr (Inr
          \<lparr>connection_read_info = connection_read (connection (connections ep ! j)) bytes,
           eri_endpoint_id = ep_id ep\<rparr>))"

definition await_connection_timeouts ::
  "('t, 'c) deps \<Rightarrow> instant \<Rightarrow> nat \<Rightarrow> ('t, 'c) endpoint \<Rightarrow>
    ((endpoint_id \<times> string \<times> sockaddr) \<times> ('t, 'c) endpoint) option run" where
  "await_connection_timeouts X now i ep =
    bindR (select_all X i (length (connections ep))) (\<lambda>j.
      Inr (map_option (\<lambda>((addr, name), c). ((ep_id ep, name, addr),
          ep\<lparr>connections := (connections ep)[j := (connections ep ! j)\<lparr>connection := c\<rparr>]\<rparr>))
        (await_connection_timeout X now (connection (connections ep ! j)))))"

definition await_packet_sorter_deadline ::
  "('t, 'c) deps \<Rightarrow> instant \<Rightarrow> ('t, 'c) endpoint \<Rightarrow> (endpoint_id \<times> ('t, 'c) endpoint) option" where
  "await_packet_sorter_deadline X now ep =
    map_option (\<lambda>s. (ep_id ep, ep\<lparr>packet_sorter := s\<rparr>)) (await_deadline X now (packet_sorter ep))"

definition await_sorted_packet ::
  "('t, 'c) deps \<Rightarrow> ('t, 'c) endpoint \<Rightarrow> ((endpoint_id \<times> packet option) \<times> ('t, 'c) endpoint) option" where
  "await_sorted_packet X ep =
    map_option (\<lambda>(r, s). ((ep_id ep, r), ep\<lparr>packet_sorter := s\<rparr>))
      (await_have_next_packet X (packet_sorter ep))"

section \<open>Facts about loops and sockets\<close>

lemma for_each_list_all2:
  assumes "\<And>ce w ce' w'. f ce w = Inr (ce', w') \<Longrightarrow> R ce ce'"
  shows "for_each f ces w = Inr (ces', w') \<Longrightarrow> list_all2 R ces ces'"
proof (induction ces arbitrary: w ces')
  case (Cons ce ces)
  then show ?case using assms by (fastforce simp: bindR_eq_Inr)
qed simp

lemma for_each_extends:
  assumes "\<And>ce w ce' w'. f ce w = Inr (ce', w') \<Longrightarrow> extends w w'"
  shows "for_each f ces w = Inr (ces', w') \<Longrightarrow> extends w w'"
proof (induction ces arbitrary: w ces')
  case (Cons ce ces)
  then show ?case using assms by (fastforce simp: bindR_eq_Inr intro: extends_trans)
qed simp

text \<open>The parts of an entry that no write changes.\<close>

definition same_path :: "'t connection_entry \<Rightarrow> 't connection_entry \<Rightarrow> bool" where
  "same_path ce ce' \<longleftrightarrow> interface_name ce' = interface_name ce \<and>
    interface_address ce' = interface_address ce \<and>
    std_socket (connection ce') = std_socket (connection ce) \<and>
    cn_interface_name (connection ce') = cn_interface_name (connection ce) \<and>
    peer_addr (connection ce') = peer_addr (connection ce) \<and>
    enabled (connection ce') = enabled (connection ce)"

lemma same_path_refl [simp]: "same_path ce ce"
  by (simp add: same_path_def)

lemma same_path_set_state [simp]: "same_path ce (set_state st ce)"
  by (simp add: same_path_def set_state_def)

lemma entry_state_set_state [simp]: "entry_state (set_state st ce) = st"
  by (simp add: set_state_def)

definition has_socket :: "'t connection_entry \<Rightarrow> bool" where
  "has_socket ce \<longleftrightarrow> std_socket (connection ce) \<noteq> None"

lemma has_socket_set_state [simp]: "has_socket (set_state st ce) = has_socket ce"
  by (simp add: has_socket_def set_state_def)

lemma same_path_has_socket: "same_path ce ce' \<Longrightarrow> has_socket ce' = has_socket ce"
  by (simp add: same_path_def has_socket_def)

section \<open>Acknowledging\<close>

definition live :: "'t connection_entry \<Rightarrow> bool" where
  "live ce \<longleftrightarrow> entry_state ce = Startup \<or> entry_state ce = Connected"

text \<open>
  The outcome of sending one packet to the entries that satisfy \<open>p\<close>, when the kernel's next answers
  for the entry \<open>ce\<close> is \<open>ans ce n\<close> if it is the \<open>n\<close>-th call: \<open>upd\<close> says what an answer does to an entry.
\<close>

fun after_send ::
  "('e \<Rightarrow> bool) \<Rightarrow> (nat io_result \<Rightarrow> 'e \<Rightarrow> 'e) \<Rightarrow> ('e \<Rightarrow> nat \<Rightarrow> nat io_result) \<Rightarrow> nat \<Rightarrow> 'e list \<Rightarrow> 'e list" where
  "after_send p upd ans n [] = []"
| "after_send p upd ans n (ce # ces) =
    (if p ce then upd (write_result (ans ce n)) ce # after_send p upd ans (Suc n) ces
     else ce # after_send p upd ans n ces)"

definition sends :: "u8 list \<Rightarrow> ('t connection_entry \<Rightarrow> bool) \<Rightarrow> 't connection_entry list \<Rightarrow> syscall list" where
  "sends bytes p ces = map (\<lambda>ce. Send (fd_of (connection ce)) bytes) (filter p ces)"

lemma length_after_send [simp]: "length (after_send p upd ans n ces) = length ces"
  by (induction p upd ans n ces rule: after_send.induct) auto

lemma after_send_list_all2:
  "(\<And>ce. R ce ce) \<Longrightarrow> (\<And>r ce. p ce \<Longrightarrow> R ce (upd r ce)) \<Longrightarrow> list_all2 R ces (after_send p upd ans n ces)"
  by (induction p upd ans n ces rule: after_send.induct) auto

definition send_answers :: "u8 list \<Rightarrow> world \<Rightarrow> 't connection_entry \<Rightarrow> nat \<Rightarrow> nat io_result" where
  "send_answers bytes w ce = w_answer w (Send (fd_of (connection ce)) bytes)"

lemma send_answers_trace [simp]: "send_answers bytes (w\<lparr>w_trace := t\<rparr>) = send_answers bytes w"
  by (simp add: send_answers_def fun_eq_iff)

text \<open>A loop that writes to the entries satisfying \<open>p\<close>, in closed form.\<close>

lemma for_each_send:
  assumes "\<And>ce w. has_socket ce \<Longrightarrow> p ce \<Longrightarrow> f ce w =
      Inr (upd (write_result (send_answers bytes w ce (length (w_trace w)))) ce,
        w\<lparr>w_trace := w_trace w @ [Send (fd_of (connection ce)) bytes]\<rparr>)"
    and "\<And>ce w. \<not> p ce \<Longrightarrow> f ce w = Inr (ce, w)"
  shows "\<forall>ce\<in>set ces. has_socket ce \<Longrightarrow> for_each f ces w =
    Inr (after_send p upd (send_answers bytes w) (length (w_trace w)) ces,
      w\<lparr>w_trace := w_trace w @ sends bytes p ces\<rparr>)"
proof (induction ces arbitrary: w)
  case (Cons ce ces)
  then show ?case using assms by (cases "p ce") (simp_all add: sends_def)
qed (simp add: sends_def)

definition ack_outcome :: "nat io_result \<Rightarrow> 't connection_entry \<Rightarrow> 't connection_entry" where
  "ack_outcome r ce = (case r of Inr _ \<Rightarrow> set_state Connected ce | Inl _ \<Rightarrow> set_state Disconnected ce)"

lemma ack_entry_live:
  "has_socket ce \<Longrightarrow> live ce \<Longrightarrow> ack_entry bytes ce w =
    Inr (ack_outcome (write_result (send_answers bytes w ce (length (w_trace w)))) ce,
      w\<lparr>w_trace := w_trace w @ [Send (fd_of (connection ce)) bytes]\<rparr>)"
  by (auto simp: ack_entry_def live_def has_socket_def connection_write_eq ack_outcome_def send_answers_def split: sum.split)

lemma ack_entry_dead: "\<not> live ce \<Longrightarrow> ack_entry bytes ce w = Inr (ce, w)"
  by (simp add: ack_entry_def live_def)

lemma for_each_ack:
  "\<forall>ce\<in>set ces. has_socket ce \<Longrightarrow> for_each (ack_entry bytes) ces w =
    Inr (after_send live ack_outcome (send_answers bytes w) (length (w_trace w)) ces,
      w\<lparr>w_trace := w_trace w @ sends bytes live ces\<rparr>)"
  by (rule for_each_send [OF ack_entry_live ack_entry_dead])

text \<open>
  C27: Acknowledging sends the same encoded message once on every connection that is starting up or
  connected, in order, and on no other.  A connection whose send succeeded is connected afterwards,
  one whose send failed is disconnected, a disconnected one stays as it is.  The acknowledgement
  counter grows by one, and nothing panics.
\<close>

theorem acknowledge_reaches_live_connections:
  assumes "\<forall>ce\<in>set (connections ep). has_socket ce"
    and "bincode_serialize X (HelloAck \<lparr>ack_id = own, ack_session_id = sid,
        ack_static_routes = routes, ack_seq = hello_ack_counter ep\<rparr>) = Some bytes"
  shows "acknowledge X own sid routes ep w =
    Inr (ep\<lparr>hello_ack_counter := hello_ack_counter ep + 1,
        connections := after_send live ack_outcome (send_answers bytes w) (length (w_trace w)) (connections ep)\<rparr>,
      w\<lparr>w_trace := w_trace w @ sends bytes live (connections ep)\<rparr>)"
  using for_each_ack [OF assms(1)] assms(2) by (simp add: acknowledge_def)

abbreviation demo_entry :: "fd \<Rightarrow> string \<Rightarrow> connection_state \<Rightarrow> instant option connection_entry" where
  "demo_entry n iface st \<equiv>
    \<lparr>interface_name = iface, interface_address = V4 2 40000, connection = demo_connection n iface st\<rparr>"

abbreviation demo_endpoint ::
  "instant option connection_entry list \<Rightarrow> (instant option, nat \<times> packet list) endpoint" where
  "demo_endpoint ces \<equiv> (endpoint_new ref_deps 0 1 77 100)\<lparr>connections := ces\<rparr>"

theorem acknowledge_reaches_live_connections_witness:
  "\<exists>ep' w'. acknowledge ref_deps 9 77 None
      (demo_endpoint [demo_entry 3 ''veth1'' Startup, demo_entry 4 ''veth2'' Disconnected,
        demo_entry 5 ''veth3'' Connected])
      (demo_world (\<lambda>c n. if n = 0 then Inr 5 else Inl NetworkUnreachable)) = Inr (ep', w') \<and>
    map entry_state (connections ep') = [Connected, Disconnected, Disconnected] \<and>
    w_trace w' = [Send 3 [], Send 5 []] \<and> hello_ack_counter ep' = 1"
proof -
  let ?ep = "demo_endpoint [demo_entry 3 ''veth1'' Startup, demo_entry 4 ''veth2'' Disconnected,
        demo_entry 5 ''veth3'' Connected]"
  have "\<forall>ce\<in>set (connections ?ep). has_socket ce" by (simp add: has_socket_def)
  from acknowledge_reaches_live_connections [OF this, of ref_deps 9 77 None "[]"
      "demo_world (\<lambda>c n. if n = 0 then Inr 5 else Inl NetworkUnreachable)"]
  show ?thesis
    by (simp add: ref_deps_def endpoint_new_def live_def ack_outcome_def write_result_def sends_def
        fd_of_def set_state_def send_answers_def)
qed

section \<open>Adding connections\<close>

lemma open_dynamic_socket_extends: "open_dynamic_socket l a w = (r, w') \<Longrightarrow> extends w w'"
  unfolding open_dynamic_socket_def
  by (erule extends_try_call)+ simp

lemma open_dynamic_socket_peer:
  "open_dynamic_socket l a w = (Inr sk, w') \<Longrightarrow> sk_peer sk = Some a \<and> sk_local sk = Some l"
  by (auto simp: open_dynamic_socket_def try_call_def split: prod.splits sum.splits)

text \<open>A connection as \<open>add_connection\<close> makes it: ready to be acknowledged on.\<close>

definition fresh_dynamic :: "sockaddr \<Rightarrow> 't connection \<Rightarrow> bool" where
  "fresh_dynamic addr c \<longleftrightarrow> std_socket c \<noteq> None \<and> state c = Startup \<and> enabled c \<and>
    peer_addr c = addr \<and> get_interface_name c = ''DYN-interface''"

lemma connection_new_dynamic:
  assumes "sk_peer sk = Some addr" "sk_local sk = Some l"
  shows "if names_refused sk w then connection_new X sk None timeout w = Inl UnwrapErr
    else \<exists>c. connection_new X sk None timeout w =
        Inr (c, w\<lparr>w_trace := w_trace w @ [GetPeerName (sk_fd sk), GetSockName (sk_fd sk)]\<rparr>) \<and> fresh_dynamic addr c"
  using connection_new_cases [OF assms, of w X None timeout]
  by (auto simp: fresh_dynamic_def get_interface_name_def split: if_splits)

text \<open>
  Adding a connection.  A path already known only has its timeout restarted, with no system call.  For an
  unknown one the socket is opened: a call that is refused is reported and the endpoint is unchanged;
  otherwise the kernel is asked for the addresses, which panics if it refuses, and exactly one new entry, in
  state \<open>Startup\<close>, enabled and connected to the peer, is appended.
\<close>

definition naming_fails :: "sockaddr \<Rightarrow> sockaddr \<Rightarrow> world \<Rightarrow> bool" where
  "naming_fails local_addr addr w \<longleftrightarrow>
    (case open_dynamic_socket local_addr addr w of (Inl e, w') \<Rightarrow> False | (Inr sk, w') \<Rightarrow> names_refused sk w')"

definition open_fails :: "sockaddr \<Rightarrow> sockaddr \<Rightarrow> world \<Rightarrow> bool" where
  "open_fails local_addr addr w \<longleftrightarrow> isl (fst (open_dynamic_socket local_addr addr w))"

definition added :: "sockaddr \<Rightarrow> string \<Rightarrow> ('t, 'c) endpoint \<Rightarrow> unit io_result \<Rightarrow> ('t, 'c) endpoint \<Rightarrow> bool" where
  "added addr name ep r ep' = (case r of
       Inl e \<Rightarrow> ep' = ep
     | Inr _ \<Rightarrow> \<exists>c. fresh_dynamic addr c \<and> ep' = ep\<lparr>connections := connections ep @
          [\<lparr>interface_name = name, interface_address = addr, connection = c\<rparr>]\<rparr>)"

lemma naming_fails_refuses: "naming_fails l a w \<Longrightarrow> refuses w"
  by (auto simp: naming_fails_def refuses_extends split: prod.splits sum.splits
      dest!: names_refused_refuses dest: open_dynamic_socket_extends)

lemma add_connection_cases:
  "(\<exists>ce\<in>set (connections ep). is_entry addr name ce) \<and>
      add_connection X addr name local timeout ep w = Inr (Inr (), ep\<lparr>connections := update_first (is_entry addr name)
        (\<lambda>ce. ce\<lparr>connection := reset_hello_timeout X (w_now w) (connection ce)\<rparr>) (connections ep)\<rparr>, w) \<or>
   \<not> (\<exists>ce\<in>set (connections ep). is_entry addr name ce) \<and>
     (if naming_fails local addr w then add_connection X addr name local timeout ep w = Inl UnwrapErr
      else \<exists>r ep' w'. add_connection X addr name local timeout ep w = Inr (r, ep', w') \<and> extends w w' \<and> added addr name ep r ep' \<and>
        isl r = open_fails local addr w)"
proof (cases "\<exists>ce\<in>set (connections ep). is_entry addr name ce")
  case True
  then show ?thesis by (simp add: add_connection_def)
next
  case False
  obtain r w' where o: "open_dynamic_socket local addr w = (r, w')"
    by (cases "open_dynamic_socket local addr w")
  show ?thesis
  proof (cases r)
    case (Inl e)
    then show ?thesis using False o open_dynamic_socket_extends [OF o]
      by (simp add: add_connection_def naming_fails_def added_def open_fails_def)
  next
    case (Inr sk)
    with o have p: "sk_peer sk = Some addr" "sk_local sk = Some local"
      using open_dynamic_socket_peer by blast+
    have n: "naming_fails local addr w = names_refused sk w'" using o Inr by (simp add: naming_fails_def)
    have "extends w' (w'\<lparr>w_trace := w_trace w' @ cs\<rparr>)" for cs by (simp add: extends_def)
    then have e: "extends w (w'\<lparr>w_trace := w_trace w' @ cs\<rparr>)" for cs
      using open_dynamic_socket_extends [OF o] by (blast intro: extends_trans)
    show ?thesis
      using connection_new_dynamic [OF p, of w' X timeout] False o Inr n e
      by (cases "names_refused sk w'") (auto simp: add_connection_def added_def open_fails_def)
  qed
qed

text \<open>The same for an endpoint without connections, followed by an acknowledgement or two.\<close>

definition first_path :: "string \<Rightarrow> sockaddr \<Rightarrow> 't connection_entry \<Rightarrow> bool" where
  "first_path name addr ce \<longleftrightarrow> interface_name ce = name \<and> interface_address ce = addr \<and>
    peer_addr (connection ce) = addr \<and> enabled (connection ce) \<and> has_socket ce"

lemma ack_entry_first_path:
  assumes "first_path name addr ce"
  shows "\<exists>ce' w'. ack_entry bytes ce w = Inr (ce', w') \<and> extends w w' \<and> first_path name addr ce' \<and>
    entry_state ce' \<noteq> Startup"
proof (cases "live ce")
  case True
  then show ?thesis
    using assms ack_entry_live [of ce bytes w]
    by (auto simp: first_path_def ack_outcome_def set_state_def has_socket_def extends_def split: sum.split)
next
  case False
  then show ?thesis using assms by (simp add: ack_entry_dead) (simp add: live_def)
qed

section \<open>Enabling and disabling interfaces\<close>

text \<open>
  Disabling an interface disables every connection on it and leaves all others as they were;
  enabling it again enables exactly those.  Neither touches the state of a connection.
\<close>

lemma disable_then_enable_interface:
  "connections (enable_interface name (disable_interface name ep)) = connections (enable_interface name ep) \<and>
   connections (disable_interface name ep) =
     map (\<lambda>ce. if interface_name ce = name
       then ce\<lparr>connection := (connection ce)\<lparr>enabled := False\<rparr>\<rparr> else ce) (connections ep) \<and>
   map entry_state (connections (disable_interface name ep)) = map entry_state (connections ep)"
  by (auto simp: enable_interface_def disable_interface_def connection_enable_def connection_disable_def)

end
