(* ===== verification/Hash_Map.thy ===== *)
theory Hash_Map
  imports Prelude "HOL-Library.AList"
begin

text \<open>
  \<open>std::collections::HashMap\<close> as the program uses it: an association list with distinct keys.  The
  order of the list is the order an iteration visits the entries in; the program relies on no
  particular order, and the invariants below hold for any.  The locale \<open>key_map\<close> is the interface
  the connection manager relies on; its lemmas carry a property of all entries through updates and
  removals.  The interpretation \<open>hm\<close> discharges the laws for the list.
\<close>

locale key_map =
  fixes invar :: "'m \<Rightarrow> bool"
    and get :: "'m \<Rightarrow> 'k \<Rightarrow> 'v option"
    and put :: "'k \<Rightarrow> 'v \<Rightarrow> 'm \<Rightarrow> 'm"
    and remove :: "'k \<Rightarrow> 'm \<Rightarrow> 'm"
  assumes get_put: "get (put k v m) = (get m)(k \<mapsto> v)"
    and get_remove: "get (remove k m) = (get m)(k := None)"
    and invar_put: "invar m \<Longrightarrow> invar (put k v m)"
    and invar_remove: "invar m \<Longrightarrow> invar (remove k m)"
begin

definition every :: "('k \<Rightarrow> 'v \<Rightarrow> bool) \<Rightarrow> 'm \<Rightarrow> bool" where
  "every P m \<longleftrightarrow> (\<forall>k v. get m k = Some v \<longrightarrow> P k v)"

lemma every_put: "every P m \<Longrightarrow> P k v \<Longrightarrow> every P (put k v m)"
  by (simp add: every_def get_put)

lemma every_remove: "every P m \<Longrightarrow> every P (remove k m)"
  by (simp add: every_def get_remove)

lemma everyD: "every P m \<Longrightarrow> get m k = Some v \<Longrightarrow> P k v"
  by (simp add: every_def)

lemma every_mono: "every P m \<Longrightarrow> (\<And>k v. P k v \<Longrightarrow> Q k v) \<Longrightarrow> every Q m"
  by (auto simp: every_def)

lemma dom_put: "dom (get (put k v m)) = insert k (dom (get m))"
  by (simp add: get_put)

lemma dom_remove: "dom (get (remove k m)) = dom (get m) - {k}"
  by (auto simp: get_remove split: if_splits)

lemma invar_fold_remove: "invar m \<Longrightarrow> invar (fold remove ks m)"
  by (induction ks arbitrary: m) (simp_all add: invar_remove)

lemma get_fold_remove: "get (fold remove ks m) k = (if k \<in> set ks then None else get m k)"
  by (induction ks arbitrary: m) (auto simp: get_remove)

lemma dom_fold_remove: "dom (get (fold remove ks m)) = dom (get m) - set ks"
  by (auto simp: get_fold_remove split: if_splits)

end

type_synonym ('k, 'v) hash_map = "('k \<times> 'v) list"

definition hm_inv :: "('k, 'v) hash_map \<Rightarrow> bool" where
  "hm_inv m \<longleftrightarrow> distinct (map fst m)"

abbreviation hm_get :: "('k, 'v) hash_map \<Rightarrow> 'k \<Rightarrow> 'v option" where
  "hm_get \<equiv> map_of"

definition hm_insert :: "'k \<Rightarrow> 'v \<Rightarrow> ('k, 'v) hash_map \<Rightarrow> ('k, 'v) hash_map" where
  "hm_insert = AList.update"

definition hm_remove :: "'k \<Rightarrow> ('k, 'v) hash_map \<Rightarrow> ('k, 'v) hash_map" where
  "hm_remove k m = filter (\<lambda>e. fst e \<noteq> k) m"

definition hm_contains_key :: "'k \<Rightarrow> ('k, 'v) hash_map \<Rightarrow> bool" where
  "hm_contains_key k m = (map_of m k \<noteq> None)"

definition hm_all :: "('k \<Rightarrow> 'v \<Rightarrow> bool) \<Rightarrow> ('k, 'v) hash_map \<Rightarrow> bool" where
  "hm_all P m \<longleftrightarrow> (\<forall>k v. map_of m k = Some v \<longrightarrow> P k v)"

lemma map_of_hm_remove: "map_of (hm_remove k m) = (map_of m)(k := None)"
  by (induction m) (auto simp: hm_remove_def fun_eq_iff)

lemma hm_inv_remove: "hm_inv m \<Longrightarrow> hm_inv (hm_remove k m)"
  by (simp add: hm_inv_def hm_remove_def distinct_map_filter)

lemma hm_inv_insert: "hm_inv m \<Longrightarrow> hm_inv (hm_insert k v m)"
  by (simp add: hm_inv_def hm_insert_def distinct_update)

lemma hm_key_map: "key_map hm_inv hm_get hm_insert hm_remove"
  by unfold_locales
    (simp_all add: hm_insert_def update_conv' map_of_hm_remove hm_inv_remove hm_inv_insert [unfolded hm_insert_def])

interpretation hm: key_map hm_inv hm_get hm_insert hm_remove
  rewrites "key_map.every hm_get = hm_all"
  by (rule hm_key_map) (intro ext, simp add: key_map.every_def [OF hm_key_map] hm_all_def)

end
