(* ===== verification/Loggers.thy ===== *)
theory Loggers
  imports World
begin

text \<open>
  The two log files: \<open>crates/common/src/interface_logger.rs\<close> and \<open>packet_sorter_log.rs\<close>.  A logger is
  the descriptor of its file.  A line is built as the \<open>format!\<close> calls build it and handed to the buffered
  writer in one call; a call that fails panics.
\<close>

section \<open>Decimal numbers\<close>

fun digits :: "nat \<Rightarrow> char list" where
  "digits n = (if n < 10 then [char_of (48 + n)] else digits (n div 10) @ [char_of (48 + n mod 10)])"

declare digits.simps [simp del]

fun undigits :: "char list \<Rightarrow> nat \<Rightarrow> nat" where
  "undigits [] acc = acc"
| "undigits (c # cs) acc = undigits cs (10 * acc + (of_char c - 48))"

lemma undigits_append: "undigits (xs @ ys) acc = undigits ys (undigits xs acc)"
  by (induction xs acc rule: undigits.induct) simp_all

lemma of_char_digit: "d < 10 \<Longrightarrow> of_char (char_of (48 + d) :: char) = 48 + (d :: nat)"
  by simp

lemma undigits_digits: "undigits (digits n) 0 = n"
proof (induction n rule: digits.induct)
  case (1 n)
  show ?case
  proof (cases "n < 10")
    case True
    then show ?thesis by (simp add: digits.simps [of n] of_char_digit)
  next
    case False
    with 1 show ?thesis
      by (simp add: digits.simps [of n] undigits_append of_char_digit)
  qed
qed

lemma digits_no_comma: "CHR '','' \<notin> set (digits n)"
proof (induction n rule: digits.induct)
  case (1 n)
  have c: "char_of (48 + d) \<noteq> CHR '',''" if "d < 10" for d :: nat
  proof
    assume "char_of (48 + d) = CHR '',''"
    then have "of_char (char_of (48 + d) :: char) = (of_char (CHR '','') :: nat)" by simp
    then show False using that by (simp add: of_char_digit)
  qed
  show ?case
  proof (cases "n < 10")
    case True
    then show ?thesis using c [of n] by (simp add: digits.simps [of n])
  next
    case False
    with 1 c [of "n mod 10"] show ?thesis by (simp add: digits.simps [of n])
  qed
qed

section \<open>Log lines\<close>

definition interface_log_header :: string where
  "interface_log_header = ''timestamp,endpoint_id,packet_index,interface'' @ [CHR 0x0A]"

definition packet_sorter_log_header :: string where
  "packet_sorter_log_header = ''timestamp,packet_index'' @ [CHR 0x0A]"

text \<open>The timestamp is the time since the epoch, in microseconds; before the epoch there is none.\<close>

definition since_epoch :: "world \<Rightarrow> duration run" where
  "since_epoch w = (case duration_since (w_system_now w) UNIX_EPOCH of None \<Rightarrow> Inl UnwrapErr | Some d \<Rightarrow> Inr d)"

lemma since_epoch_eq:
  "since_epoch w = (if w_system_now w < 0 then Inl UnwrapErr else Inr (nat (w_system_now w)))"
  by (simp add: since_epoch_def duration_since_def UNIX_EPOCH_def)

definition interface_log_line :: "duration \<Rightarrow> endpoint_id \<Rightarrow> u64 \<Rightarrow> string \<Rightarrow> string" where
  "interface_log_line now endpoint_id packet_index interface =
    digits (now div 1000) @ '','' @ digits (unat endpoint_id) @ '','' @
    digits (unat packet_index) @ '','' @ interface @ [CHR 0x0A]"

definition packet_sorter_log_line :: "duration \<Rightarrow> u64 \<Rightarrow> string" where
  "packet_sorter_log_line now packet_index =
    digits (now div 1000) @ '','' @ digits (unat packet_index) @ [CHR 0x0A]"

section \<open>Operations\<close>

record interface_logger =
  il_log_file_writer :: fd

record packet_sorter_logger =
  psl_log_file_writer :: fd

definition interface_logger_new :: "string \<Rightarrow> world \<Rightarrow> (interface_logger \<times> world) run" where
  "interface_logger_new log_path w =
    bindR (must_call (FileCreate log_path) w) (\<lambda>(file, w).
    bindR (must_call (LogWrite file interface_log_header) w) (\<lambda>(_, w).
      Inr (\<lparr>il_log_file_writer = file\<rparr>, w)))"

definition packet_sorter_logger_new :: "string \<Rightarrow> world \<Rightarrow> (packet_sorter_logger \<times> world) run" where
  "packet_sorter_logger_new log_path w =
    bindR (must_call (FileCreate log_path) w) (\<lambda>(file, w).
    bindR (must_call (LogWrite file packet_sorter_log_header) w) (\<lambda>(_, w).
      Inr (\<lparr>psl_log_file_writer = file\<rparr>, w)))"

definition interface_logger_add_log_line ::
  "interface_logger \<Rightarrow> endpoint_id \<Rightarrow> u64 \<Rightarrow> string \<Rightarrow> world \<Rightarrow> world run" where
  "interface_logger_add_log_line l endpoint_id packet_index interface w =
    bindR (since_epoch w) (\<lambda>timestamp.
    bindR (must_call (LogWrite (il_log_file_writer l)
        (interface_log_line timestamp endpoint_id packet_index interface)) w) (\<lambda>(n, w). Inr w))"

definition interface_logger_flush :: "interface_logger \<Rightarrow> world \<Rightarrow> world run" where
  "interface_logger_flush l w = bindR (must_call (LogFlush (il_log_file_writer l)) w) (\<lambda>(n, w). Inr w)"

definition packet_sorter_logger_add_log_line :: "packet_sorter_logger \<Rightarrow> u64 \<Rightarrow> world \<Rightarrow> world run" where
  "packet_sorter_logger_add_log_line l packet_index w =
    bindR (since_epoch w) (\<lambda>timestamp.
    bindR (must_call (LogWrite (psl_log_file_writer l)
        (packet_sorter_log_line timestamp packet_index)) w) (\<lambda>(n, w). Inr w))"

definition packet_sorter_logger_flush :: "packet_sorter_logger \<Rightarrow> world \<Rightarrow> world run" where
  "packet_sorter_logger_flush l w = bindR (must_call (LogFlush (psl_log_file_writer l)) w) (\<lambda>(n, w). Inr w)"

section \<open>Lines determine what was logged\<close>

lemma split_at_comma:
  assumes "CHR '','' \<notin> set xs" "CHR '','' \<notin> set ys" "xs @ CHR '','' # r = ys @ CHR '','' # r'"
  shows "xs = ys \<and> r = r'"
  using assms(1,2,3)
proof (induction xs arbitrary: ys)
  case Nil
  then show ?case by (cases ys) auto
next
  case (Cons x xs)
  then show ?case by (cases ys) auto
qed

lemma digits_field:
  assumes "digits m @ CHR '','' # r = digits n @ CHR '','' # r'"
  shows "m = n \<and> r = r'"
  using split_at_comma [OF digits_no_comma digits_no_comma assms] undigits_digits by metis

text \<open>
  C39: A line of the interface log determines the microsecond, the endpoint, the packet number and
  the interface it was written for, whatever characters the interface's name contains.
\<close>

theorem interface_log_line_injective:
  "interface_log_line t e n i = interface_log_line t' e' n' i' \<longleftrightarrow>
    t div 1000 = t' div 1000 \<and> e = e' \<and> n = n' \<and> i = i'"
proof
  assume "interface_log_line t e n i = interface_log_line t' e' n' i'"
  then have *: "digits (t div 1000) @ CHR '','' # digits (unat e) @ CHR '','' # digits (unat n) @ CHR '','' # i @ [CHR 0x0A] =
    digits (t' div 1000) @ CHR '','' # digits (unat e') @ CHR '','' # digits (unat n') @ CHR '','' # i' @ [CHR 0x0A]"
    by (simp add: interface_log_line_def)
  from digits_field [OF *]
  have 1: "t div 1000 = t' div 1000" and **: "digits (unat e) @ CHR '','' # digits (unat n) @ CHR '','' # i @ [CHR 0x0A] =
    digits (unat e') @ CHR '','' # digits (unat n') @ CHR '','' # i' @ [CHR 0x0A]" by auto
  from digits_field [OF **]
  have 2: "unat e = unat e'" and ***: "digits (unat n) @ CHR '','' # i @ [CHR 0x0A] =
    digits (unat n') @ CHR '','' # i' @ [CHR 0x0A]" by auto
  from digits_field [OF ***]
  have "unat n = unat n'" "i = i'" by auto
  moreover have "e = e'" "n = n'"
    using 2 \<open>unat n = unat n'\<close> by (simp_all only: word_unat_eq_iff)
  ultimately show "t div 1000 = t' div 1000 \<and> e = e' \<and> n = n' \<and> i = i'" using 1 by simp
qed (simp add: interface_log_line_def)

end
