(* ===== verification/Connection_Manager.thy ===== *)
theory Connection_Manager
  imports Endpoint Hash_Map Loggers
begin

text \<open>
  The connection manager of \<open>crates/common/src/connection_manager.rs\<close>: the endpoints by their
  identifier, the routing table, and the handlers the two event loops call.

  A handler is a function of the manager and the \<open>world\<close>; the instants it reads are those of the
  world.  \<open>D\<close> says whether the \<open>debug!\<close> lines are evaluated (they compute the latency estimates, which
  can panic): \<open>None\<close> when the log level is above debug, else the floating-point operations.  A timeout
  is a number of milliseconds.
\<close>

section \<open>State\<close>

record ('t, 'c) connection_manager =
  endpoints :: "(endpoint_id, ('t, 'c) endpoint) hash_map"
  cm_local_address :: sockaddr
  own_id :: endpoint_id
  session_history :: "uuid list"
  routes :: router
  tun_address :: "ipv4 + 128 word"
  own_static_routes :: "route list option"
  cm_connection_timeout :: nat
  packet_sorter_deadline :: nat

definition connection_manager_new ::
  "sockaddr \<Rightarrow> endpoint_id \<Rightarrow> ipv4 + 128 word \<Rightarrow> route list option \<Rightarrow> nat \<Rightarrow> nat \<Rightarrow>
    ('t, 'c) connection_manager" where
  "connection_manager_new addr eid tun static_routes timeout sorter_deadline =
    \<lparr>endpoints = [], cm_local_address = addr, own_id = eid, session_history = [],
     routes = router_new, tun_address = tun, own_static_routes = static_routes,
     cm_connection_timeout = timeout, packet_sorter_deadline = sorter_deadline\<rparr>"

type_synonym ('t, 'c) step = "(('t, 'c) connection_manager \<times> world) run"

definition set_endpoint :: "endpoint_id \<Rightarrow> ('t, 'c) endpoint \<Rightarrow> ('t, 'c) connection_manager \<Rightarrow>
    ('t, 'c) connection_manager" where
  "set_endpoint eid ep cm = cm\<lparr>endpoints := hm_insert eid ep (endpoints cm)\<rparr>"

abbreviation get_endpoint :: "endpoint_id \<Rightarrow> ('t, 'c) connection_manager \<Rightarrow> ('t, 'c) endpoint option" where
  "get_endpoint eid cm \<equiv> hm_get (endpoints cm) eid"

text \<open>The loop over the routes a message carries.\<close>

definition learn_routes :: "route list option \<Rightarrow> endpoint_id \<Rightarrow> router \<Rightarrow> router" where
  "learn_routes static_routes eid rs =
    (case static_routes of
       None \<Rightarrow> rs
     | Some new_routes \<Rightarrow> fold (\<lambda>route. insert_route route eid) new_routes rs)"

section \<open>Hello messages\<close>

definition ensure_endpoint ::
  "('t, 'c) deps \<Rightarrow> instant \<Rightarrow> hello \<Rightarrow> ('t, 'c) connection_manager \<Rightarrow> ('t, 'c) connection_manager" where
  "ensure_endpoint X now h cm =
    (if \<not> hm_contains_key (hello_id h) (endpoints cm)
     then (set_endpoint (hello_id h)
         (endpoint_new X now (hello_id h) (hello_session_id h) (packet_sorter_deadline cm)) cm)
       \<lparr>session_history := session_history cm @ [hello_session_id h]\<rparr>
     else cm)"

text \<open>\<open>None\<close>: the session has been used before and the hello is refused.\<close>

definition admit_session ::
  "('t, 'c) deps \<Rightarrow> instant \<Rightarrow> hello \<Rightarrow> ('t, 'c) endpoint \<Rightarrow> ('t, 'c) connection_manager \<Rightarrow>
    (('t, 'c) endpoint \<times> uuid list) option" where
  "admit_session X now h ep cm =
    (if session_id ep \<noteq> hello_session_id h then
       if hello_session_id h \<in> set (session_history cm) then None
       else Some (endpoint_new X now (hello_id h) (hello_session_id h) (packet_sorter_deadline cm),
         session_history cm @ [hello_session_id h])
     else Some (ep, session_history cm))"

text \<open>\<open>add_connection\<close>, its acknowledgement when it succeeded, and the one sent in any case.\<close>

definition accept_path ::
  "('t, 'c) deps \<Rightarrow> sockaddr \<Rightarrow> string \<Rightarrow> ('t, 'c) connection_manager \<Rightarrow> ('t, 'c) endpoint \<Rightarrow> world \<Rightarrow>
    (('t, 'c) endpoint \<times> world) run" where
  "accept_path X source_addr name cm ep w =
    bindR (add_connection X source_addr name (cm_local_address cm) (cm_connection_timeout cm) ep w) (\<lambda>(r, ep, w).
    bindR (case r of
        Inr _ \<Rightarrow> acknowledge X (own_id cm) (session_id ep) (own_static_routes cm) ep w
      | Inl e \<Rightarrow> Inr (ep, w)) (\<lambda>(ep, w).
      acknowledge X (own_id cm) (session_id ep) (own_static_routes cm) ep w))"

definition handle_hello ::
  "('t, 'c) deps \<Rightarrow> u8 list \<Rightarrow> sockaddr \<Rightarrow> string \<Rightarrow> ('t, 'c) connection_manager \<Rightarrow> world \<Rightarrow> ('t, 'c) step" where
  "handle_hello X message source_addr name cm w =
    (case bincode_deserialize X message of
       Some (Hello decoded) \<Rightarrow>
         let cm = ensure_endpoint X (w_now w) decoded cm in
         (case get_endpoint (hello_id decoded) cm of
            Some ep \<Rightarrow>
              (case admit_session X (w_now w) decoded ep cm of
                 None \<Rightarrow> Inr (cm, w)
               | Some (ep, history) \<Rightarrow>
                   bindR (accept_path X source_addr name cm ep w) (\<lambda>(ep, w).
                     Inr ((set_endpoint (hello_id decoded) ep cm)
                       \<lparr>session_history := history,
                        routes := learn_routes (hello_static_routes decoded) (hello_id decoded) (routes cm)\<rparr>, w)))
          | None \<Rightarrow> Inr (cm, w))
     | _ \<Rightarrow> Inr (cm, w))"

section \<open>Messages on established connections\<close>

definition debug_latency :: "'f f64 option \<Rightarrow> ('t, 'c) endpoint \<Rightarrow> unit run" where
  "debug_latency D ep =
    (case D of
       None \<Rightarrow> Inr ()
     | Some F \<Rightarrow>
         bindR (estimate_path_delay_difference F (hello_path_latency ep)) (\<lambda>_.
         bindR (estimate_path_delay_difference F (hello_ack_path_latency ep)) (\<lambda>_. Inr ())))"

definition handle_packet ::
  "('t, 'c) deps \<Rightarrow> interface_logger option \<Rightarrow> endpoint_read_info \<Rightarrow> packet \<Rightarrow> ('t, 'c) connection_manager \<Rightarrow> world \<Rightarrow> ('t, 'c) step" where
  "handle_packet X logging info pkt cm w =
    (case get_endpoint (eri_endpoint_id info) cm of
       Some ep \<Rightarrow>
         bindR (case logging of
             Some l \<Rightarrow> interface_logger_add_log_line l (eri_endpoint_id info) (pkt_seq pkt)
                    (ri_interface_name (connection_read_info info)) w
           | None \<Rightarrow> Inr w) (\<lambda>w.
           Inr (set_endpoint (eri_endpoint_id info)
             (ep\<lparr>packet_sorter := insert_packet X (w_now w) pkt (packet_sorter ep)\<rparr>) cm, w))
     | None \<Rightarrow> Inr (cm, w))"

definition handle_repeated_hello ::
  "('t, 'c) deps \<Rightarrow> 'f f64 option \<Rightarrow> endpoint_read_info \<Rightarrow> hello \<Rightarrow> ('t, 'c) connection_manager \<Rightarrow> world \<Rightarrow>
    ('t, 'c) step" where
  "handle_repeated_hello X D info h cm w =
    (case get_endpoint (hello_id h) cm of
       Some ep \<Rightarrow>
         let ep = ep\<lparr>hello_path_latency :=
           insert_new_timestamp (w_system_now w) (hello_seq h) (hello_path_latency ep)\<rparr> in
         bindR (add_connection X (source_address (connection_read_info info))
             (ri_interface_name (connection_read_info info))
             (cm_local_address cm) (cm_connection_timeout cm) ep w) (\<lambda>(r, ep, w).
         bindR (unwrap_result r) (\<lambda>_.
         bindR (acknowledge X (own_id cm) (session_id ep) (own_static_routes cm) ep w) (\<lambda>(ep, w).
         bindR (debug_latency D ep) (\<lambda>_.
           Inr (set_endpoint (hello_id h) ep cm, w)))))
     | None \<Rightarrow> Inr (cm, w))"

text \<open>The body of the loop over the connections of an endpoint that acknowledged a hello.\<close>

definition confirm_entry ::
  "('t, 'c) deps \<Rightarrow> instant \<Rightarrow> read_info \<Rightarrow> 't connection_entry \<Rightarrow> 't connection_entry" where
  "confirm_entry X now info ce =
    (if interface_address ce = source_address info \<and> interface_name ce = ri_interface_name info then
       let ce = (if entry_state ce = Startup then set_state Connected ce else ce) in
       if entry_state ce = Connected
       then ce\<lparr>connection := reset_hello_timeout X now (connection ce)\<rparr>
       else ce
     else ce)"

definition handle_hello_ack ::
  "('t, 'c) deps \<Rightarrow> 'f f64 option \<Rightarrow> endpoint_read_info \<Rightarrow> hello_ack \<Rightarrow> ('t, 'c) connection_manager \<Rightarrow> world \<Rightarrow>
    ('t, 'c) step" where
  "handle_hello_ack X D info a cm w =
    (if hm_contains_key (ack_id a) (endpoints cm) then
       bindR (unwrap (get_endpoint (ack_id a) cm)) (\<lambda>ep.
         let ep = ep\<lparr>hello_ack_path_latency :=
           insert_new_timestamp (w_system_now w) (ack_seq a) (hello_ack_path_latency ep)\<rparr> in
         bindR (debug_latency D ep) (\<lambda>_.
           let cm = (set_endpoint (ack_id a) ep cm)
             \<lparr>routes := learn_routes (ack_static_routes a) (ack_id a) (routes cm)\<rparr> in
           bindR (unwrap (get_endpoint (ack_id a) cm)) (\<lambda>ep.
             Inr (set_endpoint (ack_id a) (ep\<lparr>connections :=
               map (confirm_entry X (w_now w) (connection_read_info info)) (connections ep)\<rparr>) cm, w))))
     else Inr (cm, w))"

definition handle_established_message ::
  "('t, 'c) deps \<Rightarrow> 'f f64 option \<Rightarrow> interface_logger option \<Rightarrow> endpoint_read_info \<Rightarrow> ('t, 'c) connection_manager \<Rightarrow> world \<Rightarrow>
    ('t, 'c) step" where
  "handle_established_message X D logging info cm w =
    (case bincode_deserialize X (packet_bytes (connection_read_info info)) of
       Some (Packet pkt) \<Rightarrow> handle_packet X logging info pkt cm w
     | Some (Hello h) \<Rightarrow> handle_repeated_hello X D info h cm w
     | Some (HelloAck a) \<Rightarrow> handle_hello_ack X D info a cm w
     | None \<Rightarrow> Inr (cm, w))"

section \<open>The tunnel device\<close>

definition handle_tunnel_message ::
  "packet \<Rightarrow> endpoint_id \<Rightarrow> ('t, 'c) connection_manager \<Rightarrow> world \<Rightarrow> ('t, 'c) step" where
  "handle_tunnel_message pkt eid cm w =
    (case sys (TunSend (pkt_bytes pkt)) w of
       (Inr n, w) \<Rightarrow> Inr (cm, w)
     | (Inl e, w) \<Rightarrow> Inl UnwrapErr)"

definition get_route :: "('t, 'c) deps \<Rightarrow> u8 list \<Rightarrow> ('t, 'c) connection_manager \<Rightarrow> endpoint_id list option" where
  "get_route X bytes cm =
    (case slice_from_ip X bytes of
       SliceError \<Rightarrow> None
     | SliceIpv4 destination \<Rightarrow> Some (router_lookup (routes cm) destination)
     | SliceIpv6 \<Rightarrow> None
     | SliceNoIp \<Rightarrow> None)"

definition tun_entry :: "u8 list \<Rightarrow> 't connection_entry \<Rightarrow> world \<Rightarrow> ('t connection_entry \<times> world) run" where
  "tun_entry serialized ce w =
    (if is_enabled (connection ce) then
       bindR (connection_write (connection ce) serialized w) (\<lambda>(r, w).
         case r of
           Inr _ \<Rightarrow> Inr (ce, w)
         | Inl e \<Rightarrow>
             if e = ConnectionRefused then Inr (set_state Disconnected ce, w) else Inr (ce, w))
     else Inr (ce, w))"

text \<open>One turn of the loop over the endpoints a packet is routed to.\<close>

definition tun_to_endpoint ::
  "('t, 'c) deps \<Rightarrow> u8 list \<Rightarrow> endpoint_id \<Rightarrow> ('t, 'c) connection_manager \<Rightarrow> world \<Rightarrow> ('t, 'c) step" where
  "tun_to_endpoint X bytes eid cm w =
    bindR (unwrap (get_endpoint eid cm)) (\<lambda>ep.
      let pkt = \<lparr>pkt_seq = tx_counter ep, pkt_id = ep_id ep, pkt_bytes = bytes\<rparr> in
      bindR (unwrap (bincode_serialize X (Packet pkt))) (\<lambda>serialized.
      bindR (for_each (tun_entry serialized) (connections ep) w) (\<lambda>(ces, w).
        Inr (set_endpoint eid (ep\<lparr>tx_counter := tx_counter ep + 1, connections := ces\<rparr>) cm, w))))"

fun tun_loop ::
  "('t, 'c) deps \<Rightarrow> u8 list \<Rightarrow> endpoint_id list \<Rightarrow> ('t, 'c) connection_manager \<Rightarrow> world \<Rightarrow> ('t, 'c) step" where
  "tun_loop X bytes [] cm w = Inr (cm, w)"
| "tun_loop X bytes (eid # eids) cm w =
    bindR (tun_to_endpoint X bytes eid cm w) (\<lambda>(cm, w). tun_loop X bytes eids cm w)"

definition handle_packet_from_tun ::
  "('t, 'c) deps \<Rightarrow> u8 list \<Rightarrow> ('t, 'c) connection_manager \<Rightarrow> world \<Rightarrow> ('t, 'c) step" where
  "handle_packet_from_tun X bytes cm w =
    (case get_route X bytes cm of
       Some eids \<Rightarrow> tun_loop X bytes eids cm w
     | None \<Rightarrow> Inr (cm, w))"

section \<open>New connections\<close>

text \<open>
  \<open>create_new_connection\<close> of the client.  A socket that cannot be opened or connected is an error
  before anything is changed; when the greeting cannot be sent, the endpoint made for it stays.
  (\<open>send\<close> here waits for the socket to be writable, so it does not answer \<open>WouldBlock\<close>.)
\<close>

definition create_new_connection ::
  "('t, 'c) deps \<Rightarrow> interfaces \<Rightarrow> string \<Rightarrow> sockaddr \<Rightarrow> sockaddr \<Rightarrow> endpoint_id \<Rightarrow>
    ('t, 'c) connection_manager \<Rightarrow> world \<Rightarrow> (unit io_result \<times> ('t, 'c) connection_manager \<times> world) run" where
  "create_new_connection X ifs name local_addr destination eid cm w =
    bindR (case local_addr of V4 ip _ \<Rightarrow> Inr ip | V6 _ _ \<Rightarrow> Inl Ipv6NotSupported) (\<lambda>own_ipv4.
    bindR (make_socket ifs name (Some own_ipv4) None True w) (\<lambda>(socket, w).
      case socket of
        Inl e \<Rightarrow> Inr (Inl e, cm, w)
      | Inr new_socket \<Rightarrow>
          (case sys (ConnectTo (sk_fd new_socket) destination) w of
             (Inl e, w) \<Rightarrow> Inr (Inl e, cm, w)
           | (Inr _, w) \<Rightarrow>
               let new_socket = new_socket\<lparr>sk_peer := Some destination\<rparr>;
                   (ep, cm, w) = (case get_endpoint eid cm of
                       Some ep \<Rightarrow> (ep, cm, w)
                     | None \<Rightarrow>
                         let (session, w) = fresh_uuid w;
                             ep = endpoint_new X (w_now w) eid session (packet_sorter_deadline cm)
                         in (ep, set_endpoint eid ep cm, w));
                   h = \<lparr>hello_id = own_id cm, hello_session_id = session_id ep,
                        hello_static_routes = own_static_routes cm, hello_seq = hello_counter ep\<rparr>;
                   ep = ep\<lparr>hello_counter := hello_counter ep + 1\<rparr>;
                   cm = set_endpoint eid ep cm
               in bindR (unwrap (bincode_serialize X (Hello h))) (\<lambda>encoded.
                  case sys (Send (sk_fd new_socket) encoded) w of
                    (Inl e, w) \<Rightarrow> Inr (Inl e, cm, w)
                  | (Inr _, w) \<Rightarrow>
                      bindR (connection_new X new_socket (Some name) (cm_connection_timeout cm) w) (\<lambda>(c, w).
                        let entry = \<lparr>interface_name = name, interface_address = destination,
                                     connection = c\<lparr>state := Startup\<rparr>\<rparr>
                        in Inr (Inr (), set_endpoint eid (ep\<lparr>connections := connections ep @ [entry]\<rparr>) cm, w))))))"

record connection_info =
  ci_interface_name :: string
  ci_local_address :: sockaddr
  ci_destination_address :: sockaddr
  ci_destination_endpoint_id :: endpoint_id

fun reopen_loop ::
  "('t, 'c) deps \<Rightarrow> interfaces \<Rightarrow> (string \<times> sockaddr) list \<Rightarrow> connection_info list \<Rightarrow>
    ('t, 'c) connection_manager \<Rightarrow> world \<Rightarrow> ('t, 'c) step" where
  "reopen_loop X ifs alive [] cm w = Inr (cm, w)"
| "reopen_loop X ifs alive (info # infos) cm w =
    bindR (if (ci_interface_name info, ci_destination_address info) \<notin> set alive
      then bindR (create_new_connection X ifs (ci_interface_name info) (ci_local_address info)
             (ci_destination_address info) (ci_destination_endpoint_id info) cm w)
             (\<lambda>(r, cm, w). Inr (cm, w))
      else Inr (cm, w)) (\<lambda>(cm, w). reopen_loop X ifs alive infos cm w)"

definition ensure_endpoint_connections ::
  "('t, 'c) deps \<Rightarrow> interfaces \<Rightarrow> endpoint_id \<Rightarrow> connection_info list \<Rightarrow>
    ('t, 'c) connection_manager \<Rightarrow> world \<Rightarrow> ('t, 'c) step" where
  "ensure_endpoint_connections X ifs eid infos cm w =
    (case get_endpoint eid cm of
       Some ep \<Rightarrow> reopen_loop X ifs (get_alive_connections ep) infos cm w
     | None \<Rightarrow> Inr (cm, w))"

section \<open>Keepalives\<close>

definition greet_entry :: "u8 list \<Rightarrow> 't connection_entry \<Rightarrow> world \<Rightarrow> ('t connection_entry \<times> world) run" where
  "greet_entry encoded ce w =
    (if entry_state ce = Connected \<or> entry_state ce = Startup then
       bindR (connection_write (connection ce) encoded w) (\<lambda>(r, w).
         case r of
           Inr _ \<Rightarrow> Inr (ce, w)
         | Inl e \<Rightarrow>
             if e = NetworkUnreachable then Inr (set_state Disconnected ce, w) else Inr (ce, w))
     else Inr (ce, w))"

definition greet_endpoint ::
  "('t, 'c) deps \<Rightarrow> ('t, 'c) connection_manager \<Rightarrow> endpoint_id \<times> ('t, 'c) endpoint \<Rightarrow> world \<Rightarrow>
    ((endpoint_id \<times> ('t, 'c) endpoint) \<times> world) run" where
  "greet_endpoint X cm e w =
    (let (eid, ep) = e;
         h = \<lparr>hello_id = own_id cm, hello_session_id = session_id ep,
              hello_static_routes = own_static_routes cm, hello_seq = hello_counter ep\<rparr>;
         ep = ep\<lparr>hello_counter := hello_counter ep + 1\<rparr>
     in bindR (unwrap (bincode_serialize X (Hello h))) (\<lambda>encoded.
        bindR (for_each (greet_entry encoded) (connections ep) w) (\<lambda>(ces, w).
          Inr ((eid, ep\<lparr>connections := ces\<rparr>), w))))"

definition greet_all_endpoints ::
  "('t, 'c) deps \<Rightarrow> ('t, 'c) connection_manager \<Rightarrow> world \<Rightarrow> ('t, 'c) step" where
  "greet_all_endpoints X cm w =
    bindR (for_each (greet_endpoint X cm) (endpoints cm) w) (\<lambda>(eps, w).
      Inr (cm\<lparr>endpoints := eps\<rparr>, w))"

section \<open>Removing connections\<close>

text \<open>The endpoints found to have no connection left, and the routes through them, go.\<close>

fun drop_endpoints :: "endpoint_id list \<Rightarrow> ('t, 'c) connection_manager \<Rightarrow> ('t, 'c) connection_manager run" where
  "drop_endpoints [] cm = Inr cm"
| "drop_endpoints (eid # eids) cm =
    bindR (unwrap (get_endpoint eid cm)) (\<lambda>_.
      drop_endpoints eids (cm\<lparr>endpoints := hm_remove eid (endpoints cm),
        routes := remove_route_to_endpoint eid (routes cm)\<rparr>))"

definition remove_connection ::
  "endpoint_id \<Rightarrow> string \<Rightarrow> sockaddr \<Rightarrow> ('t, 'c) connection_manager \<Rightarrow> ('t, 'c) connection_manager run" where
  "remove_connection eid name addr cm =
    (let cm = (case get_endpoint eid cm of
           Some ep \<Rightarrow>
             (case position (is_entry addr name) (connections ep) of
                Some index \<Rightarrow> set_endpoint eid (ep\<lparr>connections := remove_at index (connections ep)\<rparr>) cm
              | None \<Rightarrow> cm)
         | None \<Rightarrow> cm);
         to_be_removed = map fst (filter (\<lambda>(eid, ep). \<not> has_connections ep) (endpoints cm))
     in drop_endpoints to_be_removed cm)"

definition disconnected_paths ::
  "('t, 'c) connection_manager \<Rightarrow> (endpoint_id \<times> string \<times> sockaddr) list" where
  "disconnected_paths cm = concat (map (\<lambda>(eid, ep).
     map (\<lambda>ce. (eid, interface_name ce, interface_address ce))
       (filter (\<lambda>ce. entry_state ce = Disconnected) (connections ep))) (endpoints cm))"

fun remove_paths ::
  "(endpoint_id \<times> string \<times> sockaddr) list \<Rightarrow> ('t, 'c) connection_manager \<Rightarrow> ('t, 'c) connection_manager run" where
  "remove_paths [] cm = Inr cm"
| "remove_paths ((eid, name, addr) # paths) cm =
    bindR (remove_connection eid name addr cm) (remove_paths paths)"

definition remove_disconnected :: "('t, 'c) connection_manager \<Rightarrow> ('t, 'c) connection_manager run" where
  "remove_disconnected cm = remove_paths (disconnected_paths cm) cm"

section \<open>Waiting\<close>

definition has_endpoints :: "('t, 'c) connection_manager \<Rightarrow> bool" where
  "has_endpoints cm \<longleftrightarrow> length (endpoints cm) \<noteq> 0"

text \<open>
  The four \<open>await\<close> functions build one future for every endpoint with connections and wait for the
  first to resolve: the scheduler's choice is \<open>i\<close>, and \<open>j\<close> inside the endpoint chosen.
\<close>

definition candidates :: "('t, 'c) connection_manager \<Rightarrow> (endpoint_id \<times> ('t, 'c) endpoint) list" where
  "candidates cm = filter (\<lambda>(eid, ep). has_connections ep) (endpoints cm)"

definition select_endpoint ::
  "('t, 'c) deps \<Rightarrow> nat \<Rightarrow> ('t, 'c) connection_manager \<Rightarrow> (endpoint_id \<times> ('t, 'c) endpoint) run" where
  "select_endpoint X i cm = bindR (select_all X i (length (candidates cm))) (\<lambda>n. Inr (candidates cm ! n))"

definition await_incoming ::
  "('t, 'c) deps \<Rightarrow> nat \<Rightarrow> nat \<Rightarrow> u8 list io_result \<Rightarrow> ('t, 'c) connection_manager \<Rightarrow> endpoint_read_info io_result run" where
  "await_incoming X i j received cm =
    bindR (select_endpoint X i cm) (\<lambda>(eid, ep). await_connections X j received ep)"

definition await_timeout ::
  "('t, 'c) deps \<Rightarrow> instant \<Rightarrow> nat \<Rightarrow> nat \<Rightarrow> ('t, 'c) connection_manager \<Rightarrow>
    ((endpoint_id \<times> string \<times> sockaddr) \<times> ('t, 'c) connection_manager) option run" where
  "await_timeout X now i j cm =
    bindR (select_endpoint X i cm) (\<lambda>(eid, ep).
    bindR (await_connection_timeouts X now j ep) (\<lambda>r.
      Inr (map_option (\<lambda>(path, ep). (path, set_endpoint eid ep cm)) r)))"

definition await_endpoint_sorted_packets ::
  "('t, 'c) deps \<Rightarrow> nat \<Rightarrow> ('t, 'c) connection_manager \<Rightarrow>
    ((endpoint_id \<times> packet option) \<times> ('t, 'c) connection_manager) option run" where
  "await_endpoint_sorted_packets X i cm =
    bindR (select_endpoint X i cm) (\<lambda>(eid, ep).
      Inr (map_option (\<lambda>(r, ep). (r, set_endpoint eid ep cm)) (await_sorted_packet X ep)))"

definition await_packet_sorters ::
  "('t, 'c) deps \<Rightarrow> instant \<Rightarrow> nat \<Rightarrow> ('t, 'c) connection_manager \<Rightarrow>
    (endpoint_id \<times> ('t, 'c) connection_manager) option run" where
  "await_packet_sorters X now i cm =
    bindR (select_endpoint X i cm) (\<lambda>(eid, ep).
      Inr (map_option (\<lambda>(r, ep). (r, set_endpoint eid ep cm)) (await_packet_sorter_deadline X now ep)))"

definition handle_packet_sorter_deadline ::
  "('t, 'c) deps \<Rightarrow> instant \<Rightarrow> endpoint_id \<Rightarrow> ('t, 'c) connection_manager \<Rightarrow> ('t, 'c) connection_manager" where
  "handle_packet_sorter_deadline X now eid cm =
    (case get_endpoint eid cm of
       Some ep \<Rightarrow> set_endpoint eid (ep\<lparr>packet_sorter := advance_queue X now (packet_sorter ep)\<rparr>) cm
     | None \<Rightarrow> cm)"

section \<open>Selective duplication\<close>

definition handle_selective_duplication_command ::
  "('t, 'c) deps \<Rightarrow> u8 list \<Rightarrow> ('t, 'c) connection_manager \<Rightarrow> ('t, 'c) connection_manager" where
  "handle_selective_duplication_command X bytes cm =
    (case json_from_slice X bytes of
       Some (InterfaceState st) \<Rightarrow>
         cm\<lparr>endpoints := map (\<lambda>(eid, ep). (eid,
           if ist_enabled st then enable_interface (ist_interface_name st) ep
           else disable_interface (ist_interface_name st) ep)) (endpoints cm)\<rparr>
     | None \<Rightarrow> cm)"

end
