(* ===== verification/Manager_Invariant.thy ===== *)
theory Manager_Invariant
  imports Connection_Manager Sorter_Delivery
begin

text \<open>
  The well-formedness of the connection manager and its preservation by every handler.  The lemmas
  \<open>..._outcome\<close> say for each operation which panics it can end in and what holds when it returns;
  the properties of the event loops rest on them.
\<close>

section \<open>Well-formed managers\<close>

text \<open>
  An endpoint is filed under its own identifier, each of its connections has its socket, and its sorter
  and its estimators satisfy their invariants.
\<close>

definition endpoint_ok :: "endpoint_id \<Rightarrow> ('t, 'c) endpoint \<Rightarrow> bool" where
  "endpoint_ok k ep \<longleftrightarrow> ep_id ep = k \<and> (\<forall>ce\<in>set (connections ep). has_socket ce) \<and>
    sorter_inv (packet_sorter ep) \<and>
    latency_inv (hello_path_latency ep) \<and> latency_inv (hello_ack_path_latency ep)"

text \<open>A route leads to an endpoint that exists: what the \<open>unwrap\<close> of the tunnel handler relies on.\<close>

definition cm_inv :: "('t, 'c) connection_manager \<Rightarrow> bool" where
  "cm_inv cm \<longleftrightarrow> hm_inv (endpoints cm) \<and> hm_all endpoint_ok (endpoints cm) \<and>
    route_targets (routes cm) \<subseteq> dom (hm_get (endpoints cm)) \<and> router_inv (routes cm)"

definition serializes :: "('t, 'c) deps \<Rightarrow> bool" where
  "serializes X \<longleftrightarrow> (\<forall>m. bincode_serialize X m \<noteq> None)"

lemma serializesD:
  assumes "serializes X"
  obtains bytes where "bincode_serialize X m = Some bytes"
  using assms unfolding serializes_def by blast

lemma cm_inv_get: "cm_inv cm \<Longrightarrow> get_endpoint k cm = Some ep \<Longrightarrow> endpoint_ok k ep"
  unfolding cm_inv_def by (blast dest: hm.everyD)

lemma get_set_endpoint [simp]:
  "get_endpoint k (set_endpoint j ep cm) = (if k = j then Some ep else get_endpoint k cm)"
  by (simp add: set_endpoint_def hm.get_put)

lemma set_endpoint_sel [simp, frame_simps]:
  "routes (set_endpoint k ep cm) = routes cm"
  "session_history (set_endpoint k ep cm) = session_history cm"
  "own_id (set_endpoint k ep cm) = own_id cm"
  "own_static_routes (set_endpoint k ep cm) = own_static_routes cm"
  "cm_local_address (set_endpoint k ep cm) = cm_local_address cm"
  "cm_connection_timeout (set_endpoint k ep cm) = cm_connection_timeout cm"
  "packet_sorter_deadline (set_endpoint k ep cm) = packet_sorter_deadline cm"
  by (simp_all add: set_endpoint_def)

lemma cm_inv_set: "cm_inv cm \<Longrightarrow> endpoint_ok k ep \<Longrightarrow> cm_inv (set_endpoint k ep cm)"
  unfolding cm_inv_def
  by (auto simp: set_endpoint_def hm.invar_put hm.every_put hm.dom_put)

lemma cm_inv_history [simp]: "cm_inv (cm\<lparr>session_history := h\<rparr>) = cm_inv cm"
  by (simp add: cm_inv_def)

lemma router_inv_fold: "router_inv rs \<Longrightarrow> router_inv (fold (\<lambda>r. insert_route r e) new rs)"
  by (induction new arbitrary: rs) (simp_all add: router_inv_def distinct_insert_route defaults_last_insert_route)

lemma learn_routes_props:
  "router_inv rs \<Longrightarrow> router_inv (learn_routes new e rs)"
  "route_targets (learn_routes new e rs) \<subseteq> insert e (route_targets rs)"
  by (auto simp: learn_routes_def router_inv_fold rt.targets_fold_ins split: option.split if_splits)

lemma cm_inv_learn:
  "cm_inv cm \<Longrightarrow> get_endpoint e cm \<noteq> None \<Longrightarrow> cm_inv (cm\<lparr>routes := learn_routes new e (routes cm)\<rparr>)"
  using learn_routes_props [where rs = "routes cm" and new = new and e = e] by (auto simp: cm_inv_def)

lemma endpoint_ok_new: "endpoint_ok k (endpoint_new X now k s d)"
  by (simp add: endpoint_ok_def endpoint_new_def sorter_inv_new latency_inv_new)

lemma cm_inv_new: "cm_inv (connection_manager_new a e t r c d)"
  by (simp add: cm_inv_def connection_manager_new_def hm_inv_def hm_all_def router_inv_new
      rt.targets_empty)

section \<open>What loops over connections keep\<close>

definition path_kept :: "'t connection_entry \<Rightarrow> 't connection_entry \<Rightarrow> bool" where
  "path_kept ce ce' \<longleftrightarrow> same_path ce ce' \<and>
    (entry_state ce = Disconnected \<longrightarrow> entry_state ce' = Disconnected)"

lemma path_kept_refl [simp]: "path_kept ce ce"
  by (simp add: path_kept_def)

lemma path_kept_trans: "path_kept a b \<Longrightarrow> path_kept b c \<Longrightarrow> path_kept a c"
  by (auto simp: path_kept_def same_path_def)

lemma path_kept_set_state [simp]:
  "path_kept ce (set_state st ce) \<longleftrightarrow> entry_state ce \<noteq> Disconnected \<or> st = Disconnected"
  by (auto simp: path_kept_def)

text \<open>A loop body that writes to one connection: it returns, and keeps the path.\<close>

definition writer :: "('t connection_entry \<Rightarrow> world \<Rightarrow> ('t connection_entry \<times> world) run) \<Rightarrow> bool" where
  "writer f \<longleftrightarrow> (\<forall>ce w. has_socket ce \<longrightarrow>
     outcome (\<lambda>p. False) (\<lambda>(ce', w'). path_kept ce ce' \<and> extends w w') (f ce w))"

lemma write_outcome:
  "has_socket ce \<Longrightarrow> outcome (\<lambda>p. False) (\<lambda>(r, w'). extends w w') (connection_write (connection ce) bytes w)"
  by (simp add: has_socket_def connection_write_eq extends_def)

lemma writers:
  "writer (ack_entry bytes)" "writer (tun_entry bytes)" "writer (greet_entry bytes)"
proof -
  have *: "outcome (\<lambda>p. False) (\<lambda>(ce', w'). path_kept ce ce' \<and> extends w w')
      (bindR (connection_write (connection ce) bytes w) g)"
    if "has_socket ce" and "\<And>r w'. extends w w' \<Longrightarrow>
        outcome (\<lambda>p. False) (\<lambda>(ce', w'). path_kept ce ce' \<and> extends w w') (g (r, w'))"
    for ce w g
    unfolding outcome_bind
    by (rule outcome_mono [OF write_outcome [OF that(1)]]) (auto intro: that(2))
  show "writer (ack_entry bytes)" "writer (tun_entry bytes)" "writer (greet_entry bytes)"
    by (auto simp del: outcome_bind simp: writer_def ack_entry_def tun_entry_def greet_entry_def
        split: sum.split intro!: *)
qed

lemma for_each_outcome:
  assumes "\<And>e w. K e \<Longrightarrow> outcome Q (\<lambda>(e', w'). R e e' \<and> extends w w') (f e w)"
  shows "\<forall>e\<in>set es. K e \<Longrightarrow>
    outcome Q (\<lambda>(es', w'). list_all2 R es es' \<and> extends w w') (for_each f es w)"
proof (induction es arbitrary: w)
  case (Cons e es)
  have "outcome Q (\<lambda>(es', w''). list_all2 R (e # es) es' \<and> extends w w'')
      (bindR (for_each f es w') (\<lambda>(ces', w). Inr (e' # ces', w)))"
    if "R e e'" "extends w w'" for e' w'
    unfolding outcome_bind using Cons.prems that
    by (intro outcome_mono [OF Cons.IH]) (auto intro: extends_trans)
  then show ?case using Cons.prems
    by (simp del: outcome_bind) (subst outcome_bind, rule outcome_mono [OF assms], auto simp del: outcome_bind)
qed simp

lemmas writer_loop = for_each_outcome [where K = has_socket and R = path_kept and Q = "\<lambda>p. False"]

lemma for_each_writer:
  "writer f \<Longrightarrow> \<forall>ce\<in>set ces. has_socket ce \<Longrightarrow>
    outcome (\<lambda>p. False) (\<lambda>(ces', w'). list_all2 path_kept ces ces' \<and> extends w w') (for_each f ces w)"
  by (rule writer_loop) (auto simp: writer_def)

text \<open>An endpoint after an operation that writes to its connections.\<close>

definition ep_after :: "('t, 'c) endpoint \<Rightarrow> ('t, 'c) endpoint \<Rightarrow> bool" where
  "ep_after ep ep' \<longleftrightarrow> ep_id ep' = ep_id ep \<and> session_id ep' = session_id ep \<and>
    packet_sorter ep' = packet_sorter ep \<and> hello_path_latency ep' = hello_path_latency ep \<and>
    hello_ack_path_latency ep' = hello_ack_path_latency ep \<and>
    list_all2 path_kept (connections ep) (connections ep')"

lemma path_kept_sockets:
  "list_all2 path_kept ces ces' \<Longrightarrow> \<forall>ce\<in>set ces. has_socket ce \<Longrightarrow> \<forall>ce\<in>set ces'. has_socket ce"
  by (induction rule: list_all2_induct) (auto simp: path_kept_def same_path_has_socket)

lemma ep_after_ok: "ep_after ep ep' \<Longrightarrow> endpoint_ok k ep \<Longrightarrow> endpoint_ok k ep'"
  by (auto simp: ep_after_def endpoint_ok_def dest: path_kept_sockets)

lemma ep_after_has_connections: "ep_after ep ep' \<Longrightarrow> has_connections ep' = has_connections ep"
  by (auto simp: ep_after_def has_connections_def dest: list_all2_lengthD)

lemma acknowledge_outcome:
  assumes "serializes X" "endpoint_ok k ep"
  shows "outcome (\<lambda>p. False) (\<lambda>(ep', w'). ep_after ep ep' \<and> extends w w') (acknowledge X own sid rs ep w)"
proof -
  obtain bytes where b: "bincode_serialize X (HelloAck \<lparr>ack_id = own, ack_session_id = sid,
      ack_static_routes = rs, ack_seq = hello_ack_counter ep\<rparr>) = Some bytes"
    using serializesD [OF assms(1)] by blast
  show ?thesis
    using assms(2) b
    by (auto simp: acknowledge_def endpoint_ok_def ep_after_def
        intro!: outcome_mono [OF for_each_writer [OF writers(1)]])
qed

section \<open>Hellos\<close>

lemma reset_has_socket [simp]:
  "has_socket (ce\<lparr>connection := reset_hello_timeout X now (connection ce)\<rparr>) = has_socket ce"
  by (simp add: has_socket_def reset_hello_timeout_def)

lemma fresh_dynamic_has_socket:
  "fresh_dynamic addr c \<Longrightarrow> has_socket \<lparr>interface_name = n, interface_address = a, connection = c\<rparr>"
  by (simp add: fresh_dynamic_def has_socket_def)

lemma update_first_sockets:
  "\<forall>ce\<in>set ces. has_socket ce \<Longrightarrow> ce \<in> set (update_first p
     (\<lambda>ce. ce\<lparr>connection := reset_hello_timeout X now (connection ce)\<rparr>) ces) \<Longrightarrow> has_socket ce"
  using set_update_first_subset [of p "\<lambda>ce. ce\<lparr>connection := reset_hello_timeout X now (connection ce)\<rparr>" ces]
  by auto

text \<open>
  \<open>grown ep ep'\<close>: the endpoint is the same up to its connections, and has one if it had one before.
\<close>

definition grown :: "('t, 'c) endpoint \<Rightarrow> ('t, 'c) endpoint \<Rightarrow> bool" where
  "grown ep ep' \<longleftrightarrow> session_id ep' = session_id ep \<and> (has_connections ep \<longrightarrow> has_connections ep') \<and>
    (\<forall>k. endpoint_ok k ep \<longrightarrow> endpoint_ok k ep')"

lemma grown_refl [simp]: "grown ep ep"
  by (simp add: grown_def)

lemma grown_trans: "grown a b \<Longrightarrow> grown b c \<Longrightarrow> grown a c"
  by (simp add: grown_def)

lemma ep_after_grown: "ep_after ep ep' \<Longrightarrow> grown ep ep'"
  by (auto simp: grown_def ep_after_has_connections intro: ep_after_ok) (simp add: ep_after_def)

lemma add_connection_grown:
  "outcome (\<lambda>p. p = UnwrapErr \<and> refuses w) (\<lambda>(r, ep', w'). extends w w' \<and> grown ep ep' \<and>
     (\<forall>e. r = Inl e \<longrightarrow> ep' = ep) \<and> (r = Inr () \<longrightarrow> has_connections ep'))
   (add_connection X addr name local timeout ep w)"
proof (cases "\<exists>ce\<in>set (connections ep). is_entry addr name ce")
  case True
  let ?ep = "ep\<lparr>connections := update_first (is_entry addr name)
        (\<lambda>ce. ce\<lparr>connection := reset_hello_timeout X (w_now w) (connection ce)\<rparr>) (connections ep)\<rparr>"
  have "has_connections ?ep" using True by (auto simp: has_connections_def)
  then have "grown ep ?ep" by (auto simp: grown_def endpoint_ok_def dest: update_first_sockets)
  then show ?thesis
    using add_connection_cases [of ep addr name X local timeout w] True \<open>has_connections ?ep\<close> by simp
next
  case False
  show ?thesis
  proof (cases "naming_fails local addr w")
    case True
    then show ?thesis
      using add_connection_cases [of ep addr name X local timeout w] False naming_fails_refuses by simp
  next
    case nf: False
    obtain r ep' w' where a: "add_connection X addr name local timeout ep w = Inr (r, ep', w')" "extends w w'"
      "added addr name ep r ep'"
      using add_connection_cases [of ep addr name X local timeout w] False nf by auto
    then show ?thesis
      by (cases r) (auto simp: added_def grown_def endpoint_ok_def has_connections_def fresh_dynamic_has_socket)
  qed
qed

lemma accept_path_outcome:
  assumes "serializes X" "endpoint_ok k ep"
  shows "outcome (\<lambda>p. p = UnwrapErr \<and> refuses w) (\<lambda>(ep', w'). extends w w' \<and> grown ep ep' \<and> endpoint_ok k ep')
    (accept_path X addr name cm ep w)"
proof -
  have step: "outcome (\<lambda>p. p = UnwrapErr \<and> refuses w) (\<lambda>(ep', w'). extends w w' \<and> grown ep ep' \<and> endpoint_ok k ep')
      (acknowledge X own sid rs ep1 w1)"
    if "extends w w1" "grown ep ep1" "endpoint_ok k ep1" for own sid rs ep1 w1
    using that
    by (intro outcome_mono [OF acknowledge_outcome [OF assms(1) that(3)]])
      (auto intro: extends_trans grown_trans dest: ep_after_grown ep_after_ok)
  have both: "outcome (\<lambda>p. p = UnwrapErr \<and> refuses w) (\<lambda>(ep', w'). extends w w' \<and> grown ep ep' \<and> endpoint_ok k ep')
      (bindR (case r of Inr _ \<Rightarrow> acknowledge X (own_id cm) (session_id ep1) (own_static_routes cm) ep1 w1
           | Inl e \<Rightarrow> Inr (ep1, w1))
         (\<lambda>(ep, w). acknowledge X (own_id cm) (session_id ep) (own_static_routes cm) ep w))"
    if 1: "extends w w1" "grown ep ep1" for r :: "unit io_result" and ep1 w1
  proof -
    have ok: "endpoint_ok k ep1" using assms(2) 1(2) by (simp add: grown_def)
    show ?thesis
    proof (cases r)
      case (Inl e)
      then show ?thesis using step [OF 1 ok] by simp
    next
      case (Inr u)
      then show ?thesis
        by (simp, intro outcome_mono [OF step [OF 1 ok]]) (auto intro: step)
    qed
  qed
  show ?thesis
    unfolding accept_path_def
    by (subst outcome_bind, rule outcome_mono [OF add_connection_grown])
      (auto simp del: outcome_bind intro!: both)
qed

lemma ensure_endpoint_sel [simp]:
  "routes (ensure_endpoint X now h cm) = routes cm"
  "own_id (ensure_endpoint X now h cm) = own_id cm"
  "own_static_routes (ensure_endpoint X now h cm) = own_static_routes cm"
  "cm_local_address (ensure_endpoint X now h cm) = cm_local_address cm"
  "cm_connection_timeout (ensure_endpoint X now h cm) = cm_connection_timeout cm"
  "packet_sorter_deadline (ensure_endpoint X now h cm) = packet_sorter_deadline cm"
  by (simp_all add: ensure_endpoint_def)

lemma ensure_endpoint_inv: "cm_inv cm \<Longrightarrow> cm_inv (ensure_endpoint X now h cm)"
  by (simp add: ensure_endpoint_def cm_inv_set endpoint_ok_new)

lemma ensure_endpoint_present: "get_endpoint (hello_id h) (ensure_endpoint X now h cm) \<noteq> None"
  by (simp add: ensure_endpoint_def hm_contains_key_def set_endpoint_def hm.get_put)

lemma admit_session_ok:
  "admit_session X now h ep cm = Some (ep', hist) \<Longrightarrow> endpoint_ok (hello_id h) ep \<Longrightarrow>
    endpoint_ok (hello_id h) ep' \<and> session_id ep' = hello_session_id h"
  by (auto simp: admit_session_def endpoint_ok_new split: if_splits) (simp add: endpoint_new_def)

lemma handle_hello_outcome:
  assumes "serializes X" "cm_inv cm"
  shows "outcome (\<lambda>p. p = UnwrapErr \<and> refuses w) (\<lambda>(cm', w'). cm_inv cm' \<and> extends w w')
    (handle_hello X message addr name cm w)"
proof (cases "bincode_deserialize X message")
  case (Some m)
  show ?thesis
  proof (cases m)
    case (Hello h)
    let ?cm = "ensure_endpoint X (w_now w) h cm"
    have inv: "cm_inv ?cm" by (rule ensure_endpoint_inv [OF assms(2)])
    obtain ep where ep: "get_endpoint (hello_id h) ?cm = Some ep"
      using ensure_endpoint_present by blast
    have ok: "endpoint_ok (hello_id h) ep" by (rule cm_inv_get [OF inv ep])
    show ?thesis
    proof (cases "admit_session X (w_now w) h ep ?cm")
      case None
      then show ?thesis using Some Hello ep inv by (simp add: handle_hello_def Let_def)
    next
      case (Some r)
      then obtain ep1 hist where r: "admit_session X (w_now w) h ep ?cm = Some (ep1, hist)"
        by (cases r) auto
      have ok1: "endpoint_ok (hello_id h) ep1" using admit_session_ok [OF r ok] by simp
      have "cm_inv ((set_endpoint (hello_id h) ep2 ?cm)\<lparr>session_history := hist,
          routes := learn_routes (hello_static_routes h) (hello_id h) (routes cm)\<rparr>)"
        if "endpoint_ok (hello_id h) ep2" for ep2
        using cm_inv_learn [OF cm_inv_set [OF inv that], of "hello_id h" "hello_static_routes h"]
        by (simp add: cm_inv_def)
      then have "outcome (\<lambda>p. p = UnwrapErr \<and> refuses w) (\<lambda>(cm', w'). cm_inv cm' \<and> extends w w')
         (bindR (accept_path X addr name ?cm ep1 w) (\<lambda>(ep, w).
            Inr ((set_endpoint (hello_id h) ep ?cm)\<lparr>session_history := hist,
              routes := learn_routes (hello_static_routes h) (hello_id h) (routes ?cm)\<rparr>, w)))"
        unfolding outcome_bind
        by (intro outcome_mono [OF accept_path_outcome [OF assms(1) ok1]]) auto
      then show ?thesis
        using \<open>bincode_deserialize X message = Some m\<close> Hello ep r by (simp add: handle_hello_def Let_def)
    qed
  qed (use Some assms in \<open>simp_all add: handle_hello_def\<close>)
qed (use assms in \<open>simp add: handle_hello_def\<close>)

section \<open>Established messages\<close>

text \<open>Every endpoint has a connection, so that waiting finds something to wait for.\<close>

definition populated :: "('t, 'c) connection_manager \<Rightarrow> bool" where
  "populated cm \<longleftrightarrow> hm_all (\<lambda>k ep. has_connections ep) (endpoints cm)"

definition keeps :: "('t, 'c) connection_manager \<Rightarrow> ('t, 'c) connection_manager \<Rightarrow> bool" where
  "keeps cm cm' \<longleftrightarrow> cm_inv cm' \<and> (populated cm \<longrightarrow> populated cm') \<and>
    session_history cm' = session_history cm"

lemma keeps_refl: "cm_inv cm \<Longrightarrow> keeps cm cm"
  by (simp add: keeps_def)

lemma keeps_trans: "keeps a b \<Longrightarrow> keeps b c \<Longrightarrow> keeps a c"
  by (simp add: keeps_def)

lemma keeps_inv: "keeps a b \<Longrightarrow> cm_inv b"
  by (simp add: keeps_def)

lemma keeps_set:
  assumes "cm_inv cm" "get_endpoint k cm = Some ep" "grown ep ep'"
  shows "keeps cm (set_endpoint k ep' cm)"
proof -
  have "endpoint_ok k ep'" using cm_inv_get [OF assms(1,2)] assms(3) by (simp add: grown_def)
  moreover have "populated (set_endpoint k ep' cm)" if "populated cm"
  proof -
    have "has_connections ep" using that assms(2) unfolding populated_def by (rule hm.everyD)
    then have "has_connections ep'" using assms(3) by (simp add: grown_def)
    with that show ?thesis unfolding populated_def set_endpoint_def by (simp add: hm.every_put)
  qed
  ultimately show ?thesis using assms(1) by (simp add: keeps_def cm_inv_set)
qed

lemma grown_sorter:
  "(sorter_inv (packet_sorter ep) \<Longrightarrow> sorter_inv s) \<Longrightarrow> grown ep (ep\<lparr>packet_sorter := s\<rparr>)"
  by (simp add: grown_def endpoint_ok_def has_connections_def)

lemma grown_latency:
  "grown ep (ep\<lparr>hello_path_latency := insert_new_timestamp t n (hello_path_latency ep)\<rparr>)"
  "grown ep (ep\<lparr>hello_ack_path_latency := insert_new_timestamp t n (hello_ack_path_latency ep)\<rparr>)"
  by (simp_all add: grown_def endpoint_ok_def has_connections_def latency_inv_insert)

lemma add_log_line_outcome:
  "outcome (\<lambda>p. p = UnwrapErr \<and> faulty w) (\<lambda>w'. extends w w')
     (interface_logger_add_log_line l e n i w)"
  by (auto simp: interface_logger_add_log_line_def since_epoch_eq faulty_def intro!: outcome_mono [OF must_call_outcome])

lemma handle_packet_outcome:
  assumes "cm_inv cm"
  shows "outcome (\<lambda>p. p = UnwrapErr \<and> faulty w \<and> logging \<noteq> None) (\<lambda>(cm', w'). keeps cm cm' \<and> extends w w')
    (handle_packet X logging info pkt cm w)"
proof (cases "get_endpoint (eri_endpoint_id info) cm")
  case None
  then show ?thesis using assms by (simp add: handle_packet_def keeps_refl)
next
  case (Some ep)
  have k: "keeps cm (set_endpoint (eri_endpoint_id info)
      (ep\<lparr>packet_sorter := insert_packet X now pkt (packet_sorter ep)\<rparr>) cm)" for now
    by (intro keeps_set [OF assms Some] grown_sorter insert_sorter_inv)
  show ?thesis
    using Some k
    by (cases logging) (auto simp: handle_packet_def intro!: outcome_mono [OF add_log_line_outcome])
qed

lemma debug_latency_outcome: "outcome (\<lambda>p. D \<noteq> None) (\<lambda>_. True) (debug_latency D ep)"
  by (auto simp: debug_latency_def outcome_iff split: option.split)

lemma handle_repeated_hello_outcome:
  assumes "serializes X" "cm_inv cm"
  shows "outcome (\<lambda>p. (p = UnwrapErr \<and> refuses w) \<or> D \<noteq> None) (\<lambda>(cm', w'). keeps cm cm' \<and> extends w w')
    (handle_repeated_hello X D info h cm w)"
proof (cases "get_endpoint (hello_id h) cm")
  case None
  then show ?thesis using assms by (simp add: handle_repeated_hello_def keeps_refl)
next
  case (Some ep)
  let ?ep = "ep\<lparr>hello_path_latency := insert_new_timestamp (w_system_now w) (hello_seq h) (hello_path_latency ep)\<rparr>"
  have ack: "outcome (\<lambda>p. (p = UnwrapErr \<and> refuses w) \<or> D \<noteq> None) (\<lambda>(cm', w'). keeps cm cm' \<and> extends w w')
      (bindR (acknowledge X (own_id cm) sid (own_static_routes cm) ep1 w1) (\<lambda>(ep, w).
         bindR (debug_latency D ep) (\<lambda>_. Inr (set_endpoint (hello_id h) ep cm, w))))"
    if 1: "extends w w1" "grown ?ep ep1" for sid ep1 w1
  proof -
    have g: "grown ep ep1" using grown_trans [OF grown_latency(1) 1(2)] .
    then have ok: "endpoint_ok (hello_id h) ep1"
      using cm_inv_get [OF assms(2) Some] by (simp add: grown_def)
    have fin: "outcome (\<lambda>p. (p = UnwrapErr \<and> refuses w) \<or> D \<noteq> None) (\<lambda>(cm', w'). keeps cm cm' \<and> extends w w')
        (bindR (debug_latency D ep2) (\<lambda>_. Inr (set_endpoint (hello_id h) ep2 cm, w2)))"
      if "ep_after ep1 ep2" "extends w1 w2" for ep2 w2
      using keeps_set [OF assms(2) Some grown_trans [OF g ep_after_grown [OF that(1)]]]
        extends_trans [OF 1(1) that(2)]
      by (simp, intro outcome_mono [OF debug_latency_outcome]) auto
    show ?thesis
      by (subst outcome_bind, rule outcome_mono [OF acknowledge_outcome [OF assms(1) ok]])
        (auto simp del: outcome_bind not_None_eq intro!: fin)
  qed
  have open_fails: "refuses w" if "add_connection X a n l t ?ep w = Inr (Inl e, ep1, w1)" for a n l t e ep1 w1
    using that
    by (auto simp: add_connection_def open_dynamic_socket_def try_call_def bindR_eq_Inr
        split: if_splits prod.splits sum.splits dest: sys_refuses simp: sys_def intro: refusesI)
  let ?add = "add_connection X (source_address (connection_read_info info))
      (ri_interface_name (connection_read_info info)) (cm_local_address cm) (cm_connection_timeout cm) ?ep w"
  have add: "outcome (\<lambda>p. p = UnwrapErr \<and> refuses w) (\<lambda>(r, ep', w'). extends w w' \<and> grown ?ep ep' \<and>
     (\<forall>e. r = Inl e \<longrightarrow> ep' = ?ep) \<and> (r = Inr () \<longrightarrow> has_connections ep')) ?add"
    by (rule add_connection_grown)
  show ?thesis
  proof (cases ?add)
    case (Inl p)
    then show ?thesis using add Some by (simp add: handle_repeated_hello_def Let_def)
  next
    case (Inr x)
    then obtain r ep1 w1 where x: "x = (r, ep1, w1)" by (cases x)
    have g: "extends w w1" "grown ?ep ep1" using add by (simp_all add: Inr x)
    show ?thesis
    proof (cases r)
      case (Inl e)
      then show ?thesis using open_fails Inr x Some by (simp add: handle_repeated_hello_def Let_def)
    next
      case (Inr u)
      then show ?thesis using ack [OF g] \<open>?add = Inr x\<close> x Some
        by (simp del: outcome_bind add: handle_repeated_hello_def Let_def)
    qed
  qed
qed

lemma confirm_entry_kept [simp]: "path_kept ce (confirm_entry X now info ce)"
  by (auto simp: confirm_entry_def Let_def path_kept_def same_path_def set_state_def reset_hello_timeout_def)

lemma confirm_all_kept: "list_all2 path_kept ces (map (confirm_entry X now info) ces)"
  by (simp add: list_all2_map2 list_all2_refl)

lemma handle_hello_ack_outcome:
  assumes "cm_inv cm"
  shows "outcome (\<lambda>p. D \<noteq> None) (\<lambda>(cm', w'). keeps cm cm' \<and> extends w w')
    (handle_hello_ack X D info a cm w)"
proof (cases "get_endpoint (ack_id a) cm")
  case None
  then show ?thesis using assms by (simp add: handle_hello_ack_def hm_contains_key_def keeps_refl)
next
  case (Some ep)
  let ?ep = "ep\<lparr>hello_ack_path_latency := insert_new_timestamp (w_system_now w) (ack_seq a) (hello_ack_path_latency ep)\<rparr>"
  let ?cm = "(set_endpoint (ack_id a) ?ep cm)\<lparr>routes := learn_routes (ack_static_routes a) (ack_id a) (routes cm)\<rparr>"
  let ?ep' = "?ep\<lparr>connections := map (confirm_entry X (w_now w) (connection_read_info info)) (connections ep)\<rparr>"
  have 1: "keeps cm (set_endpoint (ack_id a) ?ep cm)"
    by (rule keeps_set [OF assms Some grown_latency(2)])
  then have "cm_inv ?cm"
    using cm_inv_learn [OF keeps_inv [OF 1], of "ack_id a" "ack_static_routes a"] by simp
  then have 2: "keeps cm ?cm" using 1 by (simp add: keeps_def populated_def)
  have e: "get_endpoint (ack_id a) ?cm = Some ?ep"
    by (simp add: set_endpoint_def hm.get_put)
  have "grown ?ep ?ep'"
    by (rule ep_after_grown) (simp add: ep_after_def confirm_all_kept)
  from keeps_trans [OF 2 keeps_set [OF keeps_inv [OF 2] e this]]
  have "keeps cm (set_endpoint (ack_id a) ?ep' ?cm)" .
  then show ?thesis using Some e
    by (simp add: handle_hello_ack_def hm_contains_key_def Let_def)
      (intro outcome_mono [OF debug_latency_outcome], auto)
qed

lemma handle_established_outcome:
  assumes "serializes X" "cm_inv cm"
  shows "outcome (\<lambda>p. (p = UnwrapErr \<and> faulty w) \<or> D \<noteq> None) (\<lambda>(cm', w'). keeps cm cm' \<and> extends w w')
    (handle_established_message X D logging info cm w)"
proof (cases "bincode_deserialize X (packet_bytes (connection_read_info info))")
  case (Some m)
  then show ?thesis
    by (cases m) (auto simp: handle_established_message_def
        intro: outcome_mono [OF handle_packet_outcome [OF assms(2)]]
          outcome_mono [OF handle_repeated_hello_outcome [OF assms]]
          outcome_mono [OF handle_hello_ack_outcome [OF assms(2)]] dest: refuses_faulty)
qed (simp add: handle_established_message_def keeps_refl assms)

end
