(* ===== verification/Manager_Safety.thy ===== *)
theory Manager_Safety
  imports Manager_Invariant
begin

text \<open>
  The invariant through the remaining operations of the connection manager: the loops over all
  endpoints, opening and removing connections, and the functions that wait.
\<close>

section \<open>The tunnel\<close>

lemma tun_to_endpoint_outcome:
  assumes "serializes X" "cm_inv cm" "get_endpoint eid cm = Some ep"
  shows "outcome (\<lambda>p. False) (\<lambda>(cm', w'). keeps cm cm' \<and> extends w w' \<and>
      dom (hm_get (endpoints cm')) = dom (hm_get (endpoints cm)))
    (tun_to_endpoint X bytes eid cm w)"
proof -
  obtain ser where ser: "bincode_serialize X (Packet \<lparr>pkt_seq = tx_counter ep, pkt_id = ep_id ep, pkt_bytes = bytes\<rparr>) = Some ser"
    using serializesD [OF assms(1)] by blast
  have ok: "endpoint_ok eid ep" by (rule cm_inv_get [OF assms(2,3)])
  have k: "keeps cm (set_endpoint eid (ep\<lparr>tx_counter := tx_counter ep + 1, connections := ces\<rparr>) cm)"
    if "list_all2 path_kept (connections ep) ces" for ces
    by (intro keeps_set [OF assms(2,3)] ep_after_grown) (simp add: ep_after_def that)
  have d: "insert eid (dom (hm_get (endpoints cm))) = dom (hm_get (endpoints cm))"
    using assms(3) by auto
  have dk: "dom (hm_get (endpoints (set_endpoint eid ep' cm))) = dom (hm_get (endpoints cm))" for ep'
    by (simp add: set_endpoint_def hm.dom_put d)
  have s: "\<forall>ce\<in>set (connections ep). has_socket ce" using ok by (simp add: endpoint_ok_def)
  show ?thesis using assms(3) ser
    by (simp add: tun_to_endpoint_def Let_def)
      (rule outcome_mono [OF for_each_writer [OF writers(2) s]], auto simp: dk k)
qed

lemma tun_loop_outcome:
  assumes "serializes X"
  shows "cm_inv cm \<Longrightarrow> set eids \<subseteq> dom (hm_get (endpoints cm)) \<Longrightarrow>
    outcome (\<lambda>p. False) (\<lambda>(cm', w'). keeps cm cm' \<and> extends w w') (tun_loop X bytes eids cm w)"
proof (induction eids arbitrary: cm w)
  case Nil
  then show ?case by (simp add: keeps_refl)
next
  case (Cons eid eids)
  then obtain ep where ep: "get_endpoint eid cm = Some ep" by auto
  have rest: "outcome (\<lambda>p. False) (\<lambda>(cm', w'). keeps cm cm' \<and> extends w w') (tun_loop X bytes eids cm1 w1)"
    if "keeps cm cm1" "extends w w1" "dom (hm_get (endpoints cm1)) = dom (hm_get (endpoints cm))" for cm1 w1
    using that Cons.prems
    by (intro outcome_mono [OF Cons.IH]) (auto intro: keeps_inv keeps_trans extends_trans)
  show ?case
    by (simp, rule outcome_mono [OF tun_to_endpoint_outcome [OF assms Cons.prems(1) ep]])
      (auto intro!: rest)
qed

lemma handle_packet_from_tun_outcome:
  assumes "serializes X" "cm_inv cm"
  shows "outcome (\<lambda>p. False) (\<lambda>(cm', w'). keeps cm cm' \<and> extends w w') (handle_packet_from_tun X bytes cm w)"
proof -
  have "set (router_lookup (routes cm) a) \<subseteq> dom (hm_get (endpoints cm))" for a
    using rt.find_targets [of "routes cm" a] assms(2) by (auto simp: cm_inv_def)
  then show ?thesis
    using tun_loop_outcome [OF assms] assms(2)
    by (auto simp: handle_packet_from_tun_def get_route_def keeps_refl split: ip_slice.split)
qed

section \<open>Loops over all endpoints\<close>

lemma list_all2_map_of:
  assumes "list_all2 (\<lambda>(k, v) (k', v'). k' = k \<and> R v v') m m'"
  shows "map fst m' = map fst m"
    and "map_of m' k = Some v' \<Longrightarrow> \<exists>v. map_of m k = Some v \<and> R v v'"
  using assms by (induction rule: list_all2_induct) (auto split: if_splits)

lemma keeps_all:
  assumes "cm_inv cm" "list_all2 (\<lambda>(k, ep) (k', ep'). k' = k \<and> grown ep ep') (endpoints cm) m"
  shows "keeps cm (cm\<lparr>endpoints := m\<rparr>)"
proof -
  note m = list_all2_map_of [OF assms(2)]
  have "dom (hm_get m) = dom (hm_get (endpoints cm))"
    using arg_cong [OF m(1), of set] by (simp add: dom_map_of_conv_image_fst)
  then show ?thesis
    using assms(1) m
    by (fastforce simp: keeps_def cm_inv_def populated_def hm_inv_def hm_all_def grown_def)
qed

lemma greet_endpoint_outcome:
  assumes "serializes X" "endpoint_ok (fst e) (snd e)"
  shows "outcome (\<lambda>p. False) (\<lambda>(e', w'). (\<lambda>(k, ep) (k', ep'). k' = k \<and> grown ep ep') e e' \<and> extends w w')
    (greet_endpoint X cm e w)"
proof -
  obtain k ep where e: "e = (k, ep)" by (cases e)
  obtain bytes where b: "bincode_serialize X (Hello \<lparr>hello_id = own_id cm, hello_session_id = session_id ep,
      hello_static_routes = own_static_routes cm, hello_seq = hello_counter ep\<rparr>) = Some bytes"
    using serializesD [OF assms(1)] by blast
  have s: "\<forall>ce\<in>set (connections ep). has_socket ce" using assms(2) e by (simp add: endpoint_ok_def)
  have g: "grown ep (ep\<lparr>hello_counter := hello_counter ep + 1, connections := ces\<rparr>)"
    if "list_all2 path_kept (connections ep) ces" for ces
    by (rule ep_after_grown) (simp add: ep_after_def that)
  show ?thesis using e b
    by (simp add: greet_endpoint_def)
      (rule outcome_mono [OF for_each_writer [OF writers(3) s]], auto simp: g)
qed

lemma greet_all_outcome:
  assumes "serializes X" "cm_inv cm"
  shows "outcome (\<lambda>p. False) (\<lambda>(cm', w'). keeps cm cm' \<and> extends w w') (greet_all_endpoints X cm w)"
proof -
  have "\<forall>e\<in>set (endpoints cm). endpoint_ok (fst e) (snd e)"
    using assms(2) by (auto simp: cm_inv_def hm_all_def hm_inv_def map_of_eq_Some_iff)
  then have "outcome (\<lambda>p. False) (\<lambda>(es', w').
      list_all2 (\<lambda>(k, ep) (k', ep'). k' = k \<and> grown ep ep') (endpoints cm) es' \<and> extends w w')
      (for_each (greet_endpoint X cm) (endpoints cm) w)"
    by (intro for_each_outcome [where K = "\<lambda>e. endpoint_ok (fst e) (snd e)"] greet_endpoint_outcome assms(1))
  then show ?thesis
    unfolding greet_all_endpoints_def outcome_bind
    by (rule outcome_mono) (auto intro!: keeps_all [OF assms(2)])
qed

lemma interface_grown: "grown ep (enable_interface n ep)" "grown ep (disable_interface n ep)"
  by (auto simp: grown_def endpoint_ok_def has_connections_def enable_interface_def disable_interface_def
      has_socket_def connection_enable_def connection_disable_def)

lemma duplication_keeps:
  assumes "cm_inv cm"
  shows "keeps cm (handle_selective_duplication_command X bytes cm)"
proof (cases "json_from_slice X bytes")
  case (Some c)
  obtain st where "c = InterfaceState st" by (cases c)
  then show ?thesis using Some
    by (auto simp: handle_selective_duplication_command_def list_all2_map2 interface_grown
        intro!: keeps_all [OF assms] list_all2_refl split: prod.split)
qed (simp add: handle_selective_duplication_command_def keeps_refl assms)

lemma sorter_deadline_keeps:
  assumes "cm_inv cm"
  shows "keeps cm (handle_packet_sorter_deadline X now eid cm)"
proof (cases "get_endpoint eid cm")
  case (Some ep)
  have "grown ep (ep\<lparr>packet_sorter := advance_queue X now (packet_sorter ep)\<rparr>)"
    by (intro grown_sorter advance_sorter_inv) (simp_all add: sorter_inv_def)
  then show ?thesis
    using keeps_set [OF assms Some] Some by (simp add: handle_packet_sorter_deadline_def)
qed (simp add: handle_packet_sorter_deadline_def keeps_refl assms)

section \<open>Opening connections\<close>

lemma try_call_outcome:
  "try_call c w k = (r, w') \<Longrightarrow> (\<And>n w1. k n w1 = (r, w') \<Longrightarrow> extends w w1 \<Longrightarrow> P) \<Longrightarrow>
    (\<And>e. r = Inl e \<Longrightarrow> extends w w' \<Longrightarrow> P) \<Longrightarrow> P"
  by (auto simp: try_call_def split: prod.splits sum.splits dest: extends_sys)

lemma make_socket_tail:
  assumes "try_call (Bind fd a) w (\<lambda>_ w. try_call (SetNonblocking fd) w (\<lambda>_ w.
      try_call (AsyncTryFrom fd) w (\<lambda>_ w. (Inr sk, w)))) = (r, w')"
  shows "extends w w' \<and> (\<forall>s. r = Inr s \<longrightarrow> s = sk)"
  using assms by (elim try_call_outcome) (auto intro: extends_trans)

text \<open>A panic while a socket is made: the kernel refused a call.\<close>

definition open_panic :: "world \<Rightarrow> panic \<Rightarrow> bool" where
  "open_panic w p \<longleftrightarrow> p \<in> {UnwrapErr, UnexpectedBindError} \<and> refuses w"

lemma open_panic_extends: "extends w w' \<Longrightarrow> open_panic w' p = open_panic w p"
  by (simp add: open_panic_def refuses_extends)

lemma make_socket_outcome:
  "outcome (open_panic w)
     (\<lambda>(r, w'). extends w w' \<and> (\<forall>sk. r = Inr sk \<longrightarrow> sk_local sk \<noteq> None))
     (make_socket ifs name (Some ip) port True w)"
proof (cases "make_socket ifs name (Some ip) port True w")
  case (Inl p)
  then show ?thesis
    by (auto simp: make_socket_def sys_def open_panic_def Let_def split: sum.splits if_splits intro: refusesI)
next
  case (Inr x)
  obtain r w' where x: "x = (r, w')" by (cases x)
  obtain a1 w1 where 1: "sys SocketNew w = (a1, w1)" by (cases "sys SocketNew w")
  from Inr 1 obtain fd where fd: "a1 = Inr fd" by (cases a1) (auto simp: make_socket_def)
  obtain a2 w2 where 2: "sys (BindDevice fd name) w1 = (a2, w2)" by (cases "sys (BindDevice fd name) w1")
  have w2: "extends w w2" using extends_trans [OF extends_sys [OF 1] extends_sys [OF 2]] .
  show ?thesis
  proof (cases a2)
    case (Inl e)
    then show ?thesis using Inr x 1 2 fd w2
      by (auto simp: make_socket_def split: if_splits)
  next
    case (Inr u)
    let ?a = "V4 ip (case port of Some p \<Rightarrow> p | None \<Rightarrow> 0)"
    let ?sk = "\<lparr>sk_fd = fd, sk_local = Some ?a, sk_peer = None\<rparr>"
    have "try_call (Bind fd ?a) w2 (\<lambda>_ w. try_call (SetNonblocking fd) w (\<lambda>_ w.
      try_call (AsyncTryFrom fd) w (\<lambda>_ w. (Inr ?sk, w)))) = (r, w')"
      using \<open>make_socket ifs name (Some ip) port True w = Inr x\<close> Inr x 1 2 fd
      by (simp add: make_socket_def Let_def cong: option.case_cong)
    from make_socket_tail [OF this]
    have "extends w w'" "\<forall>s. r = Inr s \<longrightarrow> s = ?sk" using extends_trans [OF w2] by blast+
    then show ?thesis using \<open>make_socket ifs name (Some ip) port True w = Inr x\<close> x by auto
  qed
qed

text \<open>The endpoint a connection is opened for: it exists or is made.\<close>

definition peer_endpoint ::
  "('t, 'c) deps \<Rightarrow> endpoint_id \<Rightarrow> ('t, 'c) connection_manager \<Rightarrow> world \<Rightarrow>
    ('t, 'c) endpoint \<times> ('t, 'c) connection_manager \<times> world" where
  "peer_endpoint X eid cm w =
    (case get_endpoint eid cm of
       Some ep \<Rightarrow> (ep, cm, w)
     | None \<Rightarrow>
         let (session, w) = fresh_uuid w; ep = endpoint_new X (w_now w) eid session (packet_sorter_deadline cm)
         in (ep, set_endpoint eid ep cm, w))"

lemma peer_endpoint_props:
  assumes "peer_endpoint X eid cm w = (ep, cm', w')" "cm_inv cm"
  shows "cm_inv cm'" "get_endpoint eid cm' = Some ep" "extends w w'"
    and "session_history cm' = session_history cm"
    and "own_id cm' = own_id cm" "own_static_routes cm' = own_static_routes cm"
    and "cm_connection_timeout cm' = cm_connection_timeout cm"
  using assms
  by (auto simp: peer_endpoint_def fresh_uuid_def extends_def Let_def cm_inv_set endpoint_ok_new
      split: option.splits)

text \<open>What \<open>create_new_connection\<close> may do to the manager, whatever it returns.\<close>

definition opened :: "('t, 'c) connection_manager \<Rightarrow> ('t, 'c) connection_manager \<Rightarrow> bool" where
  "opened cm cm' \<longleftrightarrow> cm_inv cm' \<and> session_history cm' = session_history cm"

lemma opened_refl: "cm_inv cm \<Longrightarrow> opened cm cm"
  by (simp add: opened_def)

lemma opened_trans: "opened a b \<Longrightarrow> opened b c \<Longrightarrow> opened a c"
  by (simp add: opened_def)

lemma keeps_opened: "keeps a b \<Longrightarrow> opened a b"
  by (simp add: opened_def keeps_def)

text \<open>The greeting that is sent on the new socket, and the entry made when it was sent.\<close>

definition greet_and_register ::
  "('t, 'c) deps \<Rightarrow> string \<Rightarrow> sockaddr \<Rightarrow> endpoint_id \<Rightarrow> udp_socket \<Rightarrow> ('t, 'c) endpoint \<Rightarrow>
    ('t, 'c) connection_manager \<Rightarrow> world \<Rightarrow> (unit io_result \<times> ('t, 'c) connection_manager \<times> world) run" where
  "greet_and_register X name destination eid new_socket ep cm w =
    (let h = \<lparr>hello_id = own_id cm, hello_session_id = session_id ep,
              hello_static_routes = own_static_routes cm, hello_seq = hello_counter ep\<rparr>;
         ep = ep\<lparr>hello_counter := hello_counter ep + 1\<rparr>;
         cm = set_endpoint eid ep cm
     in bindR (unwrap (bincode_serialize X (Hello h))) (\<lambda>encoded.
        case sys (Send (sk_fd new_socket) encoded) w of
          (Inl e, w) \<Rightarrow> Inr (Inl e, cm, w)
        | (Inr _, w) \<Rightarrow>
            bindR (connection_new X new_socket (Some name) (cm_connection_timeout cm) w) (\<lambda>(c, w).
              let entry = \<lparr>interface_name = name, interface_address = destination,
                           connection = c\<lparr>state := Startup\<rparr>\<rparr>
              in Inr (Inr (), set_endpoint eid (ep\<lparr>connections := connections ep @ [entry]\<rparr>) cm, w))))"

lemma create_new_connection_eq:
  "create_new_connection X ifs name local_addr destination eid cm w =
    bindR (case local_addr of V4 ip _ \<Rightarrow> Inr ip | V6 _ _ \<Rightarrow> Inl Ipv6NotSupported) (\<lambda>own_ipv4.
    bindR (make_socket ifs name (Some own_ipv4) None True w) (\<lambda>(socket, w).
      case socket of
        Inl e \<Rightarrow> Inr (Inl e, cm, w)
      | Inr new_socket \<Rightarrow>
          (case sys (ConnectTo (sk_fd new_socket) destination) w of
             (Inl e, w) \<Rightarrow> Inr (Inl e, cm, w)
           | (Inr _, w) \<Rightarrow> (case peer_endpoint X eid cm w of
               (ep, cm, w) \<Rightarrow> greet_and_register X name destination eid
                 (new_socket\<lparr>sk_peer := Some destination\<rparr>) ep cm w))))"
  unfolding create_new_connection_def peer_endpoint_def greet_and_register_def Let_def ..

lemma greet_and_register_outcome:
  assumes "serializes X" "cm_inv cm" "get_endpoint eid cm = Some ep"
    and "sk_local sk \<noteq> None" "sk_peer sk \<noteq> None"
  shows "outcome (open_panic w) (\<lambda>(r, cm', w'). opened cm cm' \<and> extends w w' \<and>
      (r = Inr () \<longrightarrow> keeps cm cm'))
    (greet_and_register X name destination eid sk ep cm w)"
proof -
  obtain bytes where b: "bincode_serialize X (Hello \<lparr>hello_id = own_id cm, hello_session_id = session_id ep,
      hello_static_routes = own_static_routes cm, hello_seq = hello_counter ep\<rparr>) = Some bytes"
    using serializesD [OF assms(1)] by blast
  let ?ep = "ep\<lparr>hello_counter := hello_counter ep + 1\<rparr>"
  have ok: "endpoint_ok eid ep" by (rule cm_inv_get [OF assms(2,3)])
  have g: "grown ep ?ep" by (simp add: grown_def endpoint_ok_def has_connections_def)
  have k1: "keeps cm (set_endpoint eid ?ep cm)" by (rule keeps_set [OF assms(2,3) g])
  have k2: "keeps cm (set_endpoint eid (?ep\<lparr>connections := connections ep @
      [\<lparr>interface_name = name, interface_address = destination, connection = c\<rparr>]\<rparr>) (set_endpoint eid ?ep cm))"
    if "std_socket c \<noteq> None" for c
    using that
    by (intro keeps_trans [OF k1] keeps_set [OF keeps_inv [OF k1], of _ ?ep])
      (auto simp: grown_def endpoint_ok_def has_connections_def has_socket_def)
  obtain a w1 where a: "sys (Send (sk_fd sk) bytes) w = (a, w1)" by (cases "sys (Send (sk_fd sk) bytes) w")
  have w1: "extends w w1" by (rule extends_sys [OF a])
  have new: "outcome (open_panic w) (\<lambda>(r, cm', w'). opened cm cm' \<and> extends w w' \<and> (r = Inr () \<longrightarrow> keeps cm cm'))
      (bindR (connection_new X sk (Some name) timeout w1) (\<lambda>(c, w). Inr (Inr (), set_endpoint eid
        (?ep\<lparr>connections := connections ?ep @ [\<lparr>interface_name = name, interface_address = destination,
           connection = c\<lparr>state := Startup\<rparr>\<rparr>]\<rparr>) (set_endpoint eid ?ep cm), w)))" for timeout
    using k2 by (intro outcome_after [OF connection_new_outcome [OF assms(5,4)]])
      (auto simp: open_panic_def refuses_extends [OF w1] keeps_opened intro: extends_trans [OF w1])
  show ?thesis
    using b a k1 w1 new
    by (cases a) (simp_all del: outcome_bind add: greet_and_register_def Let_def keeps_opened)
qed

lemma create_new_connection_outcome:
  assumes "serializes X" "cm_inv cm"
  shows "outcome (\<lambda>p. (p = Ipv6NotSupported \<and> (\<exists>i q. local_addr = V6 i q)) \<or> open_panic w p)
    (\<lambda>(r, cm', w'). opened cm cm' \<and> extends w w')
    (create_new_connection X ifs name local_addr destination eid cm w)"
proof (cases local_addr)
  case (V6 i q)
  then show ?thesis by (simp add: create_new_connection_def)
next
  case (V4 ip q)
  have conn: "outcome (open_panic w) (\<lambda>(r, cm', w'). opened cm cm' \<and> extends w w')
      (case sys (ConnectTo (sk_fd sk) destination) w1 of
             (Inl e, w) \<Rightarrow> Inr (Inl e, cm, w)
           | (Inr _, w) \<Rightarrow> (case peer_endpoint X eid cm w of
               (ep, cm, w) \<Rightarrow> greet_and_register X name destination eid
                 (sk\<lparr>sk_peer := Some destination\<rparr>) ep cm w))"
    if 1: "extends w w1" "\<exists>y. sk_local sk = Some y" for sk w1
  proof -
    obtain a w2 where a: "sys (ConnectTo (sk_fd sk) destination) w1 = (a, w2)"
      by (cases "sys (ConnectTo (sk_fd sk) destination) w1")
    have w2: "extends w w2" using extends_trans [OF 1(1) extends_sys [OF a]] .
    obtain ep cm3 w3 where p: "peer_endpoint X eid cm w2 = (ep, cm3, w3)"
      by (cases "peer_endpoint X eid cm w2")
    note pe = peer_endpoint_props [OF p assms(2)]
    have "outcome (open_panic w) (\<lambda>(r, cm', w'). opened cm cm' \<and> extends w w')
        (greet_and_register X name destination eid (sk\<lparr>sk_peer := Some destination\<rparr>) ep cm3 w3)"
      using pe 1(2) w2
      by (intro outcome_mono [OF greet_and_register_outcome [OF assms(1) pe(1,2)]])
        (auto simp: opened_def open_panic_extends [OF extends_trans [OF w2 pe(3)]] intro: extends_trans)
    then show ?thesis using a p w2 by (cases a) (simp_all add: opened_refl assms(2))
  qed
  show ?thesis
    unfolding create_new_connection_eq V4
    by (simp del: outcome_bind, subst outcome_bind, rule outcome_mono [OF make_socket_outcome])
      (auto simp: opened_refl assms(2) intro!: outcome_mono [OF conn] split: sum.split)
qed

lemma reopen_loop_outcome:
  assumes "serializes X" and "\<forall>info\<in>set infos. \<exists>ip q. ci_local_address info = V4 ip q"
  shows "cm_inv cm \<Longrightarrow>
    outcome (open_panic w)
      (\<lambda>(cm', w'). opened cm cm' \<and> extends w w') (reopen_loop X ifs alive infos cm w)"
  using assms(2)
proof (induction infos arbitrary: cm w)
  case Nil
  then show ?case by (simp add: opened_refl)
next
  case (Cons info infos)
  let ?Q = "open_panic w"
  let ?P = "\<lambda>(cm', w'). opened cm cm' \<and> extends w w'"
  have rest: "outcome ?Q ?P (reopen_loop X ifs alive infos cm1 w1)"
    if "opened cm cm1" "extends w w1" for cm1 w1
    using that Cons.prems
    by (intro outcome_mono [OF Cons.IH]) (auto simp: opened_def open_panic_extends intro: extends_trans)
  obtain ip q where v: "ci_local_address info = V4 ip q" using Cons.prems by auto
  have new: "outcome ?Q ?P (bindR (create_new_connection X ifs (ci_interface_name info) (ci_local_address info)
         (ci_destination_address info) (ci_destination_endpoint_id info) cm w) (\<lambda>(r, cm, w). Inr (cm, w)))"
    by (simp, rule outcome_mono [OF create_new_connection_outcome [OF assms(1) Cons.prems(1)]]) (auto simp: v)
  have "outcome ?Q ?P (if (ci_interface_name info, ci_destination_address info) \<notin> set alive
      then bindR (create_new_connection X ifs (ci_interface_name info) (ci_local_address info)
             (ci_destination_address info) (ci_destination_endpoint_id info) cm w)
             (\<lambda>(r, cm, w). Inr (cm, w))
      else Inr (cm, w))"
    using new Cons.prems(1) by (simp del: outcome_bind add: opened_refl)
  then show ?case
    unfolding reopen_loop.simps
    by (subst outcome_bind, elim outcome_mono) (auto intro: rest)
qed

lemma ensure_endpoint_connections_outcome:
  assumes "serializes X" "cm_inv cm" "\<forall>info\<in>set infos. \<exists>ip q. ci_local_address info = V4 ip q"
  shows "outcome (open_panic w)
      (\<lambda>(cm', w'). opened cm cm' \<and> extends w w') (ensure_endpoint_connections X ifs eid infos cm w)"
  using reopen_loop_outcome [OF assms(1,3,2)] assms(2)
  by (auto simp: ensure_endpoint_connections_def opened_refl split: option.split)

section \<open>Waiting\<close>

lemma select_outcome:
  assumes "select_laws X"
  shows "outcome (\<lambda>p. p = SelectAllEmpty \<and> n = 0) (\<lambda>j. j < n) (select_all X i n)"
proof (cases "n = 0")
  case True
  then show ?thesis using assms by (simp add: select_laws_def)
next
  case False
  then obtain j where "j < n" "select_all X i n = Inr j"
    using assms unfolding select_laws_def by blast
  then show ?thesis by simp
qed

lemma select_endpoint_outcome:
  assumes "select_laws X"
  shows "outcome (\<lambda>p. p = SelectAllEmpty \<and> candidates cm = []) (\<lambda>e. e \<in> set (candidates cm)) (select_endpoint X i cm)"
  by (simp add: select_endpoint_def, rule outcome_mono [OF select_outcome [OF assms]]) auto

lemma candidates_endpoint:
  assumes "cm_inv cm" "(k, ep) \<in> set (candidates cm)"
  shows "get_endpoint k cm = Some ep" "connections ep \<noteq> []"
  using assms by (auto simp: candidates_def cm_inv_def hm_inv_def map_of_eq_Some_iff has_connections_def)

lemma candidates_empty_iff:
  "cm_inv cm \<Longrightarrow> candidates cm = [] \<longleftrightarrow> hm_all (\<lambda>k ep. \<not> has_connections ep) (endpoints cm)"
  by (auto simp: candidates_def hm_all_def cm_inv_def hm_inv_def map_of_eq_Some_iff filter_empty_conv)

end
