(* ===== verification/Manager_Removal.thy ===== *)
theory Manager_Removal
  imports Manager_Safety
begin

text \<open>
  Removing connections, and with the last connection of an endpoint the endpoint and its routes.
  The two loops of \<open>remove_connection\<close> and \<open>remove_disconnected\<close> are brought into closed form.
\<close>

section \<open>Dropping endpoints\<close>

definition forget_endpoints :: "endpoint_id list \<Rightarrow> ('t, 'c) connection_manager \<Rightarrow> ('t, 'c) connection_manager" where
  "forget_endpoints eids cm = cm\<lparr>endpoints := filter (\<lambda>(k, ep). k \<notin> set eids) (endpoints cm),
     routes := filter (\<lambda>aem. aem_endpoint_id aem \<notin> set eids) (routes cm)\<rparr>"

lemma drop_endpoints_eq:
  "distinct eids \<Longrightarrow> set eids \<subseteq> dom (hm_get (endpoints cm)) \<Longrightarrow>
    drop_endpoints eids cm = Inr (forget_endpoints eids cm)"
proof (induction eids arbitrary: cm)
  case Nil
  then show ?case by (simp add: forget_endpoints_def)
next
  case (Cons eid eids)
  then obtain ep where ep: "get_endpoint eid cm = Some ep" by auto
  let ?cm = "cm\<lparr>endpoints := hm_remove eid (endpoints cm), routes := remove_route_to_endpoint eid (routes cm)\<rparr>"
  have "set eids \<subseteq> dom (hm_get (endpoints ?cm))"
    using Cons.prems by (auto simp: hm.get_remove)
  then have "drop_endpoints eids ?cm = Inr (forget_endpoints eids ?cm)"
    using Cons.prems by (intro Cons.IH) auto
  also have "forget_endpoints eids ?cm = forget_endpoints (eid # eids) cm"
    by (auto simp: forget_endpoints_def hm_remove_def remove_route_to_endpoint_def case_prod_unfold
        intro!: filter_cong)
  finally show ?case using ep by simp
qed

lemma router_inv_filter: "router_inv rs \<Longrightarrow> router_inv (filter (\<lambda>aem. aem_endpoint_id aem \<notin> set eids) rs)"
proof (induction eids)
  case (Cons e eids)
  have "filter (\<lambda>aem. aem_endpoint_id aem \<notin> set (e # eids)) rs =
      remove_route_to_endpoint e (filter (\<lambda>aem. aem_endpoint_id aem \<notin> set eids) rs)"
    by (auto simp: remove_route_to_endpoint_def intro!: filter_cong)
  then show ?case
    using Cons by (simp add: router_inv_def distinct_remove_route defaults_last_remove)
qed simp

lemma get_forget_endpoints:
  "get_endpoint k (forget_endpoints eids cm) = (if k \<in> set eids then None else get_endpoint k cm)"
proof -
  have "map_of (filter (\<lambda>(k, ep). k \<notin> set eids) m) k = (if k \<in> set eids then None else map_of m k)" for m :: "(endpoint_id \<times> ('a, 'b) endpoint) list"
    by (induction m) auto
  then show ?thesis by (simp add: forget_endpoints_def)
qed

lemma routes_forget_endpoints:
  "routes (forget_endpoints eids cm) = filter (\<lambda>aem. aem_endpoint_id aem \<notin> set eids) (routes cm)"
  by (simp add: forget_endpoints_def)

lemma cm_inv_forget: "cm_inv cm \<Longrightarrow> cm_inv (forget_endpoints eids cm)"
proof -
  assume inv: "cm_inv cm"
  have t: "route_targets (routes (forget_endpoints eids cm)) = route_targets (routes cm) - set eids"
    by (auto simp: forget_endpoints_def route_targets_def)
  have d: "dom (hm_get (endpoints (forget_endpoints eids cm))) = dom (hm_get (endpoints cm)) - set eids"
    by (auto simp: get_forget_endpoints split: if_splits)
  have "hm_inv (endpoints (forget_endpoints eids cm))"
    using inv by (simp add: cm_inv_def hm_inv_def forget_endpoints_def distinct_map_filter)
  moreover have "hm_all endpoint_ok (endpoints (forget_endpoints eids cm))"
    using inv by (simp add: cm_inv_def hm_all_def get_forget_endpoints)
  moreover have "router_inv (routes (forget_endpoints eids cm))"
    using inv router_inv_filter by (simp add: cm_inv_def forget_endpoints_def)
  ultimately show ?thesis
    unfolding cm_inv_def t d using inv by (auto simp: cm_inv_def)
qed

section \<open>Removing one connection\<close>

text \<open>The first step: the connection goes.\<close>

definition without_path ::
  "endpoint_id \<Rightarrow> string \<Rightarrow> sockaddr \<Rightarrow> ('t, 'c) connection_manager \<Rightarrow> ('t, 'c) connection_manager" where
  "without_path eid name addr cm =
    (case get_endpoint eid cm of
       Some ep \<Rightarrow>
         (case position (is_entry addr name) (connections ep) of
            Some index \<Rightarrow> set_endpoint eid (ep\<lparr>connections := remove_at index (connections ep)\<rparr>) cm
          | None \<Rightarrow> cm)
     | None \<Rightarrow> cm)"

text \<open>The endpoints without connections.\<close>

definition idle :: "('t, 'c) connection_manager \<Rightarrow> endpoint_id list" where
  "idle cm = map fst (filter (\<lambda>(eid, ep). \<not> has_connections ep) (endpoints cm))"

lemma set_idle: "cm_inv cm \<Longrightarrow> k \<in> set (idle cm) \<longleftrightarrow> (\<exists>ep. get_endpoint k cm = Some ep \<and> \<not> has_connections ep)"
  by (force simp: idle_def cm_inv_def hm_inv_def map_of_eq_Some_iff)

lemma remove_connection_eq:
  assumes "hm_inv (endpoints (without_path eid name addr cm))"
  shows "remove_connection eid name addr cm =
    Inr (forget_endpoints (idle (without_path eid name addr cm)) (without_path eid name addr cm))"
proof -
  have "distinct (idle (without_path eid name addr cm))"
    using assms by (simp add: idle_def hm_inv_def distinct_map_filter)
  moreover have "set (idle (without_path eid name addr cm)) \<subseteq> dom (hm_get (endpoints (without_path eid name addr cm)))"
    by (auto simp: idle_def dom_map_of_conv_image_fst)
  ultimately show ?thesis
    using drop_endpoints_eq [of "idle (without_path eid name addr cm)" "without_path eid name addr cm"]
    by (simp add: remove_connection_def without_path_def idle_def Let_def)
qed

lemma set_remove_at: "set (remove_at i xs) \<subseteq> set xs"
  by (auto simp: remove_at_def dest: in_set_takeD in_set_dropD)

lemma cm_inv_without_path: "cm_inv cm \<Longrightarrow> cm_inv (without_path eid name addr cm)"
proof -
  assume inv: "cm_inv cm"
  show ?thesis
  proof (cases "get_endpoint eid cm")
    case (Some ep)
    have "endpoint_ok eid (ep\<lparr>connections := remove_at i (connections ep)\<rparr>)" for i
      using cm_inv_get [OF inv Some] set_remove_at [of i "connections ep"] by (auto simp: endpoint_ok_def)
    then show ?thesis using Some inv by (auto simp: without_path_def cm_inv_set split: option.split)
  qed (simp add: without_path_def inv)
qed

lemma populated_forget_idle: "cm_inv cm \<Longrightarrow> populated (forget_endpoints (idle cm) cm)"
  by (auto simp: populated_def hm_all_def get_forget_endpoints set_idle)

lemma without_path_history [simp]: "session_history (without_path eid name addr cm) = session_history cm"
  by (simp add: without_path_def split: option.split)

lemma remove_connection_outcome:
  assumes "cm_inv cm"
  shows "outcome (\<lambda>p. False) (\<lambda>cm'. keeps cm cm' \<and> populated cm') (remove_connection eid name addr cm)"
proof -
  have inv: "cm_inv (without_path eid name addr cm)" by (rule cm_inv_without_path [OF assms])
  then have "hm_inv (endpoints (without_path eid name addr cm))" by (simp add: cm_inv_def)
  from remove_connection_eq [OF this] show ?thesis
    using cm_inv_forget [OF inv] populated_forget_idle [OF inv]
    by (simp add: keeps_def) (simp add: forget_endpoints_def)
qed

lemma remove_paths_outcome:
  "cm_inv cm \<Longrightarrow> outcome (\<lambda>p. False) (\<lambda>cm'. keeps cm cm' \<and> (paths \<noteq> [] \<longrightarrow> populated cm')) (remove_paths paths cm)"
proof (induction paths arbitrary: cm)
  case (Cons path paths)
  obtain eid name addr where p: "path = (eid, name, addr)" by (cases path)
  have "outcome (\<lambda>p. False) (\<lambda>cm'. keeps cm cm' \<and> populated cm') (remove_paths paths cm1)"
    if "keeps cm cm1" "populated cm1" for cm1
    using that by (intro outcome_mono [OF Cons.IH [OF keeps_inv]]) (auto simp: keeps_def)
  then show ?case
    by (simp add: p, intro outcome_mono [OF remove_connection_outcome [OF Cons.prems]]) auto
qed (simp add: keeps_refl)

lemma remove_disconnected_outcome:
  "cm_inv cm \<Longrightarrow> outcome (\<lambda>p. False) (\<lambda>cm'. keeps cm cm') (remove_disconnected cm)"
  unfolding remove_disconnected_def
  by (rule outcome_mono [OF remove_paths_outcome]) auto

section \<open>What is left\<close>

text \<open>No two connections of an endpoint share interface name and address.\<close>

definition path_of :: "'t connection_entry \<Rightarrow> string \<times> sockaddr" where
  "path_of ce = (interface_name ce, interface_address ce)"

definition distinct_paths :: "('t, 'c) connection_manager \<Rightarrow> bool" where
  "distinct_paths cm \<longleftrightarrow> (\<forall>k ep. get_endpoint k cm = Some ep \<longrightarrow> distinct (map path_of (connections ep)))"

lemma is_entry_path: "is_entry addr name ce \<longleftrightarrow> path_of ce = (name, addr)"
  by (auto simp: is_entry_def path_of_def)

lemma remove_at_filter:
  assumes "distinct (map path_of ces)" "position (is_entry addr name) ces = Some i"
  shows "remove_at i ces = filter (\<lambda>ce. path_of ce \<noteq> (name, addr)) ces"
  using assms(2)
proof (rule position_SomeE)
  fix ys x zs
  assume s: "ces = ys @ x # zs" "length ys = i" "is_entry addr name x" "\<forall>y\<in>set ys. \<not> is_entry addr name y"
  have "\<forall>z\<in>set zs. path_of z \<noteq> (name, addr)"
    using assms(1) s(1,3) by (force simp: is_entry_path)
  then have "filter (\<lambda>ce. path_of ce \<noteq> (name, addr)) ces = ys @ zs"
    using s by (auto simp: is_entry_path intro!: filter_True)
  then show ?thesis using remove_at_split [of ys x zs] s(1,2) by simp
qed

text \<open>\<open>keep_paths P k ep\<close>: the endpoint with the connections that satisfy \<open>P\<close>, if any.\<close>

definition keep_connections ::
  "('t connection_entry \<Rightarrow> bool) \<Rightarrow> ('t, 'c) endpoint \<Rightarrow> ('t, 'c) endpoint option" where
  "keep_connections P ep = (let ces = filter P (connections ep) in
     if ces = [] then None else Some (ep\<lparr>connections := ces\<rparr>))"

lemma get_without_path:
  assumes "distinct_paths cm"
  shows "get_endpoint k (without_path eid name addr cm) = map_option
    (\<lambda>ep. ep\<lparr>connections := filter (\<lambda>ce. (k, path_of ce) \<noteq> (eid, name, addr)) (connections ep)\<rparr>) (get_endpoint k cm)"
proof (cases "get_endpoint eid cm")
  case None
  then show ?thesis by (cases "k = eid") (simp_all add: without_path_def option.map_ident)
next
  case (Some ep)
  then have d: "distinct (map path_of (connections ep))" using assms by (simp add: distinct_paths_def)
  show ?thesis
  proof (cases "position (is_entry addr name) (connections ep)")
    case None
    then have "filter (\<lambda>ce. path_of ce \<noteq> (name, addr)) (connections ep) = connections ep"
      by (auto simp: position_None_iff is_entry_path intro: filter_True)
    then show ?thesis using Some None
      by (cases "k = eid") (simp_all add: without_path_def option.map_ident)
  next
    case (Some i)
    then show ?thesis using \<open>get_endpoint eid cm = Some ep\<close> remove_at_filter [OF d Some]
      by (cases "k = eid") (simp_all add: without_path_def option.map_ident)
  qed
qed

lemma remove_connection_get:
  assumes "cm_inv cm" "distinct_paths cm" "remove_connection eid name addr cm = Inr cm'"
  shows "get_endpoint k cm' =
      Option.bind (get_endpoint k cm) (keep_connections (\<lambda>ce. (k, path_of ce) \<noteq> (eid, name, addr)))"
    and "routes cm' = filter (\<lambda>aem. get_endpoint (aem_endpoint_id aem) cm' \<noteq> None) (routes cm)"
    and "distinct_paths cm'"
proof -
  let ?cm = "without_path eid name addr cm"
  have inv: "cm_inv ?cm" by (rule cm_inv_without_path [OF assms(1)])
  then have cm': "cm' = forget_endpoints (idle ?cm) ?cm"
    using remove_connection_eq [of eid name addr cm] assms(3) by (simp add: cm_inv_def)
  show get: "get_endpoint k cm' =
      Option.bind (get_endpoint k cm) (keep_connections (\<lambda>ce. (k, path_of ce) \<noteq> (eid, name, addr)))" for k
    by (cases "get_endpoint k cm")
      (auto simp: cm' get_forget_endpoints set_idle [OF inv] get_without_path [OF assms(2)]
        keep_connections_def Let_def has_connections_def)
  have "routes ?cm = routes cm" by (simp add: without_path_def split: option.split)
  moreover have "get_endpoint (aem_endpoint_id aem) ?cm \<noteq> None" if "aem \<in> set (routes ?cm)" for aem
    using inv that by (auto simp: cm_inv_def route_targets_def)
  ultimately show "routes cm' = filter (\<lambda>aem. get_endpoint (aem_endpoint_id aem) cm' \<noteq> None) (routes cm)"
    unfolding cm' routes_forget_endpoints by (intro filter_cong) (auto simp: get_forget_endpoints)
  show "distinct_paths cm'"
    using assms(2) by (auto simp: distinct_paths_def get keep_connections_def Let_def distinct_map_filter
        bind_eq_Some_conv split: if_splits)
qed

lemma keep_connections_bind:
  "Option.bind (keep_connections P ep) (keep_connections Q) = keep_connections (\<lambda>ce. P ce \<and> Q ce) ep"
  by (auto simp: keep_connections_def Let_def filter_empty_conv conj_commute)

lemma remove_paths_get:
  "paths \<noteq> [] \<Longrightarrow> cm_inv cm \<Longrightarrow> distinct_paths cm \<Longrightarrow> remove_paths paths cm = Inr cm' \<Longrightarrow>
    (\<forall>k. get_endpoint k cm' = Option.bind (get_endpoint k cm) (keep_connections (\<lambda>ce. (k, path_of ce) \<notin> set paths))) \<and>
    routes cm' = filter (\<lambda>aem. get_endpoint (aem_endpoint_id aem) cm' \<noteq> None) (routes cm)"
proof (induction paths arbitrary: cm)
  case (Cons path paths)
  obtain eid name addr where p: "path = (eid, name, addr)" by (cases path)
  obtain cm1 where 1: "remove_connection eid name addr cm = Inr cm1" and
    2: "remove_paths paths cm1 = Inr cm'"
    using Cons.prems(4) by (auto simp: p bindR_eq_Inr)
  note get1 = remove_connection_get [OF Cons.prems(2,3) 1]
  have inv1: "cm_inv cm1"
    using remove_connection_outcome [OF Cons.prems(2), of eid name addr] by (simp add: 1 keeps_def)
  show ?case
  proof (cases "paths = []")
    case True
    then show ?thesis using get1 2 p by simp
  next
    case False
    note ih = Cons.IH [OF False inv1 get1(3) 2]
    have "get_endpoint k cm' = Option.bind (get_endpoint k cm)
        (keep_connections (\<lambda>ce. (k, path_of ce) \<notin> set (path # paths)))" for k
    proof -
      have "get_endpoint k cm' = Option.bind (Option.bind (get_endpoint k cm)
          (keep_connections (\<lambda>ce. (k, path_of ce) \<noteq> (eid, name, addr))))
          (keep_connections (\<lambda>ce. (k, path_of ce) \<notin> set paths))"
        using ih get1(1) by simp
      also have "\<dots> = Option.bind (get_endpoint k cm)
          (keep_connections (\<lambda>ce. (k, path_of ce) \<noteq> (eid, name, addr) \<and> (k, path_of ce) \<notin> set paths))"
        by (simp only: bind_assoc keep_connections_bind)
      finally show ?thesis by (simp add: p)
    qed
    moreover have "get_endpoint k cm1 \<noteq> None" if "get_endpoint k cm' \<noteq> None" for k
      using that ih by (auto simp: bind_eq_Some_conv)
    then have "routes cm' = filter (\<lambda>aem. get_endpoint (aem_endpoint_id aem) cm' \<noteq> None) (routes cm)"
      using ih get1(2) by (auto simp del: not_None_eq intro!: filter_cong)
    ultimately show ?thesis by blast
  qed
qed simp

lemma set_disconnected_paths:
  "(k, p) \<in> set (disconnected_paths cm) \<longleftrightarrow> (\<exists>ep ce. (k, ep) \<in> set (endpoints cm) \<and>
     ce \<in> set (connections ep) \<and> entry_state ce = Disconnected \<and> path_of ce = p)"
  by (simp add: disconnected_paths_def path_of_def case_prod_unfold image_iff Bex_def) blast

lemma disconnected_paths_iff:
  assumes "cm_inv cm" "get_endpoint k cm = Some ep" "distinct (map path_of (connections ep))"
    and "ce \<in> set (connections ep)"
  shows "(k, path_of ce) \<in> set (disconnected_paths cm) \<longleftrightarrow> entry_state ce = Disconnected"
proof -
  have "(k, ep') \<in> set (endpoints cm) \<longleftrightarrow> ep' = ep" for ep'
    using map_of_eq_Some_iff [of "endpoints cm" k ep'] assms(1,2) by (auto simp: cm_inv_def hm_inv_def)
  then have "(k, path_of ce) \<in> set (disconnected_paths cm) \<longleftrightarrow>
      (\<exists>ce'\<in>set (connections ep). entry_state ce' = Disconnected \<and> path_of ce' = path_of ce)"
    by (simp add: set_disconnected_paths Bex_def)
  also have "\<dots> \<longleftrightarrow> entry_state ce = Disconnected"
  proof -
    have "ce' = ce" if "ce' \<in> set (connections ep)" "path_of ce' = path_of ce" for ce'
      using assms(3) that(2,1) assms(4) unfolding distinct_map by (blast dest: inj_onD)
    then show ?thesis using assms(4) by blast
  qed
  finally show ?thesis .
qed

lemma keep_connections_cong:
  "(\<And>ce. ce \<in> set (connections ep) \<Longrightarrow> P ce = Q ce) \<Longrightarrow> keep_connections P ep = keep_connections Q ep"
  by (simp add: keep_connections_def cong: filter_cong)

lemma remove_disconnected_get:
  assumes "cm_inv cm" "distinct_paths cm" "remove_disconnected cm = Inr cm'"
  shows "if disconnected_paths cm = [] then cm' = cm
     else (\<forall>k. get_endpoint k cm' =
         Option.bind (get_endpoint k cm) (keep_connections (\<lambda>ce. entry_state ce \<noteq> Disconnected))) \<and>
       routes cm' = filter (\<lambda>aem. get_endpoint (aem_endpoint_id aem) cm' \<noteq> None) (routes cm)"
proof (cases "disconnected_paths cm = []")
  case True
  then show ?thesis using assms(3) by (simp add: remove_disconnected_def)
next
  case False
  have "keep_connections (\<lambda>ce. (k, path_of ce) \<notin> set (disconnected_paths cm)) ep =
      keep_connections (\<lambda>ce. entry_state ce \<noteq> Disconnected) ep" if "get_endpoint k cm = Some ep" for k ep
    using disconnected_paths_iff [OF assms(1) that] assms(2) that
    by (intro keep_connections_cong) (simp add: distinct_paths_def)
  then have "Option.bind (get_endpoint k cm) (keep_connections (\<lambda>ce. (k, path_of ce) \<notin> set (disconnected_paths cm))) =
      Option.bind (get_endpoint k cm) (keep_connections (\<lambda>ce. entry_state ce \<noteq> Disconnected))" for k
    by (cases "get_endpoint k cm") simp_all
  then show ?thesis
    using remove_paths_get [OF False assms(1,2) assms(3) [unfolded remove_disconnected_def]] False
    by (simp del: not_None_eq)
qed

text \<open>If no endpoint is without connections, the case of nothing to remove needs no distinction.\<close>

lemma remove_disconnected_populated:
  assumes "cm_inv cm" "distinct_paths cm" "populated cm" "remove_disconnected cm = Inr cm'"
  shows "get_endpoint k cm' = Option.bind (get_endpoint k cm) (keep_connections (\<lambda>ce. entry_state ce \<noteq> Disconnected))"
    and "routes cm' = filter (\<lambda>aem. get_endpoint (aem_endpoint_id aem) cm' \<noteq> None) (routes cm)"
proof -
  note remove_disconnected_get [OF assms(1,2,4)]
  moreover have "(\<forall>k. get_endpoint k cm =
         Option.bind (get_endpoint k cm) (keep_connections (\<lambda>ce. entry_state ce \<noteq> Disconnected))) \<and>
       routes cm = filter (\<lambda>aem. get_endpoint (aem_endpoint_id aem) cm \<noteq> None) (routes cm)"
    if "disconnected_paths cm = []"
  proof
    show "\<forall>k. get_endpoint k cm =
         Option.bind (get_endpoint k cm) (keep_connections (\<lambda>ce. entry_state ce \<noteq> Disconnected))"
    proof
      fix k
      show "get_endpoint k cm =
         Option.bind (get_endpoint k cm) (keep_connections (\<lambda>ce. entry_state ce \<noteq> Disconnected))"
      proof (cases "get_endpoint k cm")
        case (Some ep)
        have "filter (\<lambda>ce. entry_state ce \<noteq> Disconnected) (connections ep) = connections ep"
          using disconnected_paths_iff [OF assms(1) Some] that assms(2) Some
          by (auto simp: distinct_paths_def intro: filter_True)
        then show ?thesis using Some assms(3)
          by (simp add: keep_connections_def Let_def populated_def hm_all_def has_connections_def)
      qed simp
    qed
    have "get_endpoint (aem_endpoint_id aem) cm \<noteq> None" if "aem \<in> set (routes cm)" for aem
      using assms(1) that by (auto simp: cm_inv_def route_targets_def)
    then show "routes cm = filter (\<lambda>aem. get_endpoint (aem_endpoint_id aem) cm \<noteq> None) (routes cm)"
      by (simp add: filter_True)
  qed
  ultimately show "get_endpoint k cm' = Option.bind (get_endpoint k cm) (keep_connections (\<lambda>ce. entry_state ce \<noteq> Disconnected))"
    and "routes cm' = filter (\<lambda>aem. get_endpoint (aem_endpoint_id aem) cm' \<noteq> None) (routes cm)"
    by (auto split: if_splits)
qed

section \<open>Properties\<close>

text \<open>
  C13: Cleaning up never panics.  If some connection is disconnected, then afterwards every
  endpoint has exactly its other connections, in order; an endpoint left without any is gone, and so
  are exactly the routes through the endpoints that are gone.  If none is disconnected nothing changes.
\<close>

theorem remove_disconnected_exact:
  assumes "cm_inv cm" and "distinct_paths cm"
  shows "\<exists>cm'. remove_disconnected cm = Inr cm' \<and>
    (if disconnected_paths cm = [] then cm' = cm
     else (\<forall>k. get_endpoint k cm' =
         Option.bind (get_endpoint k cm) (keep_connections (\<lambda>ce. entry_state ce \<noteq> Disconnected))) \<and>
       routes cm' = filter (\<lambda>aem. get_endpoint (aem_endpoint_id aem) cm' \<noteq> None) (routes cm))"
proof -
  obtain cm' where "remove_disconnected cm = Inr cm'"
    using remove_disconnected_outcome [OF assms(1)] by (auto simp: outcome_returns)
  then show ?thesis using remove_disconnected_get [OF assms] by blast
qed

text \<open>
  C26: Removing a connection never panics, and leaves no endpoint without connections: the connection
  named is gone, all others are kept in order, an endpoint left without any is forgotten with
  its routes.
\<close>

theorem remove_connection_exact:
  assumes "cm_inv cm" and "distinct_paths cm"
  shows "\<exists>cm'. remove_connection eid name addr cm = Inr cm' \<and> populated cm' \<and>
    (\<forall>k. get_endpoint k cm' = Option.bind (get_endpoint k cm)
       (keep_connections (\<lambda>ce. (k, interface_name ce, interface_address ce) \<noteq> (eid, name, addr)))) \<and>
    routes cm' = filter (\<lambda>aem. get_endpoint (aem_endpoint_id aem) cm' \<noteq> None) (routes cm)"
proof -
  obtain cm' where cm': "remove_connection eid name addr cm = Inr cm'" "populated cm'"
    using remove_connection_outcome [OF assms(1), of eid name addr] by (auto simp: outcome_returns)
  note get = remove_connection_get [OF assms cm'(1), unfolded path_of_def]
  show ?thesis
    by (rule exI [of _ cm'], intro conjI allI) (fact cm' get(1) get(2))+
qed

abbreviation demo_manager ::
  "(endpoint_id \<times> (instant option, nat \<times> packet list) endpoint) list \<Rightarrow> router \<Rightarrow>
    (instant option, nat \<times> packet list) connection_manager" where
  "demo_manager eps rs \<equiv> \<lparr>endpoints = eps, cm_local_address = V4 1 40000, own_id = 9, session_history = [77],
     routes = rs, tun_address = Inl 1, own_static_routes = None, cm_connection_timeout = 10,
     packet_sorter_deadline = 100\<rparr>"

abbreviation demo_route :: "endpoint_id \<Rightarrow> address_endpoint_mapping" where
  "demo_route eid \<equiv> \<lparr>aem_address = \<lparr>route_address = 0, subnet_mask = 0\<rparr>, aem_endpoint_id = eid\<rparr>"

definition two_endpoints :: "(instant option, nat \<times> packet list) connection_manager" where
  "two_endpoints = demo_manager
     [(1, demo_endpoint [demo_entry 3 ''veth1'' Disconnected, demo_entry 4 ''veth2'' Connected]),
      (2, (demo_endpoint [demo_entry 5 ''veth1'' Disconnected])\<lparr>ep_id := 2\<rparr>)]
     [demo_route 1, demo_route 2]"

lemma two_endpoints_inv: "cm_inv two_endpoints" "distinct_paths two_endpoints"
  by (simp_all add: two_endpoints_def cm_inv_def hm_inv_def hm_all_def endpoint_ok_def has_socket_def
      endpoint_new_def sorter_inv_new latency_inv_new route_targets_def router_inv_def defaults_last_def
      is_default_route_def distinct_paths_def path_of_def)

theorem remove_disconnected_exact_witness:
  "\<exists>cm'. remove_disconnected two_endpoints = Inr cm' \<and> get_endpoint 2 cm' = None \<and>
    map_option (map interface_name \<circ> connections) (get_endpoint 1 cm') = Some [''veth2''] \<and>
    routes cm' = [demo_route 1]"
proof -
  have "disconnected_paths two_endpoints \<noteq> []"
    by (simp add: two_endpoints_def disconnected_paths_def endpoint_new_def)
  then obtain cm' where *: "remove_disconnected two_endpoints = Inr cm'"
    "\<forall>k. get_endpoint k cm' = Option.bind (get_endpoint k two_endpoints)
       (keep_connections (\<lambda>ce. entry_state ce \<noteq> Disconnected))"
    "routes cm' = filter (\<lambda>aem. get_endpoint (aem_endpoint_id aem) cm' \<noteq> None) (routes two_endpoints)"
    using remove_disconnected_exact [OF two_endpoints_inv] by auto
  then show ?thesis
    by (simp add: two_endpoints_def keep_connections_def endpoint_new_def)
qed

theorem remove_connection_exact_witness:
  "\<exists>cm'. remove_connection 2 ''veth1'' (V4 2 40000) two_endpoints = Inr cm' \<and> populated cm' \<and>
    get_endpoint 2 cm' = None \<and> routes cm' = [demo_route 1]"
proof -
  obtain cm' where *: "remove_connection 2 ''veth1'' (V4 2 40000) two_endpoints = Inr cm'" "populated cm'"
    "\<forall>k. get_endpoint k cm' = Option.bind (get_endpoint k two_endpoints)
       (keep_connections (\<lambda>ce. (k, interface_name ce, interface_address ce) \<noteq> (2, ''veth1'', V4 2 40000)))"
    "routes cm' = filter (\<lambda>aem. get_endpoint (aem_endpoint_id aem) cm' \<noteq> None) (routes two_endpoints)"
    using remove_connection_exact [OF two_endpoints_inv] by blast
  then show ?thesis
    by (simp add: two_endpoints_def keep_connections_def endpoint_new_def)
qed

end
