(* ===== verification/Manager_Traffic.thy ===== *)
theory Manager_Traffic
  imports Manager_Removal
begin

text \<open>
  What the manager sends: the duplication of a packet from the tunnel over all enabled connections of
  every endpoint it is routed to.
\<close>

section \<open>One endpoint\<close>

definition on_enabled :: "'t connection_entry \<Rightarrow> bool" where
  "on_enabled ce \<longleftrightarrow> enabled (connection ce)"

text \<open>What the kernel's answer does to a connection a packet was sent on.\<close>

definition tun_outcome :: "nat io_result \<Rightarrow> 't connection_entry \<Rightarrow> 't connection_entry" where
  "tun_outcome r ce = (if r = Inl ConnectionRefused then set_state Disconnected ce else ce)"

lemma for_each_tun:
  "\<forall>ce\<in>set ces. has_socket ce \<Longrightarrow> for_each (tun_entry bytes) ces w =
    Inr (after_send on_enabled tun_outcome (send_answers bytes w) (length (w_trace w)) ces,
      w\<lparr>w_trace := w_trace w @ sends bytes on_enabled ces\<rparr>)"
  by (rule for_each_send)
    (auto simp: tun_entry_def is_enabled_def on_enabled_def has_socket_def connection_write_eq
      tun_outcome_def send_answers_def split: sum.split)

definition tun_packet :: "('t, 'c) deps \<Rightarrow> u8 list \<Rightarrow> ('t, 'c) endpoint \<Rightarrow> u8 list" where
  "tun_packet X bytes ep =
    the (bincode_serialize X (Packet \<lparr>pkt_seq = tx_counter ep, pkt_id = ep_id ep, pkt_bytes = bytes\<rparr>))"

text \<open>The calls one packet causes for an endpoint, and the endpoint after them.\<close>

definition tun_sends :: "('t, 'c) deps \<Rightarrow> u8 list \<Rightarrow> ('t, 'c) endpoint \<Rightarrow> syscall list" where
  "tun_sends X bytes ep = sends (tun_packet X bytes ep) on_enabled (connections ep)"

definition tun_sent ::
  "('t, 'c) deps \<Rightarrow> u8 list \<Rightarrow> world \<Rightarrow> nat \<Rightarrow> ('t, 'c) endpoint \<Rightarrow> ('t, 'c) endpoint" where
  "tun_sent X bytes w n ep = ep\<lparr>tx_counter := tx_counter ep + 1,
     connections := after_send on_enabled tun_outcome (send_answers (tun_packet X bytes ep) w) n (connections ep)\<rparr>"

lemma tun_sent_trace [simp]: "tun_sent X bytes (w\<lparr>w_trace := t\<rparr>) = tun_sent X bytes w"
  by (simp add: tun_sent_def fun_eq_iff)

lemma tun_to_endpoint_eq:
  assumes "serializes X" "cm_inv cm" "get_endpoint eid cm = Some ep"
  shows "tun_to_endpoint X bytes eid cm w =
    Inr (set_endpoint eid (tun_sent X bytes w (length (w_trace w)) ep) cm,
      w\<lparr>w_trace := w_trace w @ tun_sends X bytes ep\<rparr>)"
proof -
  obtain ser where ser: "bincode_serialize X (Packet \<lparr>pkt_seq = tx_counter ep, pkt_id = ep_id ep, pkt_bytes = bytes\<rparr>) = Some ser"
    using serializesD [OF assms(1)] by blast
  have s: "\<forall>ce\<in>set (connections ep). has_socket ce"
    using cm_inv_get [OF assms(2,3)] by (simp add: endpoint_ok_def)
  show ?thesis
    using ser assms(3) for_each_tun [OF s]
    by (simp add: tun_to_endpoint_def tun_sends_def tun_packet_def tun_sent_def Let_def)
qed

section \<open>All endpoints of a route\<close>

lemma tun_loop_eq:
  assumes "serializes X"
  shows "cm_inv cm \<Longrightarrow> distinct eids \<Longrightarrow> set eids \<subseteq> dom (hm_get (endpoints cm)) \<Longrightarrow>
    \<exists>cm' w'. tun_loop X bytes eids cm w = Inr (cm', w') \<and>
      w_trace w' = w_trace w @ concat (map (\<lambda>eid. tun_sends X bytes (the (get_endpoint eid cm))) eids) \<and>
      w_answer w' = w_answer w \<and> routes cm' = routes cm \<and>
      (\<forall>k. k \<notin> set eids \<longrightarrow> get_endpoint k cm' = get_endpoint k cm) \<and>
      (\<forall>k\<in>set eids. \<exists>n. get_endpoint k cm' = map_option (tun_sent X bytes w n) (get_endpoint k cm))"
proof (induction eids arbitrary: cm w)
  case (Cons eid eids)
  then obtain ep where ep: "get_endpoint eid cm = Some ep" by auto
  let ?cm = "set_endpoint eid (tun_sent X bytes w (length (w_trace w)) ep) cm"
  let ?w = "w\<lparr>w_trace := w_trace w @ tun_sends X bytes ep\<rparr>"
  have 1: "tun_to_endpoint X bytes eid cm w = Inr (?cm, ?w)"
    by (rule tun_to_endpoint_eq [OF assms Cons.prems(1) ep])
  have inv: "cm_inv ?cm"
    using tun_to_endpoint_outcome [OF assms Cons.prems(1) ep, where bytes = bytes and w = w] by (simp add: 1 keeps_def)
  have others: "get_endpoint k ?cm = get_endpoint k cm" if "k \<in> set eids" for k
    using that Cons.prems(2) by auto
  have d: "set eids \<subseteq> dom (hm_get (endpoints ?cm))"
    using Cons.prems(3) others by (auto simp del: get_set_endpoint)
  then obtain cm' w' where 2: "tun_loop X bytes eids ?cm ?w = Inr (cm', w')"
    "w_trace w' = w_trace ?w @ concat (map (\<lambda>eid. tun_sends X bytes (the (get_endpoint eid ?cm))) eids)"
    "w_answer w' = w_answer ?w" "routes cm' = routes ?cm"
    "\<forall>k. k \<notin> set eids \<longrightarrow> get_endpoint k cm' = get_endpoint k ?cm"
    "\<forall>k\<in>set eids. \<exists>n. get_endpoint k cm' = map_option (tun_sent X bytes ?w n) (get_endpoint k ?cm)"
    using Cons.IH [OF inv distinct_tl [OF Cons.prems(2), simplified] d, of ?w] by blast
  have m: "map (\<lambda>eid. tun_sends X bytes (the (get_endpoint eid ?cm))) eids =
      map (\<lambda>eid. tun_sends X bytes (the (get_endpoint eid cm))) eids"
    using others by (intro map_cong) (simp_all del: get_set_endpoint)
  have nin: "eid \<notin> set eids" using Cons.prems(2) by simp
  have self: "get_endpoint eid ?cm = map_option (tun_sent X bytes w (length (w_trace w))) (get_endpoint eid cm)"
    by (simp add: ep)
  have rest: "get_endpoint k ?cm = get_endpoint k cm" if "k \<noteq> eid" for k
    using that by simp
  show ?case
  proof (intro exI conjI)
    show "tun_loop X bytes (eid # eids) cm w = Inr (cm', w')" using 1 2(1) by simp
    show "w_trace w' = w_trace w @ concat (map (\<lambda>eid. tun_sends X bytes (the (get_endpoint eid cm))) (eid # eids))"
      using 2(2) m ep by (simp del: get_set_endpoint)
    show "w_answer w' = w_answer w" "routes cm' = routes cm" using 2(3,4) by simp_all
    show "\<forall>k. k \<notin> set (eid # eids) \<longrightarrow> get_endpoint k cm' = get_endpoint k cm"
      using 2(5) rest by (simp del: get_set_endpoint)
    show "\<forall>k\<in>set (eid # eids). \<exists>n. get_endpoint k cm' = map_option (tun_sent X bytes w n) (get_endpoint k cm)"
      using 2(5,6) nin self others by (simp del: get_set_endpoint) blast
  qed
qed simp

text \<open>
  C6: A packet read from the tunnel is numbered with the counter of each endpoint its destination
  is routed to, and sent once, byte for byte the same, on every enabled connection of that endpoint and on no other,
  endpoint after endpoint in the order of the lookup.  The counter of each of these endpoints grows by
  one whatever the kernel answers; only a refused connection becomes disconnected, all other endpoints and
  the routes stay as they are, and nothing panics.
\<close>

theorem tunnel_packet_is_duplicated:
  assumes "serializes X" and "cm_inv cm" and "slice_from_ip X bytes = SliceIpv4 destination"
  shows "\<exists>cm' w'. handle_packet_from_tun X bytes cm w = Inr (cm', w') \<and>
    w_trace w' = w_trace w @ concat (map (\<lambda>eid. tun_sends X bytes (the (get_endpoint eid cm)))
      (router_lookup (routes cm) destination)) \<and>
    routes cm' = routes cm \<and>
    (\<forall>k. if k \<in> set (router_lookup (routes cm) destination)
      then \<exists>n. get_endpoint k cm' = map_option (tun_sent X bytes w n) (get_endpoint k cm)
      else get_endpoint k cm' = get_endpoint k cm)"
proof -
  have "set (router_lookup (routes cm) destination) \<subseteq> dom (hm_get (endpoints cm))"
    using rt.find_targets [of "routes cm" destination] assms(2) by (auto simp: cm_inv_def)
  from tun_loop_eq [OF assms(1,2) rt.distinct_find this, where bytes = bytes and w = w]
  show ?thesis using assms(3) by (auto simp: handle_packet_from_tun_def get_route_def)
qed

definition demo_deps :: "(instant option, nat \<times> packet list) deps" where
  "demo_deps = ref_deps\<lparr>slice_from_ip := (\<lambda>bs. SliceIpv4 (0x0A0C0002)),
     bincode_serialize := (\<lambda>m. Some (case m of Packet p \<Rightarrow> ucast (pkt_seq p) # pkt_bytes p | Hello h \<Rightarrow> [1] | HelloAck a \<Rightarrow> [2])),
     bincode_deserialize := (\<lambda>bs.
        if bs = [] then None
        else if bs = [1] then Some (Hello
          \<lparr>hello_id = 1, hello_session_id = 78, hello_static_routes = None, hello_seq = 0\<rparr>)
        else if bs = [2] then Some (HelloAck \<lparr>ack_id = 1, ack_session_id = 77,
          ack_static_routes = Some [\<lparr>route_address = 0x0A0C0000, subnet_mask = 0xFFFF0000\<rparr>], ack_seq = 0\<rparr>)
        else if bs = [3] then Some (Hello
          \<lparr>hello_id = 5, hello_session_id = 79, hello_static_routes = None, hello_seq = 0\<rparr>)
        else Some (Packet \<lparr>pkt_seq = ucast (hd bs), pkt_id = 1, pkt_bytes = tl bs\<rparr>))\<rparr>"

lemma demo_timer_laws: "timer_laws demo_deps id"
  using ref_timer_laws by (simp add: timer_laws_def demo_deps_def)

lemma demo_serializes: "serializes demo_deps"
  by (simp add: serializes_def demo_deps_def)

theorem tunnel_packet_is_duplicated_witness:
  "\<exists>cm' w'. handle_packet_from_tun demo_deps [7, 8] two_endpoints (demo_world (\<lambda>c. Inr)) = Inr (cm', w') \<and>
    w_trace w' = [Send 3 [0, 7, 8], Send 4 [0, 7, 8], Send 5 [0, 7, 8]]"
proof -
  have d: "slice_from_ip demo_deps [7, 8] = SliceIpv4 0x0A0C0002" by (simp add: demo_deps_def)
  have l: "router_lookup (routes two_endpoints) 0x0A0C0002 = [1, 2]"
    by (simp add: two_endpoints_def router_lookup_def reachable_from_def calculate_network_address_def)
  from tunnel_packet_is_duplicated [OF demo_serializes two_endpoints_inv(1) d, of "demo_world (\<lambda>c. Inr)"]
  show ?thesis
    by (auto simp: l) (simp add: two_endpoints_def endpoint_new_def tun_sends_def tun_packet_def
        demo_deps_def sends_def on_enabled_def fd_of_def)
qed

section \<open>Numbers on the wire\<close>

text \<open>The loop reading packets from the tunnel.\<close>

fun tun_run :: "('t, 'c) deps \<Rightarrow> u8 list list \<Rightarrow> ('t, 'c) connection_manager \<Rightarrow> world \<Rightarrow> ('t, 'c) step" where
  "tun_run X [] cm w = Inr (cm, w)"
| "tun_run X (bytes # bss) cm w =
    bindR (handle_packet_from_tun X bytes cm w) (\<lambda>(cm, w). tun_run X bss cm w)"

text \<open>How many of the packets are routed to an endpoint.\<close>

definition routed_to :: "('t, 'c) deps \<Rightarrow> router \<Rightarrow> endpoint_id \<Rightarrow> u8 list \<Rightarrow> bool" where
  "routed_to X rs k bytes \<longleftrightarrow>
    (\<exists>a. slice_from_ip X bytes = SliceIpv4 a \<and> k \<in> set (router_lookup rs a))"

lemma handle_packet_from_tun_counter:
  assumes "serializes X" "cm_inv cm"
  shows "\<exists>cm' w'. handle_packet_from_tun X bytes cm w = Inr (cm', w') \<and> cm_inv cm' \<and> routes cm' = routes cm \<and>
    (\<forall>k. map_option tx_counter (get_endpoint k cm') = map_option
      (\<lambda>ep. tx_counter ep + (if routed_to X (routes cm) k bytes then 1 else 0)) (get_endpoint k cm))"
proof (cases "slice_from_ip X bytes")
  case (SliceIpv4 a)
  have s: "set (router_lookup (routes cm) a) \<subseteq> dom (hm_get (endpoints cm))"
    using rt.find_targets [of "routes cm" a] assms(2) by (auto simp: cm_inv_def)
  obtain cm' w' where 1: "tun_loop X bytes (router_lookup (routes cm) a) cm w = Inr (cm', w')"
    "routes cm' = routes cm"
    "\<forall>k. k \<notin> set (router_lookup (routes cm) a) \<longrightarrow> get_endpoint k cm' = get_endpoint k cm"
    "\<forall>k\<in>set (router_lookup (routes cm) a). \<exists>n. get_endpoint k cm' = map_option (tun_sent X bytes w n) (get_endpoint k cm)"
    using tun_loop_eq [OF assms rt.distinct_find s, where bytes = bytes and w = w] by blast
  have "cm_inv cm'" using tun_loop_outcome [OF assms s, where bytes = bytes and w = w] by (simp add: 1 keeps_def)
  moreover have "map_option tx_counter (get_endpoint k cm') = map_option
      (\<lambda>ep. tx_counter ep + (if routed_to X (routes cm) k bytes then 1 else 0)) (get_endpoint k cm)" for k
  proof (cases "k \<in> set (router_lookup (routes cm) a)")
    case True
    then obtain n where "get_endpoint k cm' = map_option (tun_sent X bytes w n) (get_endpoint k cm)"
      using 1(4) by blast
    then show ?thesis using True SliceIpv4
      by (simp add: routed_to_def option.map_comp o_def tun_sent_def)
  next
    case False
    then show ?thesis using 1(3) SliceIpv4 by (simp add: routed_to_def)
  qed
  ultimately show ?thesis
    using 1 SliceIpv4 by (simp add: handle_packet_from_tun_def get_route_def)
qed (simp_all add: handle_packet_from_tun_def get_route_def assms routed_to_def)

text \<open>
  After any sequence of packets read from the tunnel, the counter of an endpoint has grown by
  exactly the number of packets routed to it (modulo \<open>2 ^ 64\<close>): the numbers an endpoint receives are
  consecutive, without a gap for packets that went elsewhere or could not be sent.
\<close>

lemma tunnel_numbers_are_consecutive:
  assumes "serializes X" and "cm_inv cm" and "get_endpoint k cm = Some ep"
  shows "\<exists>cm' w' ep'. tun_run X bss cm w = Inr (cm', w') \<and> get_endpoint k cm' = Some ep' \<and>
    tx_counter ep' = tx_counter ep + of_nat (length (filter (routed_to X (routes cm) k) bss))"
  using assms(2,3)
proof (induction bss arbitrary: cm w ep)
  case (Cons bytes bss)
  obtain cm1 w1 where 1: "handle_packet_from_tun X bytes cm w = Inr (cm1, w1)" "cm_inv cm1" "routes cm1 = routes cm"
    and c: "map_option tx_counter (get_endpoint k cm1) = map_option
      (\<lambda>ep. tx_counter ep + (if routed_to X (routes cm) k bytes then 1 else 0)) (get_endpoint k cm)"
    using handle_packet_from_tun_counter [OF assms(1) Cons.prems(1), where bytes = bytes and w = w] by blast
  then obtain ep1 where "get_endpoint k cm1 = Some ep1"
    "tx_counter ep1 = tx_counter ep + (if routed_to X (routes cm) k bytes then 1 else 0)"
    using Cons.prems(2) by auto
  then show ?case using Cons.IH [OF 1(2), of ep1 w1] 1 by auto
qed simp

lemma tunnel_numbers_are_consecutive_witness:
  "\<exists>cm' w' ep'. tun_run demo_deps [[7], [8], [9]] two_endpoints (demo_world (\<lambda>c n. Inl NetworkUnreachable)) =
      Inr (cm', w') \<and> get_endpoint 2 cm' = Some ep' \<and> tx_counter ep' = 3"
proof -
  have r: "routed_to demo_deps (routes two_endpoints) 2 bs" for bs
    by (simp add: routed_to_def demo_deps_def two_endpoints_def router_lookup_def reachable_from_def
        calculate_network_address_def)
  have g: "get_endpoint 2 two_endpoints = Some ((demo_endpoint [demo_entry 5 ''veth1'' Disconnected])\<lparr>ep_id := 2\<rparr>)"
    by (simp add: two_endpoints_def)
  from tunnel_numbers_are_consecutive [OF demo_serializes two_endpoints_inv(1) g, of "[[7], [8], [9]]"
      "demo_world (\<lambda>c n. Inl NetworkUnreachable)"]
  show ?thesis by (simp add: r endpoint_new_def)
qed

end
