(* ===== verification/Manager_Sessions.thy ===== *)
theory Manager_Sessions
  imports Manager_Traffic
begin

text \<open>
  Hellos and their acknowledgements: which sessions the manager accepts, and the states a connection
  goes through.
\<close>

section \<open>One hello\<close>

lemma handle_hello_none [simp]:
  "bincode_deserialize X message = None \<Longrightarrow> handle_hello X message addr name cm w = Inr (cm, w)"
  by (simp add: handle_hello_def)

lemma session_add_connection:
  "add_connection X a n l t ep w = Inr (r, ep', w') \<Longrightarrow> session_id ep' = session_id ep"
  using add_connection_grown [of w ep X a n l t] by (simp add: grown_def)

text \<open>Every session an endpoint is in has been recorded.\<close>

definition sessions_recorded :: "('t, 'c) connection_manager \<Rightarrow> bool" where
  "sessions_recorded cm \<longleftrightarrow> hm_all (\<lambda>k ep. session_id ep \<in> set (session_history cm)) (endpoints cm)"

text \<open>
  What one message does to sessions: those recorded stay recorded, and an endpoint is in its old session
  or in one that had not been recorded.
\<close>

definition session_step :: "('t, 'c) connection_manager \<Rightarrow> ('t, 'c) connection_manager \<Rightarrow> bool" where
  "session_step cm cm' \<longleftrightarrow> (\<exists>new. session_history cm' = session_history cm @ new) \<and>
    (\<forall>k ep. get_endpoint k cm = Some ep \<longrightarrow> (\<exists>ep'. get_endpoint k cm' = Some ep' \<and>
      (session_id ep' = session_id ep \<or> session_id ep' \<notin> set (session_history cm))))"

lemma session_step_refl: "session_step cm cm"
  by (auto simp: session_step_def)

lemma session_step_trans:
  assumes "session_step a b" "session_step b c"
  shows "session_step a c"
  unfolding session_step_def
proof (intro conjI allI impI)
  show "\<exists>new. session_history c = session_history a @ new"
    using assms by (auto simp: session_step_def)
  fix k ep assume "get_endpoint k a = Some ep"
  then obtain ep1 where 1: "get_endpoint k b = Some ep1"
    "session_id ep1 = session_id ep \<or> session_id ep1 \<notin> set (session_history a)"
    using assms(1) by (auto simp: session_step_def)
  then obtain ep2 where "get_endpoint k c = Some ep2"
    "session_id ep2 = session_id ep1 \<or> session_id ep2 \<notin> set (session_history b)"
    using assms(2) by (auto simp: session_step_def)
  moreover have "set (session_history a) \<subseteq> set (session_history b)"
    using assms(1) by (auto simp: session_step_def)
  ultimately show "\<exists>ep'. get_endpoint k c = Some ep' \<and>
      (session_id ep' = session_id ep \<or> session_id ep' \<notin> set (session_history a))"
    using 1(2) by auto
qed

text \<open>The fields that accepting a path leaves alone.\<close>

definition ep_frame :: "('t, 'c) endpoint \<Rightarrow> ('t, 'c) endpoint \<Rightarrow> bool" where
  "ep_frame ep ep' \<longleftrightarrow> session_id ep' = session_id ep \<and> tx_counter ep' = tx_counter ep \<and>
    packet_sorter ep' = packet_sorter ep \<and> hello_path_latency ep' = hello_path_latency ep \<and>
    hello_ack_path_latency ep' = hello_ack_path_latency ep"

lemma ep_frame_trans: "ep_frame a b \<Longrightarrow> ep_frame b c \<Longrightarrow> ep_frame a c"
  by (simp add: ep_frame_def)

lemma add_connection_frame: "add_connection X a n l t ep w = Inr (r, ep', w') \<Longrightarrow> ep_frame ep ep'"
  by (auto simp: add_connection_def ep_frame_def bindR_eq_Inr split: if_splits prod.splits sum.splits)

lemma acknowledge_frame: "acknowledge X own sid rs ep w = Inr (ep', w') \<Longrightarrow> ep_frame ep ep'"
  by (auto simp: acknowledge_def ep_frame_def bindR_eq_Inr Let_def)

lemma accept_path_frame:
  assumes "accept_path X addr name cm ep w = Inr (ep', w')"
  shows "ep_frame ep ep'"
proof -
  obtain r ep1 w1 where 1: "add_connection X addr name (cm_local_address cm) (cm_connection_timeout cm) ep w = Inr (r, ep1, w1)"
    using assms by (auto simp: accept_path_def bindR_eq_Inr)
  then show ?thesis
    using assms add_connection_frame [OF 1]
    by (cases r) (auto simp: accept_path_def bindR_eq_Inr dest!: acknowledge_frame intro: ep_frame_trans)
qed

text \<open>The result of a hello that is not refused.\<close>

lemma handle_hello_accepted:
  assumes "bincode_deserialize X message = Some (Hello h)"
    and "get_endpoint (hello_id h) (ensure_endpoint X (w_now w) h cm) = Some ep"
    and "admit_session X (w_now w) h ep (ensure_endpoint X (w_now w) h cm) = Some (ep1, history)"
    and "handle_hello X message addr name cm w = Inr (cm', w')"
  shows "\<exists>ep2. cm' = (set_endpoint (hello_id h) ep2 (ensure_endpoint X (w_now w) h cm))
        \<lparr>session_history := history,
         routes := learn_routes (hello_static_routes h) (hello_id h) (routes cm)\<rparr> \<and>
    session_id ep2 = hello_session_id h \<and>
    accept_path X addr name (ensure_endpoint X (w_now w) h cm) ep1 w = Inr (ep2, w')"
proof -
  let ?cm = "ensure_endpoint X (w_now w) h cm"
  have s: "session_id ep1 = hello_session_id h"
    using assms(3) by (auto simp: admit_session_def endpoint_new_def split: if_splits)
  obtain ep2 where a: "accept_path X addr name ?cm ep1 w = Inr (ep2, w')"
    and "cm' = (set_endpoint (hello_id h) ep2 ?cm)\<lparr>session_history := history,
         routes := learn_routes (hello_static_routes h) (hello_id h) (routes cm)\<rparr>"
    using assms by (auto simp: handle_hello_def Let_def bindR_eq_Inr)
  then show ?thesis using accept_path_frame [OF a] s by (auto simp: ep_frame_def)
qed

lemma handle_hello_session_step:
  assumes "handle_hello X message addr name cm w = Inr (cm', w')"
  shows "session_step cm cm' \<and> (sessions_recorded cm \<longrightarrow> sessions_recorded cm')"
proof (cases "\<exists>h. bincode_deserialize X message = Some (Hello h)")
  case False
  then have "cm' = cm" using assms by (auto simp: handle_hello_def split: option.splits messages.splits)
  then show ?thesis by (simp add: session_step_refl)
next
  case True
  then obtain h where h: "bincode_deserialize X message = Some (Hello h)" by blast
  let ?cm = "ensure_endpoint X (w_now w) h cm"
  obtain ep where ep: "get_endpoint (hello_id h) ?cm = Some ep"
    using ensure_endpoint_present by blast
  have ens: "session_step cm ?cm" "sessions_recorded cm \<longrightarrow> sessions_recorded ?cm"
    by (auto simp: session_step_def ensure_endpoint_def hm_contains_key_def sessions_recorded_def
        hm_all_def endpoint_new_def)
  show ?thesis
  proof (cases "admit_session X (w_now w) h ep ?cm")
    case None
    then have "cm' = ?cm" using assms h ep by (auto simp: handle_hello_def)
    then show ?thesis using ens by simp
  next
    case (Some x)
    then obtain ep1 history where adm: "admit_session X (w_now w) h ep ?cm = Some (ep1, history)"
      by (cases x) auto
    obtain ep2 where cm': "cm' = (set_endpoint (hello_id h) ep2 ?cm)\<lparr>session_history := history,
        routes := learn_routes (hello_static_routes h) (hello_id h) (routes cm)\<rparr>"
      and s: "session_id ep2 = hello_session_id h"
      using handle_hello_accepted [OF h ep adm assms] by auto
    have rec: "session_id ep \<in> set (session_history ?cm)" if "sessions_recorded cm"
      using ens(2) ep that unfolding sessions_recorded_def hm_all_def by blast
    have hist: "\<exists>new. history = session_history ?cm @ new" "sessions_recorded cm \<longrightarrow> session_id ep2 \<in> set history"
      "session_id ep2 = session_id ep \<or> session_id ep2 \<notin> set (session_history ?cm)"
      using adm rec s by (auto simp: admit_session_def split: if_splits)
    have get: "get_endpoint k cm' = (if k = hello_id h then Some ep2 else get_endpoint k ?cm)" for k
      by (simp add: cm' set_endpoint_def hm.get_put)
    have h': "session_history cm' = history" by (simp add: cm')
    have "session_step ?cm cm'"
      using hist(1,3) ep by (auto simp: session_step_def get h')
    moreover have "sessions_recorded cm'" if "sessions_recorded cm"
    proof -
      have "sessions_recorded ?cm" using ens(2) that by blast
      then show ?thesis
        using hist(1) hist(2) that by (auto simp: sessions_recorded_def hm_all_def get h')
    qed
    ultimately show ?thesis using session_step_trans [OF ens(1)] by blast
  qed
qed

text \<open>
  C23: A hello that names a session used before, other than the endpoint's present one, is refused: the
  manager is unchanged and no system call is made.
\<close>

theorem replayed_session_is_refused:
  assumes "bincode_deserialize X message = Some (Hello h)"
    and "get_endpoint (hello_id h) cm = Some ep"
    and "session_id ep \<noteq> hello_session_id h" and "hello_session_id h \<in> set (session_history cm)"
  shows "handle_hello X message addr name cm w = Inr (cm, w)"
  using assms by (simp add: handle_hello_def ensure_endpoint_def hm_contains_key_def admit_session_def)

text \<open>The demonstration manager again, with two sessions used: 77, now current, and 78.\<close>

definition two_sessions :: "(instant option, nat \<times> packet list) connection_manager" where
  "two_sessions = two_endpoints\<lparr>session_history := [78, 77]\<rparr>"

theorem replayed_session_is_refused_witness:
  "handle_hello demo_deps [1] (V4 3 5) ''DYN-interface'' two_sessions (demo_world (\<lambda>c. Inr)) = Inr (two_sessions, demo_world (\<lambda>c. Inr))"
  by (rule replayed_session_is_refused [where
      h = "\<lparr>hello_id = 1, hello_session_id = 78, hello_static_routes = None, hello_seq = 0\<rparr>"
      and ep = "demo_endpoint [demo_entry 3 ''veth1'' Disconnected, demo_entry 4 ''veth2'' Connected]"])
    (simp_all add: demo_deps_def two_sessions_def two_endpoints_def endpoint_new_def)

section \<open>Starting afresh\<close>

text \<open>What accepting a first path makes of an endpoint without connections.\<close>

definition first_connections :: "sockaddr \<Rightarrow> string \<Rightarrow> sockaddr \<Rightarrow> world \<Rightarrow> 't connection_entry list \<Rightarrow> bool" where
  "first_connections local_addr name addr w ces \<longleftrightarrow>
    (if open_fails local_addr addr w then ces = []
     else \<exists>ce. ces = [ce] \<and> first_path name addr ce \<and> entry_state ce \<noteq> Startup)"

text \<open>How many acknowledgements were numbered.\<close>

definition first_acks :: "sockaddr \<Rightarrow> sockaddr \<Rightarrow> world \<Rightarrow> u64" where
  "first_acks local_addr addr w = (if open_fails local_addr addr w then 1 else 2)"

lemma acknowledge_empty:
  "serializes X \<Longrightarrow> connections ep = [] \<Longrightarrow>
    acknowledge X own sid rs ep w = Inr (ep\<lparr>hello_ack_counter := hello_ack_counter ep + 1, connections := []\<rparr>, w)"
  by (elim serializesD [where m = "HelloAck \<lparr>ack_id = own, ack_session_id = sid,
      ack_static_routes = rs, ack_seq = hello_ack_counter ep\<rparr>"]) (simp add: acknowledge_def)

lemma acknowledge_first:
  assumes "serializes X" "connections ep = [ce]" "first_path name addr ce"
  shows "\<exists>ce' w'. acknowledge X own sid rs ep w =
      Inr (ep\<lparr>hello_ack_counter := hello_ack_counter ep + 1, connections := [ce']\<rparr>, w') \<and>
    extends w w' \<and> first_path name addr ce' \<and> entry_state ce' \<noteq> Startup"
proof -
  obtain bytes where b: "bincode_serialize X (HelloAck \<lparr>ack_id = own, ack_session_id = sid,
      ack_static_routes = rs, ack_seq = hello_ack_counter ep\<rparr>) = Some bytes"
    using serializesD [OF assms(1)] by blast
  obtain ce' w' where "ack_entry bytes ce w = Inr (ce', w')" "extends w w'" "first_path name addr ce'"
    "entry_state ce' \<noteq> Startup"
    using ack_entry_first_path [OF assms(3)] by blast
  then show ?thesis using b assms(2) by (auto simp: acknowledge_def)
qed

lemma accept_first_path:
  assumes "serializes X" "connections ep = []"
  shows "if naming_fails (cm_local_address cm) addr w then accept_path X addr name cm ep w = Inl UnwrapErr
    else \<exists>ces w'. accept_path X addr name cm ep w = Inr (ep\<lparr>connections := ces,
        hello_ack_counter := hello_ack_counter ep + first_acks (cm_local_address cm) addr w\<rparr>, w') \<and>
      extends w w' \<and> first_connections (cm_local_address cm) name addr w ces"
proof (cases "naming_fails (cm_local_address cm) addr w")
  case True
  then show ?thesis
    using add_connection_cases [of ep addr name X "cm_local_address cm" "cm_connection_timeout cm" w] assms(2)
    by (simp add: accept_path_def)
next
  case False
  obtain r ep1 w1 where a: "add_connection X addr name (cm_local_address cm) (cm_connection_timeout cm) ep w = Inr (r, ep1, w1)"
    and e: "extends w w1" and d: "added addr name ep r ep1" and o: "isl r = open_fails (cm_local_address cm) addr w"
    using add_connection_cases [of ep addr name X "cm_local_address cm" "cm_connection_timeout cm" w] assms(2) False by auto
  show ?thesis
  proof (cases r)
    case (Inl x)
    then have "ep1 = ep" using d by (simp add: added_def)
    then show ?thesis
      using a e o Inl acknowledge_empty [OF assms] assms(2) False
      by (simp add: accept_path_def first_connections_def first_acks_def)
  next
    case (Inr u)
    then obtain c where c: "fresh_dynamic addr c" "ep1 = ep\<lparr>connections :=
        [\<lparr>interface_name = name, interface_address = addr, connection = c\<rparr>]\<rparr>"
      using d assms(2) by (auto simp: added_def)
    let ?ce = "\<lparr>interface_name = name, interface_address = addr, connection = c\<rparr>"
    have f: "first_path name addr ?ce" using c(1) by (simp add: first_path_def fresh_dynamic_def has_socket_def)
    obtain ce2 w2 where 2: "acknowledge X (own_id cm) (session_id ep1) (own_static_routes cm) ep1 w1 =
        Inr (ep1\<lparr>hello_ack_counter := hello_ack_counter ep1 + 1, connections := [ce2]\<rparr>, w2)"
      "extends w1 w2" "first_path name addr ce2"
      using acknowledge_first [OF assms(1) _ f, of ep1 "own_id cm" "session_id ep1" "own_static_routes cm" w1] c(2)
      by auto
    let ?ep2 = "ep1\<lparr>hello_ack_counter := hello_ack_counter ep1 + 1, connections := [ce2]\<rparr>"
    obtain ce3 w3 where 3: "acknowledge X (own_id cm) (session_id ?ep2) (own_static_routes cm) ?ep2 w2 =
        Inr (?ep2\<lparr>hello_ack_counter := hello_ack_counter ?ep2 + 1, connections := [ce3]\<rparr>, w3)"
      "extends w2 w3" "first_path name addr ce3" "entry_state ce3 \<noteq> Startup"
      using acknowledge_first [OF assms(1) _ 2(3), of ?ep2 "own_id cm" "session_id ?ep2" "own_static_routes cm" w2]
      by auto
    have "?ep2\<lparr>hello_ack_counter := hello_ack_counter ?ep2 + 1, connections := [ce3]\<rparr> =
        ep\<lparr>connections := [ce3], hello_ack_counter := hello_ack_counter ep + 2\<rparr>" by (simp add: c(2))
    moreover have "extends w w3" using e 2(2) 3(2) by (blast intro: extends_trans)
    ultimately show ?thesis
      using a o Inr 2(1) 3 False by (auto simp: accept_path_def first_connections_def first_acks_def)
  qed
qed

lemma endpoint_new_start:
  "connections (endpoint_new X now k s d) = []" "hello_ack_counter (endpoint_new X now k s d) = 0"
  "session_id (endpoint_new X now k s d) = s" "tx_counter (endpoint_new X now k s d) = 0"
  "next_seq (packet_sorter (endpoint_new X now k s d)) = 0"
  by (simp_all add: endpoint_new_def packet_sorter_new_def)

text \<open>The endpoint that a session starts with.\<close>

definition fresh_endpoint ::
  "('t, 'c) deps \<Rightarrow> hello \<Rightarrow> sockaddr \<Rightarrow> ('t, 'c) connection_manager \<Rightarrow> world \<Rightarrow> 't connection_entry list \<Rightarrow> ('t, 'c) endpoint" where
  "fresh_endpoint X h addr cm w ces =
    (endpoint_new X (w_now w) (hello_id h) (hello_session_id h) (packet_sorter_deadline cm))
      \<lparr>connections := ces, hello_ack_counter := first_acks (cm_local_address cm) addr w\<rparr>"

text \<open>
  C22: A hello with a session that has not been used starts a registered endpoint afresh.  Unless the kernel
  refuses to name the new socket, which panics, the endpoint becomes what \<open>endpoint_new\<close> makes, so that every
  counter, the sorter with its channel and both tables of timestamps are those of a new endpoint and nothing of the old
  one is left; of that, only the connections and the acknowledgements numbered on them are then added: one connection, to the sender, confirmed or
  given up, and 2, or no connection and 1 when the socket could not be opened.  The session is
  recorded, the announced routes are learnt, and nothing else of the manager changes.
\<close>

theorem new_session_starts_afresh:
  assumes "serializes X" and "bincode_deserialize X message = Some (Hello h)"
    and "get_endpoint (hello_id h) cm = Some ep" and "session_id ep \<noteq> hello_session_id h"
    and "hello_session_id h \<notin> set (session_history cm)"
  shows "if naming_fails (cm_local_address cm) addr w then handle_hello X message addr name cm w = Inl UnwrapErr
    else \<exists>ces w'. handle_hello X message addr name cm w =
        Inr ((set_endpoint (hello_id h) (fresh_endpoint X h addr cm w ces) cm)
          \<lparr>session_history := session_history cm @ [hello_session_id h],
           routes := learn_routes (hello_static_routes h) (hello_id h) (routes cm)\<rparr>, w') \<and>
      extends w w' \<and> first_connections (cm_local_address cm) name addr w ces"
proof -
  let ?new = "endpoint_new X (w_now w) (hello_id h) (hello_session_id h) (packet_sorter_deadline cm)"
  have "ensure_endpoint X (w_now w) h cm = cm" using assms(3) by (simp add: ensure_endpoint_def hm_contains_key_def)
  moreover have "admit_session X (w_now w) h ep cm = Some (?new, session_history cm @ [hello_session_id h])"
    using assms(4,5) by (simp add: admit_session_def)
  ultimately have "handle_hello X message addr name cm w = bindR (accept_path X addr name cm ?new w) (\<lambda>(ep, w).
      Inr ((set_endpoint (hello_id h) ep cm)\<lparr>session_history := session_history cm @ [hello_session_id h],
        routes := learn_routes (hello_static_routes h) (hello_id h) (routes cm)\<rparr>, w))"
    using assms(2,3) by (simp add: handle_hello_def)
  then show ?thesis
    using accept_first_path [OF assms(1), of ?new cm addr w name]
    by (auto simp: fresh_endpoint_def endpoint_new_start split: if_splits)
qed

theorem new_session_starts_afresh_witness:
  "\<exists>cm' w' ep. handle_hello demo_deps [1] (V4 3 5) ''DYN-interface'' two_endpoints (demo_world (\<lambda>c. Inr)) = Inr (cm', w') \<and>
    get_endpoint 1 cm' = Some ep \<and> session_id ep = 78 \<and> hello_ack_counter ep = 2 \<and> length (connections ep) = 1 \<and>
    session_history cm' = [77, 78]"
proof -
  let ?h = "\<lparr>hello_id = 1, hello_session_id = 78, hello_static_routes = None, hello_seq = 0\<rparr>"
  let ?old = "demo_endpoint [demo_entry 3 ''veth1'' Disconnected, demo_entry 4 ''veth2'' Connected]"
  have d: "bincode_deserialize demo_deps [1] = Some (Hello ?h)" by (simp add: demo_deps_def)
  have g: "get_endpoint (hello_id ?h) two_endpoints = Some ?old" by (simp add: two_endpoints_def)
  have n: "\<not> naming_fails a (V4 3 5) (demo_world (\<lambda>c. Inr))" "\<not> open_fails a (V4 3 5) (demo_world (\<lambda>c. Inr))" for a
    by (simp_all add: naming_fails_def open_fails_def open_dynamic_socket_def try_call_def sys_def names_refused_def)
  have s: "session_id ?old \<noteq> hello_session_id ?h" "hello_session_id ?h \<notin> set (session_history two_endpoints)"
    "session_history two_endpoints = [77]" by (simp_all add: endpoint_new_def two_endpoints_def)
  obtain ces w' where "handle_hello demo_deps [1] (V4 3 5) ''DYN-interface'' two_endpoints (demo_world (\<lambda>c. Inr)) =
      Inr ((set_endpoint (hello_id ?h) (fresh_endpoint demo_deps ?h (V4 3 5) two_endpoints (demo_world (\<lambda>c. Inr)) ces) two_endpoints)
        \<lparr>session_history := session_history two_endpoints @ [hello_session_id ?h],
         routes := learn_routes (hello_static_routes ?h) (hello_id ?h) (routes two_endpoints)\<rparr>, w')"
    and "first_connections (cm_local_address two_endpoints) ''DYN-interface'' (V4 3 5) (demo_world (\<lambda>c. Inr)) ces"
    using new_session_starts_afresh [OF demo_serializes d g s(1,2), of "V4 3 5" "demo_world (\<lambda>c. Inr)" "''DYN-interface''"]
    by (simp only: n if_False) blast
  then show ?thesis
    by (auto simp: s(3) n first_connections_def first_acks_def fresh_endpoint_def endpoint_new_start)
qed

text \<open>
  C40: The history of sessions protects registered endpoints only.  Once an endpoint has been removed, a hello of any
  session, also one that was used and given up before, makes a new endpoint in that session,
  whose sorter waits for number 0 again and whose own packets are numbered from 0 again.
\<close>

theorem forgotten_endpoint_accepts_used_session:
  assumes "serializes X" and "bincode_deserialize X message = Some (Hello h)"
    and "get_endpoint (hello_id h) cm = None" and "hello_session_id h \<in> set (session_history cm)"
    and "\<not> naming_fails (cm_local_address cm) addr w"
  shows "\<exists>cm' w' ep ces. handle_hello X message addr name cm w = Inr (cm', w') \<and>
    get_endpoint (hello_id h) cm' = Some ep \<and> session_id ep = hello_session_id h \<and>
    ep = fresh_endpoint X h addr cm w ces \<and> next_seq (packet_sorter ep) = 0 \<and> tx_counter ep = 0 \<and>
    (\<forall>k. k \<noteq> hello_id h \<longrightarrow> get_endpoint k cm' = get_endpoint k cm)"
proof -
  let ?new = "endpoint_new X (w_now w) (hello_id h) (hello_session_id h) (packet_sorter_deadline cm)"
  let ?cm = "ensure_endpoint X (w_now w) h cm"
  have cm: "?cm = (set_endpoint (hello_id h) ?new cm)\<lparr>session_history := session_history cm @ [hello_session_id h]\<rparr>"
    using assms(3) by (simp add: ensure_endpoint_def hm_contains_key_def)
  then have new: "get_endpoint (hello_id h) ?cm = Some ?new" by (simp add: set_endpoint_def hm.get_put)
  have "admit_session X (w_now w) h ?new ?cm = Some (?new, session_history ?cm)"
    by (simp add: admit_session_def endpoint_new_def)
  with new have "handle_hello X message addr name cm w = bindR (accept_path X addr name ?cm ?new w) (\<lambda>(ep, w).
      Inr ((set_endpoint (hello_id h) ep ?cm)\<lparr>session_history := session_history ?cm,
        routes := learn_routes (hello_static_routes h) (hello_id h) (routes ?cm)\<rparr>, w))"
    using assms(2) by (simp add: handle_hello_def Let_def)
  moreover obtain ces w' where "accept_path X addr name ?cm ?new w = Inr (fresh_endpoint X h addr cm w ces, w')"
    using accept_first_path [OF assms(1), of ?new ?cm addr w name] assms(5)
    by (auto simp: fresh_endpoint_def endpoint_new_start)
  ultimately show ?thesis
    using cm by (auto simp: fresh_endpoint_def endpoint_new_start)
qed

theorem forgotten_endpoint_accepts_used_session_witness:
  "\<exists>cm' w' ep. handle_hello demo_deps [1] (V4 3 5) ''DYN-interface''
      ((demo_manager [] [])\<lparr>session_history := [78, 77]\<rparr>) (demo_world (\<lambda>c. Inr)) = Inr (cm', w') \<and>
    get_endpoint 1 cm' = Some ep \<and> session_id ep = 78 \<and> next_seq (packet_sorter ep) = 0"
proof -
  let ?h = "\<lparr>hello_id = 1, hello_session_id = 78, hello_static_routes = None, hello_seq = 0\<rparr>"
  let ?cm = "(demo_manager [] [])\<lparr>session_history := [78, 77]\<rparr>"
  have d: "bincode_deserialize demo_deps [1] = Some (Hello ?h)" by (simp add: demo_deps_def)
  have n: "\<not> naming_fails (cm_local_address ?cm) (V4 3 5) (demo_world (\<lambda>c. Inr))"
    by (simp add: naming_fails_def open_dynamic_socket_def try_call_def sys_def names_refused_def)
  show ?thesis
    using forgotten_endpoint_accepts_used_session [OF demo_serializes d _ _ n, of "''DYN-interface''"] by auto
qed

end
