(* ===== verification/Manager_Paths.thy ===== *)
theory Manager_Paths
  imports Manager_Sessions
begin

text \<open>
  How paths come up and fail: the acknowledgement that confirms a path, and the two places where a
  socket that cannot be opened brings the process down.
\<close>

section \<open>Acknowledgements\<close>

lemma confirm_entry_eq:
  "confirm_entry X now info ce =
    (if path_of ce = (ri_interface_name info, source_address info) \<and> entry_state ce \<noteq> Disconnected
     then ce\<lparr>connection := (connection ce)\<lparr>state := Connected,
       connection_timeout := timer_set_after X now (connection_timeout_duration (connection ce))
         (connection_timeout (connection ce))\<rparr>\<rparr>
     else ce)"
  by (cases "entry_state ce")
    (auto simp: confirm_entry_def path_of_def set_state_def reset_hello_timeout_def Let_def)

text \<open>
  C21: An acknowledgement from a known endpoint connects the connection it arrived on, if that is
  starting up or connected, and restarts its timeout; a disconnected connection stays disconnected, and
  every other connection is untouched.  The routes it announces lead to the endpoint from then on.
\<close>

theorem acknowledgement_confirms_path:
  assumes "bincode_deserialize X (packet_bytes (connection_read_info info)) = Some (HelloAck a)"
    and "get_endpoint (ack_id a) cm = Some ep"
  shows "\<exists>cm' ep'. handle_established_message X None logging info cm w = Inr (cm', w) \<and>
    get_endpoint (ack_id a) cm' = Some ep' \<and>
    connections ep' = map (\<lambda>ce.
      if path_of ce = (ri_interface_name (connection_read_info info), source_address (connection_read_info info)) \<and>
         entry_state ce \<noteq> Disconnected
      then ce\<lparr>connection := (connection ce)\<lparr>state := Connected,
        connection_timeout := timer_set_after X (w_now w) (connection_timeout_duration (connection ce))
          (connection_timeout (connection ce))\<rparr>\<rparr>
      else ce) (connections ep) \<and>
    (\<forall>route\<in>set (case ack_static_routes a of None \<Rightarrow> [] | Some rs \<Rightarrow> rs). \<forall>address.
      reachable_from route address \<longrightarrow> ack_id a \<in> set (router_lookup (routes cm') address))"
proof -
  let ?ep = "ep\<lparr>hello_ack_path_latency := insert_new_timestamp (w_system_now w) (ack_seq a) (hello_ack_path_latency ep)\<rparr>"
  let ?cm = "(set_endpoint (ack_id a) ?ep cm)\<lparr>routes := learn_routes (ack_static_routes a) (ack_id a) (routes cm)\<rparr>"
  let ?ep' = "?ep\<lparr>connections := map (confirm_entry X (w_now w) (connection_read_info info)) (connections ep)\<rparr>"
  have g: "get_endpoint (ack_id a) ?cm = Some ?ep"
    by (simp add: set_endpoint_def hm.get_put)
  have "handle_established_message X None logging info cm w = Inr (set_endpoint (ack_id a) ?ep' ?cm, w)"
    using assms g
    by (simp add: handle_established_message_def handle_hello_ack_def hm_contains_key_def debug_latency_def Let_def)
  moreover have "ack_id a \<in> set (router_lookup (learn_routes (ack_static_routes a) (ack_id a) (routes cm)) address)"
    if "route \<in> set (case ack_static_routes a of None \<Rightarrow> [] | Some rs \<Rightarrow> rs)" "reachable_from route address"
    for route address
    using that by (auto simp: learn_routes_def intro!: rt.find_after_announce split: option.splits)
  ultimately show ?thesis
    by (intro exI [of _ "set_endpoint (ack_id a) ?ep' ?cm"] exI [of _ ?ep']) (simp add: confirm_entry_eq)
qed

definition starting_up :: "(instant option, nat \<times> packet list) connection_manager" where
  "starting_up = demo_manager
     [(1, demo_endpoint [demo_entry 3 ''veth1'' Startup, demo_entry 4 ''veth2'' Startup])] []"

theorem acknowledgement_confirms_path_witness:
  "\<exists>cm' ep'. handle_established_message demo_deps (None :: nat f64 option) None
      \<lparr>connection_read_info = \<lparr>packet_bytes = [2], source_address = V4 2 40000, ri_interface_name = ''veth1''\<rparr>,
       eri_endpoint_id = 1\<rparr> starting_up (demo_world (\<lambda>c. Inr)) = Inr (cm', demo_world (\<lambda>c. Inr)) \<and>
    get_endpoint 1 cm' = Some ep' \<and> map entry_state (connections ep') = [Connected, Startup] \<and>
    1 \<in> set (router_lookup (routes cm') 0x0A0C0005)"
proof -
  let ?info = "\<lparr>connection_read_info = \<lparr>packet_bytes = [2], source_address = V4 2 40000, ri_interface_name = ''veth1''\<rparr>,
       eri_endpoint_id = 1\<rparr>"
  let ?r = "\<lparr>route_address = 0x0A0C0000, subnet_mask = 0xFFFF0000\<rparr>"
  let ?a = "\<lparr>ack_id = 1, ack_session_id = 77, ack_static_routes = Some [?r], ack_seq = 0\<rparr>"
  let ?ep = "demo_endpoint [demo_entry 3 ''veth1'' Startup, demo_entry 4 ''veth2'' Startup]"
  have d: "bincode_deserialize demo_deps (packet_bytes (connection_read_info ?info)) = Some (HelloAck ?a)"
    by (simp add: demo_deps_def)
  have g: "get_endpoint (ack_id ?a) starting_up = Some ?ep" by (simp add: starting_up_def)
  have r: "reachable_from ?r 0x0A0C0005" by (simp add: reachable_from_def calculate_network_address_def)
  from acknowledgement_confirms_path [OF d g, of None "demo_world (\<lambda>c. Inr)"]
  obtain cm' ep' where *: "handle_established_message demo_deps (None :: nat f64 option) None ?info starting_up (demo_world (\<lambda>c. Inr)) = Inr (cm', demo_world (\<lambda>c. Inr))"
    "get_endpoint (ack_id ?a) cm' = Some ep'" and c: "connections ep' = map (\<lambda>ce.
      if path_of ce = (ri_interface_name (connection_read_info ?info), source_address (connection_read_info ?info)) \<and>
         entry_state ce \<noteq> Disconnected
      then ce\<lparr>connection := (connection ce)\<lparr>state := Connected,
        connection_timeout := timer_set_after demo_deps (w_now (demo_world (\<lambda>c. Inr))) (connection_timeout_duration (connection ce))
          (connection_timeout (connection ce))\<rparr>\<rparr>
      else ce) (connections ?ep)"
    and l: "\<forall>route\<in>set (case ack_static_routes ?a of None \<Rightarrow> [] | Some rs \<Rightarrow> rs). \<forall>address.
      reachable_from route address \<longrightarrow> ack_id ?a \<in> set (router_lookup (routes cm') address)" by blast
  have "map entry_state (connections ep') = [Connected, Startup]" by (simp add: c path_of_def)
  moreover have "1 \<in> set (router_lookup (routes cm') 0x0A0C0005)" using l r by simp
  ultimately show ?thesis
    using * by (intro exI [of _ cm'] exI [of _ ep']) (simp only: hello_ack.select_convs simp_thms)
qed

section \<open>When a socket cannot be opened\<close>

text \<open>A path the endpoint does not have yet.\<close>

definition new_path :: "endpoint_read_info \<Rightarrow> ('t, 'c) endpoint \<Rightarrow> bool" where
  "new_path info ep \<longleftrightarrow> \<not> (\<exists>ce\<in>set (connections ep). is_entry (source_address (connection_read_info info))
     (ri_interface_name (connection_read_info info)) ce)"

lemma add_connection_ok_iff:
  "(\<exists>ep' w'. add_connection X addr name local timeout ep w = Inr (Inr (), ep', w')) \<longleftrightarrow>
    (\<exists>ce\<in>set (connections ep). is_entry addr name ce) \<or> (\<not> open_fails local addr w \<and> \<not> naming_fails local addr w)"
proof (cases "\<exists>ce\<in>set (connections ep). is_entry addr name ce")
  case True
  then show ?thesis using add_connection_cases [of ep addr name X local timeout w] by auto
next
  case False
  then have c: "if naming_fails local addr w then add_connection X addr name local timeout ep w = Inl UnwrapErr
      else \<exists>r ep' w'. add_connection X addr name local timeout ep w = Inr (r, ep', w') \<and> isl r = open_fails local addr w"
    using add_connection_cases [of ep addr name X local timeout w] by (auto split: if_splits)
  show ?thesis
  proof (cases "naming_fails local addr w")
    case True
    then show ?thesis using c False by simp
  next
    case nf: False
    then obtain r ep' w' where "add_connection X addr name local timeout ep w = Inr (r, ep', w')"
      "isl r = open_fails local addr w" using c by auto
    then show ?thesis using False nf by (cases r) auto
  qed
qed

text \<open>The two estimates that the debug line of a hello or of an acknowledgement computes.\<close>

definition estimates_panic :: "'f f64 option \<Rightarrow> path_latency \<Rightarrow> path_latency \<Rightarrow> bool" where
  "estimates_panic D hello_latency ack_latency \<longleftrightarrow>
    (\<exists>F. D = Some F \<and> (panics (estimate_path_delay_difference F hello_latency) \<or>
      panics (estimate_path_delay_difference F ack_latency)))"

lemma debug_latency_panics_iff:
  "panics (debug_latency D ep) \<longleftrightarrow> estimates_panic D (hello_path_latency ep) (hello_ack_path_latency ep)"
  by (auto simp: debug_latency_def estimates_panic_def not_panics_iff panics_def bindR_def split: option.split sum.splits)

definition repeated_hello_fails ::
  "'f f64 option \<Rightarrow> endpoint_read_info \<Rightarrow> hello \<Rightarrow> ('t, 'c) endpoint \<Rightarrow> ('t, 'c) connection_manager \<Rightarrow> world \<Rightarrow> bool" where
  "repeated_hello_fails D info h ep cm w \<longleftrightarrow>
    (new_path info ep \<and> (open_fails (cm_local_address cm) (source_address (connection_read_info info)) w \<or>
       naming_fails (cm_local_address cm) (source_address (connection_read_info info)) w)) \<or>
    estimates_panic D (insert_new_timestamp (w_system_now w) (hello_seq h) (hello_path_latency ep)) (hello_ack_path_latency ep)"

lemma handle_repeated_hello_panics_iff:
  assumes "serializes X" and "cm_inv cm" and "get_endpoint (hello_id h) cm = Some ep"
  shows "panics (handle_repeated_hello X D info h cm w) \<longleftrightarrow> repeated_hello_fails D info h ep cm w"
proof -
  let ?ep = "ep\<lparr>hello_path_latency := insert_new_timestamp (w_system_now w) (hello_seq h) (hello_path_latency ep)\<rparr>"
  let ?add = "add_connection X (source_address (connection_read_info info))
      (ri_interface_name (connection_read_info info)) (cm_local_address cm) (cm_connection_timeout cm) ?ep w"
  show ?thesis
  proof (cases "\<exists>ep1 w1. ?add = Inr (Inr (), ep1, w1)")
    case False
    have u: "panics (bindR (unwrap_result r) f)" if "r \<noteq> Inr ()" for r :: "unit io_result" and f :: "unit \<Rightarrow> ('a, 'b) step"
      using that by (cases r) auto
    have "panics (handle_repeated_hello X D info h cm w)"
      using False assms(3) by (cases ?add) (auto intro!: u simp: handle_repeated_hello_def Let_def split: sum.splits)
    then show ?thesis
      using False by (simp add: add_connection_ok_iff repeated_hello_fails_def new_path_def)
  next
    case True
    then obtain ep1 w1 where a: "?add = Inr (Inr (), ep1, w1)" by blast
    have g: "grown ?ep ep1"
      using add_connection_grown [of w ?ep X "source_address (connection_read_info info)"
        "ri_interface_name (connection_read_info info)" "cm_local_address cm" "cm_connection_timeout cm"] by (simp add: a)
    have "endpoint_ok (hello_id h) ep1"
      using grown_trans [OF grown_latency(1) g] cm_inv_get [OF assms(2,3)] by (simp add: grown_def)
    from acknowledge_outcome [OF assms(1) this, of w1 "own_id cm" "session_id ep1" "own_static_routes cm"]
    obtain ep2 w2 where k: "acknowledge X (own_id cm) (session_id ep1) (own_static_routes cm) ep1 w1 = Inr (ep2, w2)"
      by (auto simp: outcome_returns)
    have "ep_frame ?ep ep2" using ep_frame_trans [OF add_connection_frame [OF a] acknowledge_frame [OF k]] .
    then have l: "hello_path_latency ep2 = insert_new_timestamp (w_system_now w) (hello_seq h) (hello_path_latency ep)"
      "hello_ack_path_latency ep2 = hello_ack_path_latency ep" by (simp_all add: ep_frame_def)
    have "panics (handle_repeated_hello X D info h cm w) \<longleftrightarrow> panics (debug_latency D ep2)"
      using assms(3) a k
      by (cases "debug_latency D ep2") (simp_all add: handle_repeated_hello_def Let_def)
    moreover have "\<not> (new_path info ep \<and> (open_fails (cm_local_address cm) (source_address (connection_read_info info)) w \<or>
       naming_fails (cm_local_address cm) (source_address (connection_read_info info)) w))"
      using a add_connection_ok_iff [THEN iffD1, OF True] by (auto simp: new_path_def)
    ultimately show ?thesis by (auto simp: repeated_hello_fails_def debug_latency_panics_iff l)
  qed
qed

text \<open>
  C30: A hello of a known endpoint that arrives on an established connection brings the process down exactly when
  it comes over a path
  the endpoint does not have yet and the socket for it cannot be opened or named (\<open>add_connection\<close> is
  unwrapped there, where \<open>handle_hello\<close> handles the same error), or debug lines are on and one of the two latency
  estimates of the endpoint panics once the hello is entered in its table.
\<close>

theorem repeated_hello_panics_iff:
  assumes "serializes X" and "cm_inv cm"
    and "bincode_deserialize X (packet_bytes (connection_read_info info)) = Some (Hello h)"
    and "get_endpoint (hello_id h) cm = Some ep"
  shows "panics (handle_established_message X D logging info cm w) \<longleftrightarrow>
    \<not> (\<exists>ce\<in>set (connections ep). is_entry (source_address (connection_read_info info))
        (ri_interface_name (connection_read_info info)) ce) \<and>
      (open_fails (cm_local_address cm) (source_address (connection_read_info info)) w \<or>
       naming_fails (cm_local_address cm) (source_address (connection_read_info info)) w) \<or>
    (\<exists>F. D = Some F \<and> (panics (estimate_path_delay_difference F
        (insert_new_timestamp (w_system_now w) (hello_seq h) (hello_path_latency ep))) \<or>
      panics (estimate_path_delay_difference F (hello_ack_path_latency ep))))"
  using handle_repeated_hello_panics_iff [OF assms(1,2,4), of D info w] assms(3)
  by (simp add: handle_established_message_def repeated_hello_fails_def new_path_def estimates_panic_def)

text \<open>A kernel out of descriptors, and a hello from a new address of a known endpoint.\<close>

theorem repeated_hello_panics_iff_witness:
  "panics (handle_established_message demo_deps (None :: nat f64 option) None
      \<lparr>connection_read_info = \<lparr>packet_bytes = [1], source_address = V4 6 6, ri_interface_name = ''DYN-interface''\<rparr>,
       eri_endpoint_id = 1\<rparr> two_endpoints (demo_world (\<lambda>c n. Inl (OtherError 24))))"
proof -
  let ?info = "\<lparr>connection_read_info = \<lparr>packet_bytes = [1], source_address = V4 6 6, ri_interface_name = ''DYN-interface''\<rparr>,
       eri_endpoint_id = 1\<rparr>"
  let ?h = "\<lparr>hello_id = 1, hello_session_id = 78, hello_static_routes = None, hello_seq = 0\<rparr>"
  let ?ep = "demo_endpoint [demo_entry 3 ''veth1'' Disconnected, demo_entry 4 ''veth2'' Connected]"
  have d: "bincode_deserialize demo_deps (packet_bytes (connection_read_info ?info)) = Some (Hello ?h)"
    by (simp add: demo_deps_def)
  have g: "get_endpoint (hello_id ?h) two_endpoints = Some ?ep" by (simp add: two_endpoints_def)
  show ?thesis
    using repeated_hello_panics_iff [OF demo_serializes two_endpoints_inv(1) d g, of None None "demo_world (\<lambda>c n. Inl (OtherError 24))"]
    by (simp add: is_entry_def open_fails_def open_dynamic_socket_def try_call_def sys_def)
qed

lemma failed_first_hello:
  assumes "serializes X" and "select_laws X" and "endpoints cm = []"
    and "bincode_deserialize X message = Some (Hello h)" and "open_fails (cm_local_address cm) addr w"
  shows "\<exists>cm' w'. handle_hello X message addr name cm w = Inr (cm', w') \<and> has_endpoints cm' \<and>
    await_incoming X i j received cm' = Inl SelectAllEmpty \<and>
    await_timeout X now i j cm' = Inl SelectAllEmpty \<and>
    await_endpoint_sorted_packets X i cm' = Inl SelectAllEmpty \<and>
    await_packet_sorters X now i cm' = Inl SelectAllEmpty"
proof -
  let ?cm = "ensure_endpoint X (w_now w) h cm"
  let ?new = "endpoint_new X (w_now w) (hello_id h) (hello_session_id h) (packet_sorter_deadline cm)"
  have ens: "get_endpoint (hello_id h) ?cm = Some ?new" "endpoints ?cm = [(hello_id h, ?new)]"
    using assms(3) by (simp_all add: ensure_endpoint_def hm_contains_key_def set_endpoint_def hm_insert_def)
  have adm: "admit_session X (w_now w) h ?new ?cm = Some (?new, session_history ?cm)"
    by (simp add: admit_session_def) (simp add: endpoint_new_def)
  have "\<not> naming_fails (cm_local_address cm) addr w"
    using assms(5) by (auto simp: naming_fails_def open_fails_def isl_def)
  then obtain w1 where acc: "accept_path X addr name ?cm ?new w = Inr (?new\<lparr>connections := [], hello_ack_counter :=
      hello_ack_counter ?new + 1\<rparr>, w1)"
    using accept_first_path [OF assms(1), of ?new ?cm addr w name] assms(5)
    by (auto simp: endpoint_new_start first_connections_def first_acks_def)
  let ?ep = "?new\<lparr>connections := [], hello_ack_counter := hello_ack_counter ?new + 1\<rparr>"
  let ?cm' = "(set_endpoint (hello_id h) ?ep ?cm)
      \<lparr>session_history := session_history ?cm, routes := learn_routes (hello_static_routes h) (hello_id h) (routes cm)\<rparr>"
  have "handle_hello X message addr name cm w = Inr (?cm', w1)"
    using assms(4) ens(1) adm acc by (simp add: handle_hello_def Let_def)
  moreover have "endpoints ?cm' = [(hello_id h, ?ep)]"
    using ens(2) by (simp add: set_endpoint_def hm_insert_def)
  then have "has_endpoints ?cm'" "candidates ?cm' = []"
    by (simp_all add: has_endpoints_def candidates_def has_connections_def)
  moreover from this(2) have "select_endpoint X i ?cm' = Inl SelectAllEmpty"
    using assms(2) by (simp add: select_endpoint_def select_laws_def)
  ultimately show ?thesis
    by (intro exI [of _ ?cm'] exI [of _ w1])
      (simp add: await_incoming_def await_timeout_def await_endpoint_sorted_packets_def await_packet_sorters_def)
qed

text \<open>
  C29: When the first hello of an endpoint arrives and the socket for it cannot be opened, the endpoint
  stays registered without any connection.  If it is the only one, the next wait for messages, for
  timeouts, for sorted packets or for a sorter's deadline panics, for \<open>select_all\<close> is given an empty list.
\<close>

theorem failed_first_hello_breaks_waiting:
  assumes "serializes X" and "select_laws X" and "endpoints cm = []"
    and "bincode_deserialize X message = Some (Hello h)" and "open_fails (cm_local_address cm) addr w"
  shows "\<exists>cm' w'. handle_hello X message addr name cm w = Inr (cm', w') \<and> has_endpoints cm' \<and>
    await_incoming X i j received cm' = Inl SelectAllEmpty \<and>
    await_timeout X now i j cm' = Inl SelectAllEmpty \<and>
    await_endpoint_sorted_packets X i cm' = Inl SelectAllEmpty \<and>
    await_packet_sorters X now i cm' = Inl SelectAllEmpty"
  using assms by (rule failed_first_hello)

lemma demo_select_laws: "select_laws demo_deps"
  using ref_select_laws by (simp add: select_laws_def demo_deps_def)

theorem failed_first_hello_breaks_waiting_witness:
  "\<exists>cm' w'. handle_hello demo_deps [3] (V4 3 5) ''DYN-interface'' (demo_manager [] [])
      (demo_world (\<lambda>c n. Inl (OtherError 24))) = Inr (cm', w') \<and>
    has_endpoints cm' \<and> await_incoming demo_deps 0 0 (Inr []) cm' = Inl SelectAllEmpty"
proof -
  have d: "bincode_deserialize demo_deps [3] = Some (Hello
      \<lparr>hello_id = 5, hello_session_id = 79, hello_static_routes = None, hello_seq = 0\<rparr>)"
    by (simp add: demo_deps_def)
  have f: "open_fails (cm_local_address (demo_manager [] [])) (V4 3 5) (demo_world (\<lambda>c n. Inl (OtherError 24)))"
    by (simp add: open_fails_def open_dynamic_socket_def try_call_def sys_def)
  show ?thesis
    using failed_first_hello_breaks_waiting [OF demo_serializes demo_select_laws _ d f,
        of "''DYN-interface''" 0 0 "Inr []" 0]
    by auto
qed

section \<open>Connections the client opens\<close>

lemma hm_insert_twice: "hm_insert k v (hm_insert k u m) = hm_insert k v m"
  unfolding hm_insert_def by (induction m) auto

lemma set_endpoint_twice [simp]: "set_endpoint k ep (set_endpoint k ep0 cm) = set_endpoint k ep cm"
  by (simp add: set_endpoint_def hm_insert_twice)

text \<open>The new entry, and how it is made.\<close>

definition registered_entry :: "string \<Rightarrow> sockaddr \<Rightarrow> fd \<Rightarrow> 't connection_entry \<Rightarrow> bool" where
  "registered_entry name destination fd entry \<longleftrightarrow> interface_name entry = name \<and> interface_address entry = destination \<and>
    entry_state entry = Startup \<and> enabled (connection entry) \<and> peer_addr (connection entry) = destination \<and>
    get_interface_name (connection entry) = name \<and> has_socket entry \<and> fd_of (connection entry) = fd"

lemma greet_and_register_success:
  assumes "greet_and_register X name destination eid sk ep cm w = Inr (Inr (), cm', w')"
    and "sk_peer sk = Some destination" and "sk_local sk \<noteq> None"
  shows "\<exists>entry bytes. cm' = set_endpoint eid (ep\<lparr>hello_counter := hello_counter ep + 1,
        connections := connections ep @ [entry]\<rparr>) cm \<and>
    registered_entry name destination (sk_fd sk) entry \<and>
    bincode_serialize X (Hello \<lparr>hello_id = own_id cm, hello_session_id = session_id ep,
      hello_static_routes = own_static_routes cm, hello_seq = hello_counter ep\<rparr>) = Some bytes \<and>
    w' = w\<lparr>w_trace := w_trace w @ [Send (sk_fd sk) bytes, GetPeerName (sk_fd sk), GetSockName (sk_fd sk)]\<rparr>"
proof -
  obtain bytes where b: "bincode_serialize X (Hello \<lparr>hello_id = own_id cm, hello_session_id = session_id ep,
      hello_static_routes = own_static_routes cm, hello_seq = hello_counter ep\<rparr>) = Some bytes"
    using assms(1) by (auto simp: greet_and_register_def Let_def bindR_eq_Inr unwrap_eq_Inr)
  obtain a v where a: "sys (Send (sk_fd sk) bytes) w = (a, v)" by (cases "sys (Send (sk_fd sk) bytes) w")
  then have v: "v = w\<lparr>w_trace := w_trace w @ [Send (sk_fd sk) bytes]\<rparr>" by (auto simp: sys_def)
  from a assms(1) b obtain n where "a = Inr n" by (cases a) (auto simp: greet_and_register_def Let_def)
  with a assms(1) b obtain c where c: "connection_new X sk (Some name) (cm_connection_timeout cm) v = Inr (c, w')"
    and cm': "cm' = set_endpoint eid (ep\<lparr>hello_counter := hello_counter ep + 1,
        connections := connections ep @ [\<lparr>interface_name = name, interface_address = destination,
          connection = c\<lparr>state := Startup\<rparr>\<rparr>]\<rparr>) cm"
    by (auto simp: greet_and_register_def Let_def bindR_eq_Inr)
  obtain l where "sk_local sk = Some l" using assms(3) by blast
  from connection_new_cases [OF assms(2) this, of v X "Some name" "cm_connection_timeout cm"] c
  have "w' = v\<lparr>w_trace := w_trace v @ [GetPeerName (sk_fd sk), GetSockName (sk_fd sk)]\<rparr>"
    "std_socket c = Some sk" "enabled c" "peer_addr c = destination" "cn_interface_name c = Some name"
    by (auto split: if_splits)
  then show ?thesis using b cm' v
    by (intro exI [of _ "\<lparr>interface_name = name, interface_address = destination, connection = c\<lparr>state := Startup\<rparr>\<rparr>"]
        exI [of _ bytes]) (simp add: registered_entry_def get_interface_name_def has_socket_def fd_of_def)
qed

lemma make_socket_calls:
  assumes "make_socket ifs name (Some ip) port bind w = Inr (r, w')"
  shows "(\<exists>t. w' = w\<lparr>w_trace := w_trace w @ t\<rparr>) \<and> (\<forall>sk. r = Inr sk \<longrightarrow> sk_local sk \<noteq> None)"
  using assms
  by (auto simp: make_socket_def sys_def try_call_def Let_def split: sum.splits if_splits)

text \<open>The endpoint that a connection is opened for: the one registered, or a new one in a session of its own.\<close>

definition opened_endpoint ::
  "('t, 'c) deps \<Rightarrow> endpoint_id \<Rightarrow> ('t, 'c) connection_manager \<Rightarrow> world \<Rightarrow> ('t, 'c) endpoint" where
  "opened_endpoint X eid cm w =
    (case get_endpoint eid cm of
       Some ep \<Rightarrow> ep
     | None \<Rightarrow> endpoint_new X (w_now w) eid (w_uuids w (w_uuid_count w)) (packet_sorter_deadline cm))"

text \<open>
  C28: Opening a connection that succeeds adds one entry, and changes nothing else.  The
  endpoint keeps its session, its sorter, its packet counter, its estimators and its connections; if there was none
  it is a new one, in a session drawn for it, which is the only case one is drawn in.  The entry is appended: it is
  starting up, enabled, and its own socket is connected to the destination under the interface's name.  On that socket one greeting
  was sent, with the endpoint's session and its hello counter, which grew by one; after it only the names of the socket
  were asked for.
\<close>

theorem opened_connection_is_greeted_and_registered:
  assumes "create_new_connection X ifs name local_addr destination eid cm w = Inr (Inr (), cm', w')"
  shows "\<exists>entry fd bytes t.
    cm' = set_endpoint eid ((opened_endpoint X eid cm w)\<lparr>hello_counter := hello_counter (opened_endpoint X eid cm w) + 1,
      connections := connections (opened_endpoint X eid cm w) @ [entry]\<rparr>) cm \<and>
    registered_entry name destination fd entry \<and>
    bincode_serialize X (Hello \<lparr>hello_id = own_id cm, hello_session_id = session_id (opened_endpoint X eid cm w),
      hello_static_routes = own_static_routes cm, hello_seq = hello_counter (opened_endpoint X eid cm w)\<rparr>) = Some bytes \<and>
    w_trace w' = w_trace w @ t @ [Send fd bytes, GetPeerName fd, GetSockName fd] \<and>
    w_uuid_count w' = w_uuid_count w + (if get_endpoint eid cm = None then 1 else 0)"
proof -
  obtain ip r w1 where m: "make_socket ifs name (Some ip) None True w = Inr (r, w1)"
    and 1: "(case r of Inl e \<Rightarrow> Inr (Inl e, cm, w1)
    | Inr sk \<Rightarrow> (case sys (ConnectTo (sk_fd sk) destination) w1 of
           (Inl e, w) \<Rightarrow> Inr (Inl e, cm, w)
         | (Inr _, w) \<Rightarrow> (case peer_endpoint X eid cm w of
             (ep, cm, w) \<Rightarrow> greet_and_register X name destination eid
               (sk\<lparr>sk_peer := Some destination\<rparr>) ep cm w))) = Inr (Inr (), cm', w')"
    using assms unfolding create_new_connection_eq by (auto simp: bindR_eq_Inr)
  from 1 obtain sk where r: "r = Inr sk" by (cases r) auto
  obtain t where w1: "w1 = w\<lparr>w_trace := w_trace w @ t\<rparr>" and l: "sk_local sk \<noteq> None"
    using make_socket_calls [OF m] r by blast
  obtain a w2 where a: "sys (ConnectTo (sk_fd sk) destination) w1 = (a, w2)"
    by (cases "sys (ConnectTo (sk_fd sk) destination) w1")
  then have w2: "w2 = w\<lparr>w_trace := w_trace w @ t @ [ConnectTo (sk_fd sk) destination]\<rparr>" by (auto simp: sys_def w1)
  from 1 r a obtain n where n: "a = Inr n" by (cases a) auto
  obtain ep cm1 w3 where p: "peer_endpoint X eid cm w2 = (ep, cm1, w3)" by (cases "peer_endpoint X eid cm w2")
  have pe: "ep = opened_endpoint X eid cm w" "set_endpoint eid e cm1 = set_endpoint eid e cm" "own_id cm1 = own_id cm"
    "own_static_routes cm1 = own_static_routes cm" "w_trace w3 = w_trace w2"
    "w_uuid_count w3 = w_uuid_count w + (if get_endpoint eid cm = None then 1 else 0)" for e
    using p by (auto simp: peer_endpoint_def opened_endpoint_def fresh_uuid_def Let_def w2 split: option.splits)
  have "greet_and_register X name destination eid (sk\<lparr>sk_peer := Some destination\<rparr>) ep cm1 w3 = Inr (Inr (), cm', w')"
    using 1 r a n p by simp
  from greet_and_register_success [OF this] l obtain entry bytes where
    "cm' = set_endpoint eid (ep\<lparr>hello_counter := hello_counter ep + 1, connections := connections ep @ [entry]\<rparr>) cm1"
    "registered_entry name destination (sk_fd sk) entry"
    "bincode_serialize X (Hello \<lparr>hello_id = own_id cm1, hello_session_id = session_id ep,
      hello_static_routes = own_static_routes cm1, hello_seq = hello_counter ep\<rparr>) = Some bytes"
    "w' = w3\<lparr>w_trace := w_trace w3 @ [Send (sk_fd sk) bytes, GetPeerName (sk_fd sk), GetSockName (sk_fd sk)]\<rparr>" by auto
  then show ?thesis
    by (intro exI [of _ entry] exI [of _ "sk_fd sk"] exI [of _ bytes] exI [of _ "t @ [ConnectTo (sk_fd sk) destination]"])
      (simp add: pe w2)
qed

lemma failed_greeting:
  assumes "serializes X" and "select_laws X" and "endpoints cm = []"
    and "make_socket ifs name (Some ip) None True w = Inr (Inr sk, w1)"
    and "sys (ConnectTo (sk_fd sk) destination) w1 = (Inr n, w2)"
    and "\<forall>bytes. w_answer w2 (Send (sk_fd sk) bytes) (length (w_trace w2)) = Inl e"
  shows "\<exists>cm' w'. create_new_connection X ifs name (V4 ip q) destination eid cm w = Inr (Inl e, cm', w') \<and>
    has_endpoints cm' \<and> await_incoming X i j received cm' = Inl SelectAllEmpty"
proof -
  obtain ep w3 where p: "peer_endpoint X eid cm w2 = (ep, cm\<lparr>endpoints := [(eid, ep)]\<rparr>, w3)"
    "connections ep = []" "w_answer w3 = w_answer w2" "w_trace w3 = w_trace w2"
    using assms(3) by (auto simp: peer_endpoint_def fresh_uuid_def Let_def set_endpoint_def hm_insert_def endpoint_new_def)
  obtain bytes where "bincode_serialize X (Hello \<lparr>hello_id = own_id cm, hello_session_id = session_id ep,
      hello_static_routes = own_static_routes cm, hello_seq = hello_counter ep\<rparr>) = Some bytes"
    using serializesD [OF assms(1)] by blast
  then have "\<exists>w'. create_new_connection X ifs name (V4 ip q) destination eid cm w =
      Inr (Inl e, cm\<lparr>endpoints := [(eid, ep\<lparr>hello_counter := hello_counter ep + 1\<rparr>)]\<rparr>, w')"
    using assms(4-6) p
    by (simp add: create_new_connection_eq greet_and_register_def sys_def set_endpoint_def hm_insert_def Let_def)
  then show ?thesis
    using assms(2) p(2)
    by (auto simp: has_endpoints_def await_incoming_def select_endpoint_def candidates_def has_connections_def
        select_laws_def)
qed

text \<open>
  C32: When the client has no endpoint and opens a socket but cannot send the greeting, it reports the error
  and keeps an endpoint without connections: the next wait for messages panics.
\<close>

theorem failed_greeting_breaks_waiting:
  assumes "serializes X" and "select_laws X" and "endpoints cm = []"
    and "make_socket ifs name (Some ip) None True w = Inr (Inr sk, w1)"
    and "sys (ConnectTo (sk_fd sk) destination) w1 = (Inr n, w2)"
    and "\<forall>bytes. w_answer w2 (Send (sk_fd sk) bytes) (length (w_trace w2)) = Inl e"
  shows "\<exists>cm' w'. create_new_connection X ifs name (V4 ip q) destination eid cm w = Inr (Inl e, cm', w') \<and>
    has_endpoints cm' \<and> await_incoming X i j received cm' = Inl SelectAllEmpty"
  using assms by (rule failed_greeting)

theorem opened_connection_is_greeted_and_registered_witness:
  "\<exists>cm' w' ep' entry. create_new_connection demo_deps [] ''veth1'' (V4 1 0) (V4 2 40000) 5 (demo_manager [] [])
      (demo_world (\<lambda>c. Inr)) = Inr (Inr (), cm', w') \<and> get_endpoint 5 cm' = Some ep' \<and>
    connections ep' = [entry] \<and> entry_state entry = Startup \<and> hello_counter ep' = 1 \<and> w_uuid_count w' = 1"
proof -
  obtain cm' w' where r: "create_new_connection demo_deps [] ''veth1'' (V4 1 0) (V4 2 40000) 5
      (demo_manager [] []) (demo_world (\<lambda>c. Inr)) = Inr (Inr (), cm', w')"
    by (simp add: create_new_connection_eq make_socket_def sys_def try_call_def Let_def peer_endpoint_def
        fresh_uuid_def greet_and_register_def demo_deps_def connection_new_def must_call_def)
  from opened_connection_is_greeted_and_registered [OF r] obtain entry fd where
    "cm' = set_endpoint 5 ((opened_endpoint demo_deps 5 (demo_manager [] []) (demo_world (\<lambda>c. Inr)))\<lparr>hello_counter :=
        hello_counter (opened_endpoint demo_deps 5 (demo_manager [] []) (demo_world (\<lambda>c. Inr))) + 1,
      connections := connections (opened_endpoint demo_deps 5 (demo_manager [] []) (demo_world (\<lambda>c. Inr))) @ [entry]\<rparr>)
        (demo_manager [] [])"
    "registered_entry ''veth1'' (V4 2 40000) fd entry" "w_uuid_count w' = 1" by auto
  with r show ?thesis by (simp add: opened_endpoint_def registered_entry_def) (simp add: endpoint_new_def)
qed

theorem failed_greeting_breaks_waiting_witness:
  "\<exists>cm' w'. create_new_connection demo_deps [] ''veth1'' (V4 1 0) (V4 2 40000) 5 (demo_manager [] [])
      (demo_world (\<lambda>c n. if essential c then Inr n else Inl NetworkUnreachable)) = Inr (Inl NetworkUnreachable, cm', w') \<and>
    has_endpoints cm' \<and> await_incoming demo_deps 0 0 (Inr []) cm' = Inl SelectAllEmpty"
proof -
  let ?w = "demo_world (\<lambda>c n. if essential c then Inr n else Inl NetworkUnreachable)"
  let ?sk = "\<lparr>sk_fd = 0, sk_local = Some (V4 1 0), sk_peer = None\<rparr>"
  obtain w1 where m: "make_socket [] ''veth1'' (Some 1) None True ?w = Inr (Inr ?sk, w1)"
    and a: "w_answer w1 = w_answer ?w"
    by (simp add: make_socket_def sys_def try_call_def Let_def)
  obtain n w2 where c: "sys (ConnectTo (sk_fd ?sk) (V4 2 40000)) w1 = (Inr n, w2)" and a2: "w_answer w2 = w_answer ?w"
    by (simp add: sys_def a)
  have f: "\<forall>bytes. w_answer w2 (Send (sk_fd ?sk) bytes) (length (w_trace w2)) = Inl NetworkUnreachable"
    by (simp add: a2 essential_def)
  from failed_greeting_breaks_waiting [OF demo_serializes demo_select_laws _ m c f, of "demo_manager [] []" 0 5 0 0 "Inr []"]
  show ?thesis by simp
qed

end
