(* ===== verification/Keepalive.thy ===== *)
theory Keepalive
  imports Manager_Paths
begin

text \<open>
  Keepalives: the greeting the client sends once a second on every connection, in closed form.
\<close>

definition greet_outcome :: "nat io_result \<Rightarrow> 't connection_entry \<Rightarrow> 't connection_entry" where
  "greet_outcome r ce = (if r = Inl NetworkUnreachable then set_state Disconnected ce else ce)"

lemma for_each_greet:
  "\<forall>ce\<in>set ces. has_socket ce \<Longrightarrow> for_each (greet_entry bytes) ces w =
    Inr (after_send live greet_outcome (send_answers bytes w) (length (w_trace w)) ces,
      w\<lparr>w_trace := w_trace w @ sends bytes live ces\<rparr>)"
  by (rule for_each_send)
    (auto simp: greet_entry_def live_def has_socket_def connection_write_eq greet_outcome_def send_answers_def split: sum.split)

text \<open>The greeting of an endpoint, and what one round makes of an endpoint whose sends begin as the \<open>n\<close>-th call.\<close>

definition hello_bytes :: "('t, 'c) deps \<Rightarrow> ('t, 'c) connection_manager \<Rightarrow> ('t, 'c) endpoint \<Rightarrow> u8 list" where
  "hello_bytes X cm ep = the (bincode_serialize X (Hello \<lparr>hello_id = own_id cm, hello_session_id = session_id ep,
     hello_static_routes = own_static_routes cm, hello_seq = hello_counter ep\<rparr>))"

definition greeted :: "('t, 'c) deps \<Rightarrow> ('t, 'c) connection_manager \<Rightarrow> world \<Rightarrow> nat \<Rightarrow> ('t, 'c) endpoint \<Rightarrow> ('t, 'c) endpoint" where
  "greeted X cm w n ep = ep\<lparr>hello_counter := hello_counter ep + 1,
     connections := after_send live greet_outcome (send_answers (hello_bytes X cm ep) w) n (connections ep)\<rparr>"

definition hello_sends :: "('t, 'c) deps \<Rightarrow> ('t, 'c) connection_manager \<Rightarrow> endpoint_id \<times> ('t, 'c) endpoint \<Rightarrow> syscall list" where
  "hello_sends X cm e = sends (hello_bytes X cm (snd e)) live (connections (snd e))"

lemma greet_endpoint_eq:
  assumes "serializes X" "\<forall>ce\<in>set (connections ep). has_socket ce"
  shows "greet_endpoint X cm (k, ep) w = Inr ((k, greeted X cm w (length (w_trace w)) ep),
    w\<lparr>w_trace := w_trace w @ hello_sends X cm (k, ep)\<rparr>)"
proof -
  obtain bytes where "bincode_serialize X (Hello \<lparr>hello_id = own_id cm, hello_session_id = session_id ep,
     hello_static_routes = own_static_routes cm, hello_seq = hello_counter ep\<rparr>) = Some bytes"
    by (rule serializesD [OF assms(1)])
  then show ?thesis
    using for_each_greet [OF assms(2)]
    by (simp add: greet_endpoint_def greeted_def hello_sends_def hello_bytes_def)
qed

fun greeted_all :: "('t, 'c) deps \<Rightarrow> ('t, 'c) connection_manager \<Rightarrow> world \<Rightarrow> nat \<Rightarrow>
    (endpoint_id \<times> ('t, 'c) endpoint) list \<Rightarrow> (endpoint_id \<times> ('t, 'c) endpoint) list" where
  "greeted_all X cm w n [] = []"
| "greeted_all X cm w n ((k, ep) # eps) =
    (k, greeted X cm w n ep) # greeted_all X cm w (n + length (hello_sends X cm (k, ep))) eps"

lemma greeted_trace [simp]: "greeted X cm (w\<lparr>w_trace := t\<rparr>) = greeted X cm w"
  by (simp add: greeted_def fun_eq_iff)

lemma greeted_all_trace [simp]: "greeted_all X cm (w\<lparr>w_trace := t\<rparr>) n eps = greeted_all X cm w n eps"
  by (induction X cm w n eps rule: greeted_all.induct) simp_all

lemma greet_all_eq:
  assumes "serializes X"
  shows "\<forall>e\<in>set eps. \<forall>ce\<in>set (connections (snd e)). has_socket ce \<Longrightarrow> for_each (greet_endpoint X cm) eps w =
    Inr (greeted_all X cm w (length (w_trace w)) eps, w\<lparr>w_trace := w_trace w @ concat (map (hello_sends X cm) eps)\<rparr>)"
proof (induction eps arbitrary: w)
  case (Cons e eps)
  then show ?case by (cases e) (simp add: greet_endpoint_eq [OF assms])
qed simp

lemma map_of_greeted_all:
  "map_of eps k = Some ep \<Longrightarrow> \<exists>before after.
    concat (map (hello_sends X cm) eps) = before @ hello_sends X cm (k, ep) @ after \<and>
    map_of (greeted_all X cm w n eps) k = Some (greeted X cm w (n + length before) ep)"
proof (induction eps arbitrary: n)
  case (Cons e eps)
  obtain j f where e: "e = (j, f)" by (cases e)
  show ?case
  proof (cases "j = k")
    case True
    then show ?thesis using Cons.prems e
      by (intro exI [of _ "[]"] exI [of _ "concat (map (hello_sends X cm) eps)"]) simp
  next
    case False
    then obtain before "after" where "concat (map (hello_sends X cm) eps) = before @ hello_sends X cm (k, ep) @ after"
      "map_of (greeted_all X cm w (n + length (hello_sends X cm e)) eps) k =
        Some (greeted X cm w (n + length (hello_sends X cm e) + length before) ep)"
      using Cons e by fastforce
    then show ?thesis using False e
      by (intro exI [of _ "hello_sends X cm e @ before"] exI [of _ "after"]) (simp add: add.assoc)
  qed
qed simp

lemma greeted_all_keys: "map fst (greeted_all X cm w n eps) = map fst eps"
  by (induction X cm w n eps rule: greeted_all.induct) simp_all

text \<open>
  C15: A round of keepalives sends one greeting on every connection that is starting up or connected,
  of every endpoint, and sends nothing else: the greeting of an endpoint carries its session and its counter, which then grows by
  one.  It never panics.  A connection is given up exactly when the kernel says that its network is
  unreachable; endpoints are neither made nor removed, and the routes stay.
\<close>

theorem keepalive_greets_live_connections:
  assumes "serializes X" and "cm_inv cm"
  shows "\<exists>cm' cs. greet_all_endpoints X cm w = Inr (cm', w\<lparr>w_trace := w_trace w @ cs\<rparr>) \<and>
    cs = concat (map (\<lambda>(k, ep). sends (hello_bytes X cm ep) live (connections ep)) (endpoints cm)) \<and>
    map fst (endpoints cm') = map fst (endpoints cm) \<and> routes cm' = routes cm \<and>
    (\<forall>k. case get_endpoint k cm of
        None \<Rightarrow> get_endpoint k cm' = None
      | Some ep \<Rightarrow> \<exists>before after. cs = before @ sends (hello_bytes X cm ep) live (connections ep) @ after \<and>
          get_endpoint k cm' = Some (ep\<lparr>hello_counter := hello_counter ep + 1,
            connections := after_send live greet_outcome (send_answers (hello_bytes X cm ep) w)
              (length (w_trace w) + length before) (connections ep)\<rparr>))"
proof -
  let ?eps = "greeted_all X cm w (length (w_trace w)) (endpoints cm)"
  have hs: "hello_sends X cm = (\<lambda>(k, ep). sends (hello_bytes X cm ep) live (connections ep))"
    by (simp add: fun_eq_iff hello_sends_def)
  have "\<forall>e\<in>set (endpoints cm). \<forall>ce\<in>set (connections (snd e)). has_socket ce"
    using assms(2) by (auto simp: cm_inv_def hm_inv_def hm_all_def endpoint_ok_def dest: map_of_is_SomeI)
  from greet_all_eq [OF assms(1) this]
  have g: "greet_all_endpoints X cm w = Inr (cm\<lparr>endpoints := ?eps\<rparr>,
      w\<lparr>w_trace := w_trace w @ concat (map (hello_sends X cm) (endpoints cm))\<rparr>)"
    by (simp add: greet_all_endpoints_def)
  have "\<forall>k. case get_endpoint k cm of None \<Rightarrow> map_of ?eps k = None
      | Some ep \<Rightarrow> \<exists>before after. concat (map (hello_sends X cm) (endpoints cm)) = before @ hello_sends X cm (k, ep) @ after \<and>
          map_of ?eps k = Some (greeted X cm w (length (w_trace w) + length before) ep)"
  proof
    fix k
    show "case get_endpoint k cm of None \<Rightarrow> map_of ?eps k = None
      | Some ep \<Rightarrow> \<exists>before after. concat (map (hello_sends X cm) (endpoints cm)) = before @ hello_sends X cm (k, ep) @ after \<and>
          map_of ?eps k = Some (greeted X cm w (length (w_trace w) + length before) ep)"
    proof (cases "get_endpoint k cm")
      case None
      then have "map_of ?eps k = None"
        using arg_cong [OF greeted_all_keys, of set X cm w "length (w_trace w)" "endpoints cm"] by (simp add: map_of_eq_None_iff)
      then show ?thesis using None by simp
    next
      case (Some ep)
      then show ?thesis using map_of_greeted_all [OF Some] by auto
    qed
  qed
  then show ?thesis
    by (intro exI [of _ "cm\<lparr>endpoints := ?eps\<rparr>"] exI [of _ "concat (map (hello_sends X cm) (endpoints cm))"])
      (simp add: g greeted_all_keys greeted_def hs cong: option.case_cong)
qed

text \<open>One endpoint with a dead, a connected and a starting connection; the network of the third is gone.\<close>

definition three_paths :: "(instant option, nat \<times> packet list) connection_manager" where
  "three_paths = demo_manager [(1, demo_endpoint [demo_entry 3 ''veth1'' Disconnected, demo_entry 4 ''veth2'' Connected,
     demo_entry 5 ''veth3'' Startup])] []"

abbreviation third_unreachable :: world where
  "third_unreachable \<equiv> demo_world (\<lambda>c n. if n = 0 then Inr 1 else Inl NetworkUnreachable)"

theorem keepalive_greets_live_connections_witness:
  "\<exists>cm' ep w'. greet_all_endpoints demo_deps three_paths third_unreachable = Inr (cm', w') \<and>
    map (\<lambda>c. case c of Send fd d \<Rightarrow> fd | _ \<Rightarrow> 0) (w_trace w') = [4, 5] \<and>
    get_endpoint 1 cm' = Some ep \<and> hello_counter ep = 1 \<and>
    map entry_state (connections ep) = [Disconnected, Connected, Disconnected]"
proof -
  have "cm_inv three_paths"
    by (simp add: three_paths_def cm_inv_def hm_inv_def hm_all_def endpoint_ok_def has_socket_def
        endpoint_new_def latency_inv_new route_targets_def router_inv_def defaults_last_def sorter_inv_new)
  from keepalive_greets_live_connections [OF demo_serializes this, of third_unreachable]
  obtain cm' cs where g: "greet_all_endpoints demo_deps three_paths third_unreachable =
      Inr (cm', third_unreachable\<lparr>w_trace := w_trace third_unreachable @ cs\<rparr>)"
    and cs: "cs = concat (map (\<lambda>(k, ep). sends (hello_bytes demo_deps three_paths ep) live (connections ep)) (endpoints three_paths))"
    and k: "\<forall>k. case get_endpoint k three_paths of
        None \<Rightarrow> get_endpoint k cm' = None
      | Some ep \<Rightarrow> \<exists>before after. cs = before @ sends (hello_bytes demo_deps three_paths ep) live (connections ep) @ after \<and>
          get_endpoint k cm' = Some (ep\<lparr>hello_counter := hello_counter ep + 1,
            connections := after_send live greet_outcome (send_answers (hello_bytes demo_deps three_paths ep) third_unreachable)
              (length (w_trace third_unreachable) + length before) (connections ep)\<rparr>)"
    by blast
  have f: "map (\<lambda>c. case c of Send fd d \<Rightarrow> fd | _ \<Rightarrow> 0) cs = [4, 5]"
    by (simp add: cs three_paths_def sends_def live_def fd_of_def)
  let ?ep = "demo_endpoint [demo_entry 3 ''veth1'' Disconnected, demo_entry 4 ''veth2'' Connected, demo_entry 5 ''veth3'' Startup]"
  have "get_endpoint 1 three_paths = Some ?ep" by (simp add: three_paths_def)
  with k [rule_format, of 1] obtain before "after" ep where
      b: "cs = before @ sends (hello_bytes demo_deps three_paths ?ep) live (connections ?ep) @ after"
    and e: "get_endpoint 1 cm' = Some ep" and ep: "ep = ?ep\<lparr>hello_counter := hello_counter ?ep + 1,
        connections := after_send live greet_outcome (send_answers (hello_bytes demo_deps three_paths ?ep) third_unreachable)
          (length before) (connections ?ep)\<rparr>" by auto
  have "before = []" using arg_cong [OF b, of length] by (simp add: cs three_paths_def sends_def live_def)
  then have "map entry_state (connections ep) = [Disconnected, Connected, Disconnected]"
    by (simp add: ep live_def greet_outcome_def write_result_def send_answers_def set_state_def)
  moreover have "hello_counter ep = 1" by (simp add: ep) (simp add: endpoint_new_def)
  ultimately show ?thesis using g f e
    by (intro exI [of _ cm'] exI [of _ ep] exI [of _ "third_unreachable\<lparr>w_trace := cs\<rparr>"]) simp
qed

end
