(* ===== verification/Event_Loop.thy ===== *)
theory Event_Loop
  imports Manager_Paths
begin

text \<open>
  What the two event loops (\<open>crates/server/src/main.rs\<close> and \<open>crates/client/src/main.rs\<close>) have in
  common: the settings they read, the events both handle, and the invariants through one of these
  events.  An event carries what the scheduler and the outside world chose: which futures resolved
  (\<open>i\<close>, \<open>j\<close>) and the bytes received.
\<close>

section \<open>Settings\<close>

record tunnel_settings =
  tunnel_device_address :: "ipv4 + 128 word"
  netmask :: ipv4
  mtu :: "32 word"

record interface_logger_settings =
  ils_log_path :: string

record packet_sorter_logger_settings =
  psls_log_path :: string

record server_settings =
  ss_peer_id :: endpoint_id
  server_bind_address :: sockaddr
  ss_tunnel_config :: tunnel_settings
  ss_connection_timeout :: nat
  ss_packet_sorter_deadline :: nat
  ss_interface_logger :: "interface_logger_settings option"
  ss_packet_sorter_logger :: "packet_sorter_logger_settings option"

record interface =
  if_interface_name :: string
  bind_address :: sockaddr
  server_address :: sockaddr

record route_config =
  rc_address :: ipv4
  rc_subnet_mask :: ipv4

record client_settings =
  cs_peer_id :: endpoint_id
  interfaces :: "interface list"
  server_id :: endpoint_id
  cs_tunnel_config :: tunnel_settings
  static_routes :: "route_config list"
  cs_connection_timeout :: nat
  cs_packet_sorter_deadline :: nat
  cs_interface_logger :: "interface_logger_settings option"
  cs_packet_sorter_logger :: "packet_sorter_logger_settings option"

text \<open>The two log files, if they are kept, and whether debug lines are evaluated.\<close>

record 'f loop_config =
  interface_logging :: "interface_logger option"
  sorter_logging :: "packet_sorter_logger option"
  log_debug :: "'f f64 option"

text \<open>Neither log file, no debug lines.\<close>

abbreviation no_logs :: "nat loop_config" where
  "no_logs \<equiv> \<lparr>interface_logging = None, sorter_logging = None, log_debug = None\<rparr>"

text \<open>The address of the tunnel device must be an IPv4 address.\<close>

definition tun_ipv4 :: "tunnel_settings \<Rightarrow> ipv4 run" where
  "tun_ipv4 t = (case tunnel_device_address t of Inl ipv4 \<Rightarrow> Inr ipv4 | Inr ipv6 \<Rightarrow> Inl Ipv6NotSupported)"

definition start_loggers ::
  "interface_logger_settings option \<Rightarrow> packet_sorter_logger_settings option \<Rightarrow> world \<Rightarrow>
    (interface_logger option \<times> packet_sorter_logger option \<times> world) run" where
  "start_loggers interface_settings sorter_settings w =
    bindR (case interface_settings of
        Some s \<Rightarrow> bindR (interface_logger_new (ils_log_path s) w) (\<lambda>(l, w). Inr (Some l, w))
      | None \<Rightarrow> Inr (None, w)) (\<lambda>(interface_logger, w).
    bindR (case sorter_settings of
        Some s \<Rightarrow> bindR (packet_sorter_logger_new (psls_log_path s) w) (\<lambda>(l, w). Inr (Some l, w))
      | None \<Rightarrow> Inr (None, w)) (\<lambda>(packet_sorter_logger, w).
      Inr (interface_logger, packet_sorter_logger, w)))"

text \<open>The command socket for selective duplication listens on \<open>0.0.0.0:1234\<close>.\<close>

definition duplication_address :: sockaddr where
  "duplication_address = V4 0 1234"

section \<open>Events\<close>

text \<open>\<open>None\<close>: the future is not ready, the event cannot happen now.\<close>

definition when_ready :: "'a option run \<Rightarrow> ('a \<Rightarrow> 'b run) \<Rightarrow> 'b run option" where
  "when_ready m f = (case m of Inl p \<Rightarrow> Some (Inl p) | Inr None \<Rightarrow> None | Inr (Some x) \<Rightarrow> Some (f x))"

text \<open>What \<open>recv_from\<close> of an unconnected socket gave, unwrapped; an error only where the world allows one.\<close>

definition received_from :: "'a io_result \<Rightarrow> world \<Rightarrow> ('a \<Rightarrow> 'b run) \<Rightarrow> 'b run option" where
  "received_from received w f =
    (case received of
       Inr x \<Rightarrow> Some (f x)
     | Inl e \<Rightarrow> if w_recv_fails w then Some (bindR (unwrap_result received) f) else None)"

lemma received_from_outcome:
  assumes "received_from received w f = Some r" "\<And>x. outcome Q P (f x)"
    and "w_recv_fails w \<Longrightarrow> Q UnwrapErr"
  shows "outcome Q P r"
  using assms by (auto simp: received_from_def split: sum.splits if_splits)

datatype event =
    NewEstablishedMessage nat nat "u8 list io_result"
  | ConnectionTimeout nat nat
  | PacketSorterDeadline nat
  | TunnelPacket "u8 list io_result"
  | NewSortedPacket nat
  | DuplicationMessage "u8 list io_result"

definition log_and_forward ::
  "'f loop_config \<Rightarrow> packet \<Rightarrow> ('t, 'c) connection_manager \<Rightarrow> world \<Rightarrow> ('t, 'c) step" where
  "log_and_forward L pkt cm w =
    bindR (case sorter_logging L of
        Some l \<Rightarrow> packet_sorter_logger_add_log_line l (pkt_seq pkt) w
      | None \<Rightarrow> Inr w) (\<lambda>w.
      case sys (TunSend (pkt_bytes pkt)) w of
        (Inr n, w) \<Rightarrow> Inr (cm, w)
      | (Inl e, w) \<Rightarrow> Inl UnwrapErr)"

definition flush_logs :: "'f loop_config \<Rightarrow> world \<Rightarrow> world run" where
  "flush_logs L w =
    bindR (case interface_logging L of Some l \<Rightarrow> interface_logger_flush l w | None \<Rightarrow> Inr w) (\<lambda>w.
      case sorter_logging L of Some l \<Rightarrow> packet_sorter_logger_flush l w | None \<Rightarrow> Inr w)"

text \<open>The arms of the \<open>match\<close> that are the same in both loops.\<close>

fun handle_event ::
  "('t, 'c) deps \<Rightarrow> 'f loop_config \<Rightarrow> event \<Rightarrow> ('t, 'c) connection_manager \<Rightarrow> world \<Rightarrow> ('t, 'c) step option" where
  "handle_event X L (NewEstablishedMessage i j received) cm w =
    Some (bindR (await_incoming X i j received cm) (\<lambda>result.
      case result of
        Inr info \<Rightarrow> handle_established_message X (log_debug L) (interface_logging L) info cm w
      | Inl e \<Rightarrow> Inr (cm, w)))"
| "handle_event X L (ConnectionTimeout i j) cm w =
    when_ready (await_timeout X (w_now w) i j cm) (\<lambda>((eid, name, addr), cm).
      bindR (remove_connection eid name addr cm) (\<lambda>cm. Inr (cm, w)))"
| "handle_event X L (PacketSorterDeadline i) cm w =
    when_ready (await_packet_sorters X (w_now w) i cm) (\<lambda>(eid, cm).
      Inr (handle_packet_sorter_deadline X (w_now w) eid cm, w))"
| "handle_event X L (TunnelPacket maybe_packet) cm w =
    Some (case maybe_packet of
        Inr bytes \<Rightarrow> handle_packet_from_tun X bytes cm w
      | Inl e \<Rightarrow> Inr (cm, w))"
| "handle_event X L (NewSortedPacket i) cm w =
    when_ready (await_endpoint_sorted_packets X i cm) (\<lambda>((eid, maybe_packet), cm).
      case maybe_packet of
        Some pkt \<Rightarrow> log_and_forward L pkt cm w
      | None \<Rightarrow> Inr (cm, w))"
| "handle_event X L (DuplicationMessage received) cm w =
    received_from received w (\<lambda>bytes. Inr (handle_selective_duplication_command X bytes cm, w))"

text \<open>The end of a turn.\<close>

definition clean_up :: "('t, 'c) connection_manager \<times> world \<Rightarrow> ('t, 'c) step" where
  "clean_up s = (case s of (cm, w) \<Rightarrow> bindR (remove_disconnected cm) (\<lambda>cm. Inr (cm, w)))"

section \<open>The invariant through an event\<close>

text \<open>
  What can crash a turn: a wait with no connection to wait for, a call other than a send that is refused or a log line
  before the epoch, or the evaluation of a debug line.
\<close>

definition crash :: "('t, 'c) connection_manager \<Rightarrow> world \<Rightarrow> 'f loop_config \<Rightarrow> panic \<Rightarrow> bool" where
  "crash cm w L p \<longleftrightarrow> (p = SelectAllEmpty \<and> candidates cm = []) \<or> (p = UnwrapErr \<and> faulty w) \<or> log_debug L \<noteq> None"

definition good :: "('t, 'c) connection_manager \<Rightarrow> world \<Rightarrow> ('t, 'c) connection_manager \<times> world \<Rightarrow> bool" where
  "good cm w s \<longleftrightarrow> keeps cm (fst s) \<and> extends w (snd s)"

lemma crashI:
  "p = SelectAllEmpty \<and> candidates cm = [] \<Longrightarrow> crash cm w L p"
  "p = UnwrapErr \<and> faulty w \<Longrightarrow> crash cm w L p"
  "log_debug L \<noteq> None \<Longrightarrow> crash cm w L p"
  by (simp_all add: crash_def)

lemma await_incoming_outcome:
  assumes "select_laws X" "cm_inv cm"
  shows "outcome (\<lambda>p. p = SelectAllEmpty \<and> candidates cm = []) (\<lambda>r. True) (await_incoming X i j received cm)"
proof -
  have "outcome (\<lambda>p. p = SelectAllEmpty \<and> candidates cm = []) (\<lambda>r. True) (await_connections X j received ep)"
    if "(k, ep) \<in> set (candidates cm)" for k ep
    using candidates_endpoint [OF assms(2) that]
    by (simp add: await_connections_def, intro outcome_mono [OF select_outcome [OF assms(1)]])
      (auto split: sum.split)
  then show ?thesis
    by (simp add: await_incoming_def, intro outcome_mono [OF select_endpoint_outcome [OF assms(1)]]) auto
qed

lemma awaited_timer_grown:
  assumes "j < length (connections ep)"
  shows "grown ep (ep\<lparr>connections := (connections ep)[j := (connections ep ! j)
    \<lparr>connection := (connection (connections ep ! j))\<lparr>connection_timeout := t\<rparr>\<rparr>]\<rparr>)"
proof -
  let ?ce = "(connections ep ! j)\<lparr>connection := (connection (connections ep ! j))\<lparr>connection_timeout := t\<rparr>\<rparr>"
  have "has_socket ?ce = has_socket (connections ep ! j)" by (simp add: has_socket_def)
  then have "has_socket ce" if "\<forall>ce\<in>set (connections ep). has_socket ce" "ce \<in> set ((connections ep)[j := ?ce])" for ce
    using that set_update_subset_insert [of "connections ep" j ?ce] assms by auto
  then show ?thesis by (auto simp: grown_def endpoint_ok_def has_connections_def)
qed

lemma await_timeout_outcome:
  assumes "select_laws X" "cm_inv cm"
  shows "outcome (\<lambda>p. p = SelectAllEmpty \<and> candidates cm = [])
    (\<lambda>r. \<forall>path cm'. r = Some (path, cm') \<longrightarrow> keeps cm cm') (await_timeout X now i j cm)"
proof -
  have k: "keeps cm (set_endpoint k (ep\<lparr>connections := (connections ep)[n := (connections ep ! n)
    \<lparr>connection := (connection (connections ep ! n))\<lparr>connection_timeout := t\<rparr>\<rparr>]\<rparr>) cm)"
    if "(k, ep) \<in> set (candidates cm)" "n < length (connections ep)" for k ep n t
    using candidates_endpoint [OF assms(2) that(1)] awaited_timer_grown [OF that(2)]
    by (intro keeps_set [OF assms(2)]) simp_all
  have inner: "outcome (\<lambda>p. p = SelectAllEmpty \<and> candidates cm = [])
      (\<lambda>r. \<forall>path ep'. r = Some (path, ep') \<longrightarrow> keeps cm (set_endpoint k ep' cm))
      (await_connection_timeouts X now j ep)"
    if "(k, ep) \<in> set (candidates cm)" for k ep
    using candidates_endpoint [OF assms(2) that] k [OF that]
    by (simp add: await_connection_timeouts_def, intro outcome_mono [OF select_outcome [OF assms(1)]])
      (auto simp: await_connection_timeout_def)
  show ?thesis
    unfolding await_timeout_def outcome_bind
  proof (rule outcome_mono [OF select_endpoint_outcome [OF assms(1)]])
    fix e assume e: "e \<in> set (candidates cm)"
    obtain k ep where [simp]: "e = (k, ep)" by (cases e)
    show "outcome (\<lambda>p. p = SelectAllEmpty \<and> candidates cm = [])
        (\<lambda>r. \<forall>path cm'. r = Some (path, cm') \<longrightarrow> keeps cm cm')
        (case e of (eid, ep) \<Rightarrow> bindR (await_connection_timeouts X now j ep)
          (\<lambda>r. Inr (map_option (\<lambda>(path, ep). (path, set_endpoint eid ep cm)) r)))"
      using e by (simp, intro outcome_mono [OF inner [of k ep]]) auto
  qed simp
qed

lemma await_sorted_outcome:
  assumes "select_laws X" "cm_inv cm"
  shows "outcome (\<lambda>p. p = SelectAllEmpty \<and> candidates cm = [])
    (\<lambda>r. \<forall>x cm'. r = Some (x, cm') \<longrightarrow> keeps cm cm') (await_endpoint_sorted_packets X i cm)"
proof -
  have "keeps cm (set_endpoint k ep' cm)"
    if "(k, ep) \<in> set (candidates cm)" "await_sorted_packet X ep = Some (x, ep')" for k ep x ep'
    using that(2) candidates_endpoint [OF assms(2) that(1)]
    by (auto simp: await_sorted_packet_def await_have_next_packet_def split: option.splits
        intro!: keeps_set [OF assms(2)] grown_sorter)
  then show ?thesis
    by (simp add: await_endpoint_sorted_packets_def, intro outcome_mono [OF select_endpoint_outcome [OF assms(1)]])
      auto
qed

lemma await_sorters_outcome:
  assumes "select_laws X" "cm_inv cm"
  shows "outcome (\<lambda>p. p = SelectAllEmpty \<and> candidates cm = [])
    (\<lambda>r. \<forall>x cm'. r = Some (x, cm') \<longrightarrow> keeps cm cm') (await_packet_sorters X now i cm)"
proof -
  have "keeps cm (set_endpoint k ep' cm)"
    if "(k, ep) \<in> set (candidates cm)" "await_packet_sorter_deadline X now ep = Some (x, ep')" for k ep x ep'
    using that(2) candidates_endpoint [OF assms(2) that(1)]
    by (auto simp: await_packet_sorter_deadline_def await_deadline_def
        intro!: keeps_set [OF assms(2)] grown_sorter)
  then show ?thesis
    by (simp add: await_packet_sorters_def, intro outcome_mono [OF select_endpoint_outcome [OF assms(1)]])
      auto
qed

lemma when_ready_outcome:
  assumes "when_ready m f = Some r" "outcome Q (\<lambda>x. \<forall>y. x = Some y \<longrightarrow> P y) m"
    and "\<And>y. P y \<Longrightarrow> outcome Q R (f y)"
  shows "outcome Q R r"
  using assms by (auto simp: when_ready_def split: sum.splits option.splits)

lemma logging_outcome:
  "extends w\<^sub>0 w \<Longrightarrow> outcome (\<lambda>p. p = UnwrapErr \<and> refuses w\<^sub>0) (\<lambda>w'. extends w\<^sub>0 w') (interface_logger_flush il w)"
  "extends w\<^sub>0 w \<Longrightarrow> outcome (\<lambda>p. p = UnwrapErr \<and> refuses w\<^sub>0) (\<lambda>w'. extends w\<^sub>0 w') (packet_sorter_logger_flush ps w)"
  by (simp_all add: interface_logger_flush_def packet_sorter_logger_flush_def)
    (intro outcome_mono [OF must_call_outcome]; auto)+

lemma add_sorter_log_line_outcome:
  "outcome (\<lambda>p. p = UnwrapErr \<and> faulty w) (\<lambda>w'. extends w w') (packet_sorter_logger_add_log_line l n w)"
  by (auto simp: packet_sorter_logger_add_log_line_def since_epoch_eq faulty_def intro!: outcome_mono [OF must_call_outcome])

lemma flush_logs_outcome: "outcome (\<lambda>p. p = UnwrapErr \<and> refuses w) (\<lambda>w'. extends w w') (flush_logs L w)"
  unfolding flush_logs_def
  by (subst outcome_bind, rule outcome_mono [where P = "\<lambda>w'. extends w w'" and Q = "\<lambda>p. p = UnwrapErr \<and> refuses w"])
    (auto intro: logging_outcome split: option.split)

lemma new_logger_outcome:
  "extends w\<^sub>0 w \<Longrightarrow> outcome (\<lambda>p. p = UnwrapErr \<and> refuses w\<^sub>0) (\<lambda>(l, w'). extends w\<^sub>0 w') (interface_logger_new n w)"
  "extends w\<^sub>0 w \<Longrightarrow> outcome (\<lambda>p. p = UnwrapErr \<and> refuses w\<^sub>0) (\<lambda>(l, w'). extends w\<^sub>0 w') (packet_sorter_logger_new n w)"
  unfolding interface_logger_new_def packet_sorter_logger_new_def
  by (auto simp del: outcome_bind intro!: outcome_after [OF must_call_outcome])

lemma start_loggers_outcome:
  assumes "extends w\<^sub>0 w"
  shows "outcome (\<lambda>p. p = UnwrapErr \<and> refuses w\<^sub>0) (\<lambda>(il, psl, w'). extends w\<^sub>0 w') (start_loggers i p w)"
proof -
  have second: "outcome (\<lambda>p. p = UnwrapErr \<and> refuses w\<^sub>0) (\<lambda>(psl, w'). extends w\<^sub>0 w')
      (case p of Some s \<Rightarrow> bindR (packet_sorter_logger_new (psls_log_path s) w1) (\<lambda>(l, w). Inr (Some l, w))
       | None \<Rightarrow> Inr (None, w1))" if "extends w\<^sub>0 w1" for w1
    using that by (auto simp del: outcome_bind split: option.split intro!: outcome_after [OF new_logger_outcome(2)])
  have first: "outcome (\<lambda>p. p = UnwrapErr \<and> refuses w\<^sub>0) (\<lambda>(il, w'). extends w\<^sub>0 w')
      (case i of Some s \<Rightarrow> bindR (interface_logger_new (ils_log_path s) w) (\<lambda>(l, w). Inr (Some l, w))
       | None \<Rightarrow> Inr (None, w))"
    using assms by (auto simp del: outcome_bind split: option.split intro!: outcome_after [OF new_logger_outcome(1)])
  show ?thesis
    unfolding start_loggers_def
    by (rule outcome_after [OF first]) (auto simp del: outcome_bind intro!: outcome_after [OF second])
qed

lemma log_and_forward_outcome:
  "outcome (\<lambda>p. p = UnwrapErr \<and> faulty w) (\<lambda>(cm', w'). cm' = cm \<and> extends w w') (log_and_forward L pkt cm w)"
proof -
  have second: "outcome (\<lambda>p. p = UnwrapErr \<and> faulty w) (\<lambda>(cm', w'). cm' = cm \<and> extends w w')
      (case sys (TunSend (pkt_bytes pkt)) w1 of (Inr n, w) \<Rightarrow> Inr (cm, w) | (Inl e, w) \<Rightarrow> Inl UnwrapErr)"
    if "extends w w1" for w1
    using that by (auto split: prod.split sum.split simp: faulty_extends [symmetric]
        dest: refuses_faulty sys_refuses extends_sys intro: extends_trans)
  show ?thesis
    unfolding log_and_forward_def
    by (subst outcome_bind, rule outcome_mono [where P = "\<lambda>w'. extends w w'" and Q = "\<lambda>p. p = UnwrapErr \<and> faulty w"])
      (auto intro: add_sorter_log_line_outcome second split: option.split)
qed

lemma remove_then:
  assumes "keeps cm cm1" "extends w w1"
  shows "outcome (\<lambda>p. False) (good cm w) (bindR (remove_connection eid name addr cm1) (\<lambda>cm. Inr (cm, w1)))"
  using assms
  by (simp, intro outcome_mono [OF remove_connection_outcome [OF keeps_inv [OF assms(1)]]])
    (auto simp: good_def intro: keeps_trans)

lemma handle_event_outcome:
  assumes "serializes X" "select_laws X" "cm_inv cm" "handle_event X L ev cm w = Some r"
  shows "outcome (crash cm w L) (good cm w) r"
proof (cases ev)
  case (NewEstablishedMessage i j received)
  have "outcome (crash cm w L) (good cm w)
      (handle_established_message X (log_debug L) (interface_logging L) info cm w)" for info
    by (rule outcome_mono [OF handle_established_outcome [OF assms(1,3)]]) (auto simp: crash_def good_def)
  moreover have "good cm w (cm, w)" by (simp add: good_def keeps_refl assms(3))
  ultimately have "outcome (crash cm w L) (good cm w) (case result of
        Inr info \<Rightarrow> handle_established_message X (log_debug L) (interface_logging L) info cm w
      | Inl e \<Rightarrow> Inr (cm, w))" for result
    by (simp split: sum.split)
  then show ?thesis
    using assms(4) NewEstablishedMessage
    by (auto intro!: outcome_mono [OF await_incoming_outcome [OF assms(2,3)]] crashI(1))
next
  case (ConnectionTimeout i j)
  have sel: "outcome (crash cm w L) (\<lambda>r. \<forall>y. r = Some y \<longrightarrow> keeps cm (snd y)) (await_timeout X (w_now w) i j cm)"
    by (rule outcome_mono [OF await_timeout_outcome [OF assms(2,3)]]) (auto intro: crashI(1))
  show ?thesis
    using assms(4) unfolding ConnectionTimeout handle_event.simps
  proof (rule when_ready_outcome [OF _ sel])
    fix y :: "(endpoint_id \<times> string \<times> sockaddr) \<times> ('a, 'b) connection_manager"
    obtain eid name addr cm1 where [simp]: "y = ((eid, name, addr), cm1)" by (cases y) auto
    assume "keeps cm (snd y)"
    then show "outcome (crash cm w L) (good cm w) (case y of (x, xa) \<Rightarrow> (case x of (eid, name, addr) \<Rightarrow>
        \<lambda>cm. bindR (remove_connection eid name addr cm) (\<lambda>cm. Inr (cm, w))) xa)"
      using remove_then [of cm cm1 w w eid name addr] by (auto elim: outcome_mono simp del: outcome_bind)
  qed
next
  case (PacketSorterDeadline i)
  have sel: "outcome (crash cm w L) (\<lambda>r. \<forall>y. r = Some y \<longrightarrow> keeps cm (snd y)) (await_packet_sorters X (w_now w) i cm)"
    by (rule outcome_mono [OF await_sorters_outcome [OF assms(2,3)]]) (auto intro: crashI(1))
  show ?thesis
    using assms(4) unfolding PacketSorterDeadline handle_event.simps
    by (rule when_ready_outcome [OF _ sel])
      (auto simp: good_def intro: keeps_trans [OF _ sorter_deadline_keeps [OF keeps_inv]])
next
  case (TunnelPacket maybe_packet)
  then show ?thesis
    using assms(4)
    by (auto simp: good_def keeps_refl assms(3) split: sum.splits
        intro!: outcome_mono [OF handle_packet_from_tun_outcome [OF assms(1,3)]])
next
  case (NewSortedPacket i)
  have sel: "outcome (crash cm w L) (\<lambda>r. \<forall>y. r = Some y \<longrightarrow> keeps cm (snd y)) (await_endpoint_sorted_packets X i cm)"
    by (rule outcome_mono [OF await_sorted_outcome [OF assms(2,3)]]) (auto intro: crashI(1))
  show ?thesis
    using assms(4) unfolding NewSortedPacket handle_event.simps
    by (rule when_ready_outcome [OF _ sel])
      (auto simp: good_def split: option.split
        intro!: outcome_mono [OF log_and_forward_outcome] crashI(2))
next
  case (DuplicationMessage received)
  show ?thesis
    using assms(4) unfolding DuplicationMessage handle_event.simps
    by (rule received_from_outcome) (simp_all add: good_def duplication_keeps [OF assms(3)] crash_def faulty_def refuses_def)
qed

lemma clean_up_outcome:
  "good cm w s \<Longrightarrow> outcome (\<lambda>p. False) (good cm w) (clean_up s)"
  using remove_disconnected_outcome [of "fst s"]
  by (cases s) (auto simp: clean_up_def good_def keeps_inv intro: keeps_trans elim!: outcome_mono)

lemma populated_candidates: "cm_inv cm \<Longrightarrow> populated cm \<Longrightarrow> candidates cm = [] \<Longrightarrow> \<not> has_endpoints cm"
  by (cases "endpoints cm")
    (auto simp: candidates_empty_iff populated_def hm_all_def has_endpoints_def split: if_splits)

end
