(* ===== verification/Event_Panics.thy ===== *)
theory Event_Panics
  imports Event_Loop
begin

text \<open>
  Exactly when an event brings the process down.  For each operation with a panic the predicate \<open>..._fails\<close> names the
  circumstance, in terms of the state and of the answer the kernel gives to the very call in question; the lemmas
  \<open>..._panics_iff\<close> show that the operation panics then and only then.
\<close>

section \<open>Composing\<close>

lemma panics_bind: "panics (bindR m f) \<longleftrightarrow> panics m \<or> (\<exists>x. m = Inr x \<and> panics (f x))"
  by (cases m) auto

lemma outcome_never: "outcome (\<lambda>p. False) P m \<Longrightarrow> \<not> panics m"
  by (auto simp: outcome_returns)

lemma when_ready_panics:
  "when_ready m f = Some r \<Longrightarrow> panics r \<longleftrightarrow> panics m \<or> (\<exists>x. m = Inr (Some x) \<and> panics (f x))"
  by (auto simp: when_ready_def split: sum.splits option.splits)

lemma received_from_panics:
  "received_from received w f = Some r \<Longrightarrow> panics r \<longleftrightarrow> (case received of Inl e \<Rightarrow> True | Inr x \<Rightarrow> panics (f x))"
  by (auto simp: received_from_def split: sum.splits if_splits)

text \<open>The kernel refuses the call \<open>c\<close> if it is the next one.\<close>

definition refused :: "syscall \<Rightarrow> world \<Rightarrow> bool" where
  "refused c w \<longleftrightarrow> isl (w_answer w c (length (w_trace w)))"

lemma refused_refuses: "refused c w \<Longrightarrow> essential c \<Longrightarrow> refuses w"
  by (auto simp: refused_def isl_def intro: refusesI)

lemma must_call_panics_iff: "panics (must_call c w) \<longleftrightarrow> refused c w"
  by (auto simp: must_call_def sys_def refused_def isl_def split: sum.split)

lemma must_call_Inr: "must_call c w = Inr (n, w') \<Longrightarrow> w' = w\<lparr>w_trace := w_trace w @ [c]\<rparr>"
  by (auto simp: must_call_def sys_def split: sum.splits)

section \<open>Log files\<close>

definition logging_fails :: "fd \<Rightarrow> (duration \<Rightarrow> string) \<Rightarrow> world \<Rightarrow> bool" where
  "logging_fails file line w \<longleftrightarrow> w_system_now w < 0 \<or> refused (LogWrite file (line (nat (w_system_now w)))) w"

lemma add_log_line_panics_iff:
  "panics (interface_logger_add_log_line l e n i w) \<longleftrightarrow>
    logging_fails (il_log_file_writer l) (\<lambda>now. interface_log_line now e n i) w"
  "panics (packet_sorter_logger_add_log_line pl n w) \<longleftrightarrow>
    logging_fails (psl_log_file_writer pl) (\<lambda>now. packet_sorter_log_line now n) w"
  by (auto simp: interface_logger_add_log_line_def packet_sorter_logger_add_log_line_def since_epoch_eq panics_bind
      must_call_panics_iff logging_fails_def)

text \<open>The second file is flushed after the first.\<close>

definition flush_fails :: "'f loop_config \<Rightarrow> world \<Rightarrow> bool" where
  "flush_fails L w \<longleftrightarrow>
    (case interface_logging L of None \<Rightarrow> False | Some l \<Rightarrow> refused (LogFlush (il_log_file_writer l)) w) \<or>
    (case sorter_logging L of None \<Rightarrow> False | Some l \<Rightarrow> refused (LogFlush (psl_log_file_writer l))
      (case interface_logging L of None \<Rightarrow> w
       | Some l \<Rightarrow> w\<lparr>w_trace := w_trace w @ [LogFlush (il_log_file_writer l)]\<rparr>))"

lemma flush_panics_iff:
  "panics (interface_logger_flush l w) \<longleftrightarrow> refused (LogFlush (il_log_file_writer l)) w"
  "panics (packet_sorter_logger_flush pl w) \<longleftrightarrow> refused (LogFlush (psl_log_file_writer pl)) w"
  by (auto simp: interface_logger_flush_def packet_sorter_logger_flush_def panics_bind must_call_panics_iff)

lemma flush_logs_panics_iff: "panics (flush_logs L w) \<longleftrightarrow> flush_fails L w"
proof (cases "interface_logging L")
  case None
  then show ?thesis by (auto simp: flush_logs_def flush_fails_def flush_panics_iff split: option.split)
next
  case (Some l)
  have w': "w' = w\<lparr>w_trace := w_trace w @ [LogFlush (il_log_file_writer l)]\<rparr>" if "interface_logger_flush l w = Inr w'" for w'
    using that by (auto simp: interface_logger_flush_def bindR_eq_Inr dest: must_call_Inr)
  show ?thesis
  proof (cases "interface_logger_flush l w")
    case (Inl p)
    then have "refused (LogFlush (il_log_file_writer l)) w" using flush_panics_iff(1) [of l w] by simp
    then show ?thesis using Some Inl by (simp add: flush_logs_def flush_fails_def)
  next
    case (Inr v)
    then have "\<not> refused (LogFlush (il_log_file_writer l)) w" using flush_panics_iff(1) [of l w] by simp
    then show ?thesis using Some Inr w' [OF Inr]
      by (auto simp: flush_logs_def flush_fails_def flush_panics_iff split: option.split)
  qed
qed

definition forward_fails :: "'f loop_config \<Rightarrow> packet \<Rightarrow> world \<Rightarrow> bool" where
  "forward_fails L pkt w \<longleftrightarrow>
    (case sorter_logging L of
       None \<Rightarrow> refused (TunSend (pkt_bytes pkt)) w
     | Some l \<Rightarrow> logging_fails (psl_log_file_writer l) (\<lambda>now. packet_sorter_log_line now (pkt_seq pkt)) w \<or>
         refused (TunSend (pkt_bytes pkt)) (w\<lparr>w_trace := w_trace w @
           [LogWrite (psl_log_file_writer l) (packet_sorter_log_line (nat (w_system_now w)) (pkt_seq pkt))]\<rparr>))"

lemma log_and_forward_panics_iff: "panics (log_and_forward L pkt cm w) \<longleftrightarrow> forward_fails L pkt w"
proof -
  have tun: "panics (case sys (TunSend (pkt_bytes pkt)) v of (Inr n, w) \<Rightarrow> Inr (cm, w) | (Inl e, w) \<Rightarrow> Inl UnwrapErr)
      \<longleftrightarrow> refused (TunSend (pkt_bytes pkt)) v" for v
    by (auto simp: sys_def refused_def isl_def split: sum.split)
  show ?thesis
  proof (cases "sorter_logging L")
    case None
    then show ?thesis by (simp add: log_and_forward_def forward_fails_def tun)
  next
    case (Some l)
    have "v = w\<lparr>w_trace := w_trace w @
        [LogWrite (psl_log_file_writer l) (packet_sorter_log_line (nat (w_system_now w)) (pkt_seq pkt))]\<rparr>"
      if "packet_sorter_logger_add_log_line l (pkt_seq pkt) w = Inr v" for v
      using that by (auto simp: packet_sorter_logger_add_log_line_def since_epoch_eq bindR_eq_Inr dest: must_call_Inr split: if_splits)
    moreover have "panics (packet_sorter_logger_add_log_line l (pkt_seq pkt) w) \<longleftrightarrow>
        (\<nexists>v. packet_sorter_logger_add_log_line l (pkt_seq pkt) w = Inr v)"
      using not_panics_iff by blast
    ultimately show ?thesis
      using Some add_log_line_panics_iff(2) [of l "pkt_seq pkt" w]
      by (auto simp: log_and_forward_def forward_fails_def panics_bind tun)
  qed
qed

section \<open>Messages\<close>

definition packet_fails ::
  "interface_logger option \<Rightarrow> endpoint_read_info \<Rightarrow> packet \<Rightarrow> ('t, 'c) connection_manager \<Rightarrow> world \<Rightarrow> bool" where
  "packet_fails logging info pkt cm w \<longleftrightarrow>
    (case logging of
       None \<Rightarrow> False
     | Some l \<Rightarrow> get_endpoint (eri_endpoint_id info) cm \<noteq> None \<and>
         logging_fails (il_log_file_writer l) (\<lambda>now. interface_log_line now (eri_endpoint_id info) (pkt_seq pkt)
           (ri_interface_name (connection_read_info info))) w)"

definition ack_fails ::
  "'f f64 option \<Rightarrow> hello_ack \<Rightarrow> ('t, 'c) endpoint \<Rightarrow> world \<Rightarrow> bool" where
  "ack_fails D a ep w \<longleftrightarrow> estimates_panic D (hello_path_latency ep)
     (insert_new_timestamp (w_system_now w) (ack_seq a) (hello_ack_path_latency ep))"

definition established_fails ::
  "('t, 'c) deps \<Rightarrow> 'f loop_config \<Rightarrow> endpoint_read_info \<Rightarrow> ('t, 'c) connection_manager \<Rightarrow> world \<Rightarrow> bool" where
  "established_fails X L info cm w \<longleftrightarrow>
    (case bincode_deserialize X (packet_bytes (connection_read_info info)) of
       None \<Rightarrow> False
     | Some (Packet pkt) \<Rightarrow> packet_fails (interface_logging L) info pkt cm w
     | Some (Hello h) \<Rightarrow> (case get_endpoint (hello_id h) cm of None \<Rightarrow> False
         | Some ep \<Rightarrow> repeated_hello_fails (log_debug L) info h ep cm w)
     | Some (HelloAck a) \<Rightarrow> (case get_endpoint (ack_id a) cm of None \<Rightarrow> False
         | Some ep \<Rightarrow> ack_fails (log_debug L) a ep w))"

lemma handle_packet_panics_iff: "panics (handle_packet X logging info pkt cm w) \<longleftrightarrow> packet_fails logging info pkt cm w"
  by (auto simp: handle_packet_def packet_fails_def panics_bind add_log_line_panics_iff split: option.split)

lemma handle_hello_ack_panics_iff:
  "panics (handle_hello_ack X D info a cm w) \<longleftrightarrow>
    (case get_endpoint (ack_id a) cm of None \<Rightarrow> False | Some ep \<Rightarrow> ack_fails D a ep w)"
proof (cases "get_endpoint (ack_id a) cm")
  case None
  then show ?thesis by (simp add: handle_hello_ack_def hm_contains_key_def)
next
  case (Some ep)
  let ?ep = "ep\<lparr>hello_ack_path_latency := insert_new_timestamp (w_system_now w) (ack_seq a) (hello_ack_path_latency ep)\<rparr>"
  have "panics (handle_hello_ack X D info a cm w) \<longleftrightarrow> panics (debug_latency D ?ep)"
    using Some by (cases "debug_latency D ?ep")
      (simp_all add: handle_hello_ack_def hm_contains_key_def Let_def set_endpoint_def hm.get_put)
  then show ?thesis using Some by (simp add: debug_latency_panics_iff ack_fails_def)
qed

lemma handle_established_panics_iff:
  assumes "serializes X" "cm_inv cm"
  shows "panics (handle_established_message X (log_debug L) (interface_logging L) info cm w) \<longleftrightarrow> established_fails X L info cm w"
proof (cases "bincode_deserialize X (packet_bytes (connection_read_info info))")
  case (Some m)
  show ?thesis
  proof (cases m)
    case (Hello h)
    have "panics (handle_repeated_hello X (log_debug L) info h cm w) \<longleftrightarrow> (case get_endpoint (hello_id h) cm of None \<Rightarrow> False
        | Some ep \<Rightarrow> repeated_hello_fails (log_debug L) info h ep cm w)"
      using handle_repeated_hello_panics_iff [OF assms, of h _ "log_debug L" info w]
      by (cases "get_endpoint (hello_id h) cm") (simp add: handle_repeated_hello_def, simp only: option.case)
    then show ?thesis using Some Hello by (simp add: handle_established_message_def established_fails_def)
  qed (use Some in \<open>simp_all add: handle_established_message_def established_fails_def handle_packet_panics_iff
      handle_hello_ack_panics_iff\<close>)
qed (simp add: handle_established_message_def established_fails_def)

text \<open>
  A hello on the listening socket panics when it is admitted, its path is new to the endpoint it is admitted to, and the
  socket for the path is opened but not named.
\<close>

definition admitted_path_is_new :: "hello \<Rightarrow> sockaddr \<Rightarrow> string \<Rightarrow> ('t, 'c) connection_manager \<Rightarrow> bool" where
  "admitted_path_is_new h addr name cm \<longleftrightarrow>
    (case get_endpoint (hello_id h) cm of
       None \<Rightarrow> True
     | Some ep \<Rightarrow>
         if session_id ep = hello_session_id h then \<not> (\<exists>ce\<in>set (connections ep). is_entry addr name ce)
         else hello_session_id h \<notin> set (session_history cm))"

definition hello_fails ::
  "('t, 'c) deps \<Rightarrow> u8 list \<Rightarrow> sockaddr \<Rightarrow> string \<Rightarrow> ('t, 'c) connection_manager \<Rightarrow> world \<Rightarrow> bool" where
  "hello_fails X message addr name cm w \<longleftrightarrow>
    (case bincode_deserialize X message of
       Some (Hello h) \<Rightarrow> admitted_path_is_new h addr name cm \<and> naming_fails (cm_local_address cm) addr w
     | _ \<Rightarrow> False)"

lemma accept_path_panics_iff:
  assumes "serializes X" "endpoint_ok k ep"
  shows "panics (accept_path X addr name cm ep w) \<longleftrightarrow>
    \<not> (\<exists>ce\<in>set (connections ep). is_entry addr name ce) \<and> naming_fails (cm_local_address cm) addr w"
proof -
  let ?add = "add_connection X addr name (cm_local_address cm) (cm_connection_timeout cm) ep w"
  have "panics ?add \<longleftrightarrow> \<not> (\<exists>ce\<in>set (connections ep). is_entry addr name ce) \<and> naming_fails (cm_local_address cm) addr w"
    using add_connection_cases [of ep addr name X "cm_local_address cm" "cm_connection_timeout cm" w]
    by (auto split: if_splits)
  moreover have "panics (accept_path X addr name cm ep w) \<longleftrightarrow> panics ?add"
  proof (cases ?add)
    case (Inr x)
    obtain r ep1 w1 where x: "x = (r, ep1, w1)" by (cases x)
    have ok: "endpoint_ok k ep1"
      using add_connection_grown [of w ep X addr name "cm_local_address cm" "cm_connection_timeout cm"] assms(2) Inr x
      by (simp add: grown_def)
    have ack: "\<exists>ep3 w3. acknowledge X own sid rs ep2 w2 = Inr (ep3, w3) \<and> endpoint_ok k ep3" if "endpoint_ok k ep2"
      for own sid rs ep2 w2
      using acknowledge_outcome [OF assms(1) that, of w2 own sid rs] ep_after_ok [OF _ that] by (auto simp: outcome_returns)
    obtain ep2 w2 where 2: "acknowledge X (own_id cm) (session_id ep1) (own_static_routes cm) ep1 w1 = Inr (ep2, w2)"
      "endpoint_ok k ep2" using ack [OF ok] by blast
    obtain ep3 w3 where 3: "acknowledge X (own_id cm) (session_id ep2) (own_static_routes cm) ep2 w2 = Inr (ep3, w3)"
      using ack [OF 2(2)] by blast
    show ?thesis using Inr x 2 3 by (simp add: accept_path_def split: sum.split)
  qed (simp add: accept_path_def)
  ultimately show ?thesis by blast
qed

lemma handle_hello_panics_iff:
  assumes "serializes X" "cm_inv cm"
  shows "panics (handle_hello X message addr name cm w) \<longleftrightarrow> hello_fails X message addr name cm w"
proof (cases "\<exists>h. bincode_deserialize X message = Some (Hello h)")
  case False
  then show ?thesis by (auto simp: handle_hello_def hello_fails_def split: option.split messages.split)
next
  case True
  then obtain h where h: "bincode_deserialize X message = Some (Hello h)" by blast
  let ?cm = "ensure_endpoint X (w_now w) h cm"
  obtain ep where ep: "get_endpoint (hello_id h) ?cm = Some ep"
    using ensure_endpoint_present by blast
  have ok: "endpoint_ok (hello_id h) ep"
    by (rule cm_inv_get [OF ensure_endpoint_inv [OF assms(2)] ep])
  have adm: "(case admit_session X (w_now w) h ep ?cm of None \<Rightarrow> False
      | Some (ep1, hist) \<Rightarrow> \<not> (\<exists>ce\<in>set (connections ep1). is_entry addr name ce)) \<longleftrightarrow> admitted_path_is_new h addr name cm"
  proof (cases "get_endpoint (hello_id h) cm")
    case None
    then have "ep = endpoint_new X (w_now w) (hello_id h) (hello_session_id h) (packet_sorter_deadline cm)"
      using ep by (simp add: ensure_endpoint_def hm_contains_key_def set_endpoint_def hm.get_put)
    then show ?thesis using None by (simp add: admit_session_def admitted_path_is_new_def endpoint_new_start)
  next
    case (Some e)
    then show ?thesis using ep
      by (auto simp: ensure_endpoint_def hm_contains_key_def admit_session_def admitted_path_is_new_def endpoint_new_start)
  qed
  show ?thesis
  proof (cases "admit_session X (w_now w) h ep ?cm")
    case None
    then show ?thesis using h ep adm by (simp add: handle_hello_def hello_fails_def)
  next
    case (Some x)
    then obtain ep1 hist where x: "admit_session X (w_now w) h ep ?cm = Some (ep1, hist)" by (cases x) auto
    then have "endpoint_ok (hello_id h) ep1" using admit_session_ok [OF _ ok] by blast
    from accept_path_panics_iff [OF assms(1) this, of addr name ?cm w]
    show ?thesis using h ep adm x
      by (cases "accept_path X addr name ?cm ep1 w") (auto simp: handle_hello_def hello_fails_def Let_def)
  qed
qed

section \<open>Waits and events\<close>

lemma select_endpoint_none: "select_laws X \<Longrightarrow> candidates cm = [] \<Longrightarrow> select_endpoint X i cm = Inl SelectAllEmpty"
  by (simp add: select_endpoint_def select_laws_def)

lemma outcome_panics: "outcome (\<lambda>p. p = SelectAllEmpty \<and> A) P m \<Longrightarrow> panics m \<Longrightarrow> A"
  by (cases m) auto

lemma waits_panic_iff:
  assumes "select_laws X" "cm_inv cm"
  shows "panics (await_incoming X i j received cm) \<longleftrightarrow> candidates cm = []"
    and "panics (await_timeout X now i j cm) \<longleftrightarrow> candidates cm = []"
    and "panics (await_endpoint_sorted_packets X i cm) \<longleftrightarrow> candidates cm = []"
    and "panics (await_packet_sorters X now i cm) \<longleftrightarrow> candidates cm = []"
proof -
  note none = select_endpoint_none [OF assms(1), of cm i]
  show "panics (await_incoming X i j received cm) \<longleftrightarrow> candidates cm = []"
    using outcome_panics [OF await_incoming_outcome [OF assms]] none by (auto simp: await_incoming_def)
  show "panics (await_timeout X now i j cm) \<longleftrightarrow> candidates cm = []"
    using outcome_panics [OF await_timeout_outcome [OF assms]] none by (auto simp: await_timeout_def)
  show "panics (await_endpoint_sorted_packets X i cm) \<longleftrightarrow> candidates cm = []"
    using outcome_panics [OF await_sorted_outcome [OF assms]] none by (auto simp: await_endpoint_sorted_packets_def)
  show "panics (await_packet_sorters X now i cm) \<longleftrightarrow> candidates cm = []"
    using outcome_panics [OF await_sorters_outcome [OF assms]] none by (auto simp: await_packet_sorters_def)
qed

text \<open>
  The three waits with a handler that cannot panic fail exactly when no endpoint has a connection; the two others also when
  their handler does with what was awaited.  A packet from the tunnel device never panics.
\<close>

fun event_fails ::
  "('t, 'c) deps \<Rightarrow> 'f loop_config \<Rightarrow> event \<Rightarrow> ('t, 'c) connection_manager \<Rightarrow> world \<Rightarrow> bool" where
  "event_fails X L (NewEstablishedMessage i j received) cm w \<longleftrightarrow> candidates cm = [] \<or>
    (\<exists>info. await_incoming X i j received cm = Inr (Inr info) \<and> established_fails X L info cm w)"
| "event_fails X L (ConnectionTimeout i j) cm w \<longleftrightarrow> candidates cm = []"
| "event_fails X L (PacketSorterDeadline i) cm w \<longleftrightarrow> candidates cm = []"
| "event_fails X L (TunnelPacket maybe_packet) cm w \<longleftrightarrow> False"
| "event_fails X L (NewSortedPacket i) cm w \<longleftrightarrow> candidates cm = [] \<or>
    (\<exists>eid pkt cm'. await_endpoint_sorted_packets X i cm = Inr (Some ((eid, Some pkt), cm')) \<and> forward_fails L pkt w)"
| "event_fails X L (DuplicationMessage received) cm w \<longleftrightarrow> isl received"

lemma handle_event_panics_iff:
  assumes "serializes X" "select_laws X" "cm_inv cm" "handle_event X L ev cm w = Some r"
  shows "panics r \<longleftrightarrow> event_fails X L ev cm w"
proof (cases ev)
  case (NewEstablishedMessage i j received)
  have r: "r = bindR (await_incoming X i j received cm) (\<lambda>result. case result of
        Inr info \<Rightarrow> handle_established_message X (log_debug L) (interface_logging L) info cm w | Inl e \<Rightarrow> Inr (cm, w))"
    using assms(4) NewEstablishedMessage by simp
  show ?thesis
  proof (cases "await_incoming X i j received cm")
    case (Inl p)
    then show ?thesis
      using waits_panic_iff(1) [OF assms(2,3), of i j received] by (simp add: r NewEstablishedMessage)
  next
    case (Inr x)
    then have "candidates cm \<noteq> []" using waits_panic_iff(1) [OF assms(2,3), of i j received] by simp
    then show ?thesis using Inr handle_established_panics_iff [OF assms(1,3), of L]
      by (cases x) (simp_all add: r NewEstablishedMessage)
  qed
next
  case (ConnectionTimeout i j)
  have k: "\<not> panics (case x of ((eid, name, addr), cm1) \<Rightarrow> bindR (remove_connection eid name addr cm1) (\<lambda>cm. Inr (cm, w)))"
    if "await_timeout X (w_now w) i j cm = Inr (Some x)" for x
  proof -
    obtain eid name addr cm1 where x: "x = ((eid, name, addr), cm1)" by (cases x) auto
    have "keeps cm cm1" using await_timeout_outcome [OF assms(2,3), of "w_now w" i j] that x by simp
    from outcome_never [OF remove_then [OF this extends_refl]] show ?thesis by (simp add: x)
  qed
  show ?thesis
  proof (cases "await_timeout X (w_now w) i j cm")
    case (Inl p)
    then show ?thesis using waits_panic_iff(2) [OF assms(2,3), of "w_now w" i j] assms(4) ConnectionTimeout
      by (auto simp: when_ready_def)
  next
    case (Inr x)
    then obtain y where y: "x = Some y" using assms(4) ConnectionTimeout by (cases x) (auto simp: when_ready_def)
    then have "\<not> panics r" using k [of y] Inr assms(4) ConnectionTimeout by (auto simp: when_ready_def split: prod.splits)
    then show ?thesis using waits_panic_iff(2) [OF assms(2,3), of "w_now w" i j] Inr ConnectionTimeout by simp
  qed
next
  case (PacketSorterDeadline i)
  then show ?thesis
    using assms(4) waits_panic_iff(4) [OF assms(2,3)] by (auto dest!: when_ready_panics)
next
  case (TunnelPacket maybe_packet)
  then show ?thesis
    using assms(4) outcome_never [OF handle_packet_from_tun_outcome [OF assms(1,3)]] by (auto split: sum.splits)
next
  case (NewSortedPacket i)
  then show ?thesis
    using assms(4) waits_panic_iff(3) [OF assms(2,3)]
    by (auto simp: log_and_forward_panics_iff split: option.splits dest!: when_ready_panics)
next
  case (DuplicationMessage received)
  then show ?thesis
    using assms(4) by (auto dest!: received_from_panics split: sum.splits)
qed

section \<open>Opening a connection\<close>

text \<open>
  The socket cannot be made: there is none to be had, or binding it to the device is refused for another reason than
  that the device is gone.
\<close>

definition socket_panics :: "string \<Rightarrow> world \<Rightarrow> bool" where
  "socket_panics name w \<longleftrightarrow>
    (case w_answer w SocketNew (length (w_trace w)) of
       Inl e \<Rightarrow> True
     | Inr fd \<Rightarrow> (case w_answer w (BindDevice fd name) (Suc (length (w_trace w))) of
         Inl e \<Rightarrow> e \<noteq> NoDevice
       | Inr _ \<Rightarrow> False))"

text \<open>The greeting was sent, but the socket it was sent on is not named.\<close>

definition opened_unnamed ::
  "('t, 'c) deps \<Rightarrow> interfaces \<Rightarrow> string \<Rightarrow> ipv4 \<Rightarrow> sockaddr \<Rightarrow> endpoint_id \<Rightarrow> ('t, 'c) connection_manager \<Rightarrow> world \<Rightarrow> bool" where
  "opened_unnamed X ifs name ip destination eid cm w \<longleftrightarrow>
    (case make_socket ifs name (Some ip) None True w of
       Inr (Inr sk, w1) \<Rightarrow>
         (case sys (ConnectTo (sk_fd sk) destination) w1 of
            (Inr _, w2) \<Rightarrow>
              (case bincode_serialize X (Hello \<lparr>hello_id = own_id cm, hello_session_id = session_id (opened_endpoint X eid cm w),
                   hello_static_routes = own_static_routes cm, hello_seq = hello_counter (opened_endpoint X eid cm w)\<rparr>) of
                 Some bytes \<Rightarrow>
                   (case sys (Send (sk_fd sk) bytes) w2 of (Inr _, w3) \<Rightarrow> names_refused sk w3 | (Inl _, _) \<Rightarrow> False)
               | None \<Rightarrow> False)
          | (Inl _, _) \<Rightarrow> False)
     | _ \<Rightarrow> False)"

definition opening_fails ::
  "('t, 'c) deps \<Rightarrow> interfaces \<Rightarrow> string \<Rightarrow> sockaddr \<Rightarrow> sockaddr \<Rightarrow> endpoint_id \<Rightarrow> ('t, 'c) connection_manager \<Rightarrow> world \<Rightarrow> bool" where
  "opening_fails X ifs name local_addr destination eid cm w \<longleftrightarrow>
    (case local_addr of
       V6 _ _ \<Rightarrow> False
     | V4 ip _ \<Rightarrow> socket_panics name w \<or> opened_unnamed X ifs name ip destination eid cm w)"

lemma socket_panics_iff: "panics (make_socket ifs name (Some ip) port True w) \<longleftrightarrow> socket_panics name w"
  unfolding socket_panics_def by (rule make_socket_panics_iff)

lemma names_refused_cong:
  "w_answer v = w_answer w \<Longrightarrow> w_trace v = w_trace w \<Longrightarrow> sk_fd s = sk_fd sk \<Longrightarrow> names_refused s v = names_refused sk w"
  by (simp add: names_refused_def)

lemma greet_and_register_panics_iff:
  assumes "serializes X" "sk_peer sk = Some destination" "sk_local sk \<noteq> None"
    and "bincode_serialize X (Hello \<lparr>hello_id = own_id cm, hello_session_id = session_id ep,
      hello_static_routes = own_static_routes cm, hello_seq = hello_counter ep\<rparr>) = Some bytes"
  shows "panics (greet_and_register X name destination eid sk ep cm w) \<longleftrightarrow>
    (case sys (Send (sk_fd sk) bytes) w of (Inr _, w3) \<Rightarrow> names_refused sk w3 | (Inl _, _) \<Rightarrow> False)"
proof -
  obtain a v where a: "sys (Send (sk_fd sk) bytes) w = (a, v)" by (cases "sys (Send (sk_fd sk) bytes) w")
  obtain l where l: "sk_local sk = Some l" using assms(3) by blast
  have n: "panics (connection_new X sk (Some name) timeout v) \<longleftrightarrow> names_refused sk v" for timeout
    using connection_new_cases [OF assms(2) l, of v X "Some name" timeout] by (auto split: if_splits)
  show ?thesis using assms(4) a n
    by (cases a) (auto simp: greet_and_register_def Let_def panics_bind)
qed

lemma create_new_connection_panics_iff:
  assumes "serializes X" "local_addr = V4 ip q"
  shows "panics (create_new_connection X ifs name local_addr destination eid cm w) \<longleftrightarrow>
    opening_fails X ifs name local_addr destination eid cm w"
proof -
  note V4 = assms(2)
  show ?thesis
  proof (cases "make_socket ifs name (Some ip) None True w")
    case (Inl p)
    then have "socket_panics name w" using socket_panics_iff [of ifs name ip None w] by simp
    then show ?thesis using V4 Inl by (simp add: create_new_connection_eq opening_fails_def)
  next
    case (Inr x)
    obtain r w1 where x: "x = (r, w1)" by (cases x)
    have ns: "\<not> socket_panics name w" using socket_panics_iff [of ifs name ip None w] Inr by simp
    show ?thesis
    proof (cases r)
      case (Inl e)
      then show ?thesis using V4 Inr x ns by (simp add: create_new_connection_eq opening_fails_def opened_unnamed_def)
    next
      case r: (Inr sk)
      obtain t where w1: "w1 = w\<lparr>w_trace := w_trace w @ t\<rparr>" and l: "sk_local sk \<noteq> None"
        using make_socket_calls [OF Inr [unfolded x r]] by blast
      obtain a w2 where a: "sys (ConnectTo (sk_fd sk) destination) w1 = (a, w2)"
        by (cases "sys (ConnectTo (sk_fd sk) destination) w1")
      show ?thesis
      proof (cases a)
        case (Inl e)
        then show ?thesis using V4 \<open>make_socket ifs name (Some ip) None True w = Inr x\<close> x r a ns
          by (simp add: create_new_connection_eq opening_fails_def opened_unnamed_def)
      next
        case ok: (Inr n)
        have w2: "w_answer w2 = w_answer w" "w_now w2 = w_now w" "w_uuids w2 = w_uuids w" "w_uuid_count w2 = w_uuid_count w"
          using a by (auto simp: sys_def w1)
        obtain ep cm1 w3 where p: "peer_endpoint X eid cm w2 = (ep, cm1, w3)" by (cases "peer_endpoint X eid cm w2")
        then have pe: "ep = opened_endpoint X eid cm w" "own_id cm1 = own_id cm" "own_static_routes cm1 = own_static_routes cm"
          "w_answer w3 = w_answer w" "w_trace w3 = w_trace w2"
          using w2 by (auto simp: peer_endpoint_def opened_endpoint_def fresh_uuid_def Let_def split: option.splits)
        obtain bytes where b: "bincode_serialize X (Hello \<lparr>hello_id = own_id cm1, hello_session_id = session_id ep,
            hello_static_routes = own_static_routes cm1, hello_seq = hello_counter ep\<rparr>) = Some bytes"
          using serializesD [OF assms(1)] by blast
        have "panics (create_new_connection X ifs name local_addr destination eid cm w) \<longleftrightarrow>
            panics (greet_and_register X name destination eid (sk\<lparr>sk_peer := Some destination\<rparr>) ep cm1 w3)"
          using V4 Inr x r a ok p by (simp add: create_new_connection_eq)
        also have "\<dots> \<longleftrightarrow> (case sys (Send (sk_fd sk) bytes) w3 of (Inr _, v) \<Rightarrow> names_refused sk v | (Inl _, _) \<Rightarrow> False)"
          using greet_and_register_panics_iff [OF assms(1) _ _ b, of "sk\<lparr>sk_peer := Some destination\<rparr>" destination name eid w3] l
          by (simp add: names_refused_def split: sum.split prod.split)
        also have "\<dots> \<longleftrightarrow> (case sys (Send (sk_fd sk) bytes) w2 of (Inr _, v) \<Rightarrow> names_refused sk v | (Inl _, _) \<Rightarrow> False)"
          using pe(4,5) w2(1) by (simp add: sys_def names_refused_def split: sum.split)
        also have "\<dots> \<longleftrightarrow> opening_fails X ifs name local_addr destination eid cm w"
          using V4 Inr x r a ok b ns by (simp add: opening_fails_def opened_unnamed_def pe)
        finally show ?thesis .
      qed
    qed
  qed
qed

text \<open>A loop that opens several connections panics at the first one that does.\<close>

fun reopening_fails ::
  "('t, 'c) deps \<Rightarrow> interfaces \<Rightarrow> (string \<times> sockaddr) list \<Rightarrow> connection_info list \<Rightarrow>
    ('t, 'c) connection_manager \<Rightarrow> world \<Rightarrow> bool" where
  "reopening_fails X ifs alive [] cm w \<longleftrightarrow> False"
| "reopening_fails X ifs alive (info # infos) cm w \<longleftrightarrow>
    (if (ci_interface_name info, ci_destination_address info) \<in> set alive then reopening_fails X ifs alive infos cm w
     else opening_fails X ifs (ci_interface_name info) (ci_local_address info) (ci_destination_address info)
         (ci_destination_endpoint_id info) cm w \<or>
       (\<exists>r cm1 w1. create_new_connection X ifs (ci_interface_name info) (ci_local_address info)
           (ci_destination_address info) (ci_destination_endpoint_id info) cm w = Inr (r, cm1, w1) \<and>
         reopening_fails X ifs alive infos cm1 w1))"

lemma reopen_loop_panics_iff:
  assumes "serializes X"
  shows "\<forall>info\<in>set infos. \<exists>ip q. ci_local_address info = V4 ip q \<Longrightarrow>
    panics (reopen_loop X ifs alive infos cm w) \<longleftrightarrow> reopening_fails X ifs alive infos cm w"
proof (induction infos arbitrary: cm w)
  case (Cons info infos)
  let ?new = "create_new_connection X ifs (ci_interface_name info) (ci_local_address info) (ci_destination_address info)
         (ci_destination_endpoint_id info) cm w"
  obtain ip q where "ci_local_address info = V4 ip q" using Cons.prems by auto
  from create_new_connection_panics_iff [OF assms this, of ifs "ci_interface_name info"
        "ci_destination_address info" "ci_destination_endpoint_id info" cm w]
  show ?case using Cons by (cases ?new) auto
qed simp

lemma ensure_endpoint_connections_panics_iff:
  assumes "serializes X" "\<forall>info\<in>set infos. \<exists>ip q. ci_local_address info = V4 ip q"
  shows "panics (ensure_endpoint_connections X ifs eid infos cm w) \<longleftrightarrow>
    (case get_endpoint eid cm of None \<Rightarrow> False
     | Some ep \<Rightarrow> reopening_fails X ifs (get_alive_connections ep) infos cm w)"
  by (simp add: ensure_endpoint_connections_def reopen_loop_panics_iff [OF assms] split: option.split)

end
