(* ===== verification/Server.thy ===== *)
theory Server
  imports Event_Panics
begin

text \<open>
  The server: \<open>crates/server/src/main.rs\<close> as a step relation.  A state is the connection manager and
  the world; a step is the passage of time or one turn of the loop.  A turn that panics steps to
  \<open>Inl p\<close>, from where nothing steps.
\<close>

section \<open>The loop\<close>

datatype server_event =
    NewConnection "(u8 list \<times> sockaddr) io_result"
  | FlushInterfaceLog
  | SharedEvent event

text \<open>What is set up before the loop.  Every failure there ends the process.\<close>

definition open_server_socket :: "sockaddr \<Rightarrow> world \<Rightarrow> (fd \<times> world) run" where
  "open_server_socket socketaddr w =
    bindR (must_call SocketNew w) (\<lambda>(server_socket, w).
    bindR (must_call (SetReuseAddress server_socket) w) (\<lambda>(_, w).
    bindR (must_call (Bind server_socket socketaddr) w) (\<lambda>(_, w).
    bindR (must_call (SetNonblocking server_socket) w) (\<lambda>(_, w).
    bindR (must_call (AsyncTryFrom server_socket) w) (\<lambda>(_, w).
      Inr (server_socket, w))))))"

definition server_init ::
  "'f f64 option \<Rightarrow> server_settings \<Rightarrow> world \<Rightarrow>
    ('f loop_config \<times> ('t, 'c) connection_manager \<times> world) run" where
  "server_init D s w =
    bindR (must_call (UdpBind duplication_address) w) (\<lambda>(duplication_socket, w).
    bindR (start_loggers (ss_interface_logger s) (ss_packet_sorter_logger s) w) (\<lambda>(il, psl, w).
    bindR (open_server_socket (server_bind_address s) w) (\<lambda>(server_socket, w).
    bindR (tun_ipv4 (ss_tunnel_config s)) (\<lambda>tun_address_ipv4.
    bindR (must_call (TunCreate tun_address_ipv4 (netmask (ss_tunnel_config s)) (mtu (ss_tunnel_config s))) w)
      (\<lambda>(tun_device, w).
      let default_route = Some
        [\<lparr>route_address = 0, subnet_mask = 0\<rparr>,
         \<lparr>route_address = tun_address_ipv4, subnet_mask = netmask (ss_tunnel_config s)\<rparr>]
      in Inr (\<lparr>interface_logging = il, sorter_logging = psl, log_debug = D\<rparr>,
           connection_manager_new (server_bind_address s) (ss_peer_id s)
             (tunnel_device_address (ss_tunnel_config s)) default_route
             (ss_connection_timeout s) (ss_packet_sorter_deadline s), w))))))"

definition server_turn ::
  "('t, 'c) deps \<Rightarrow> 'f loop_config \<Rightarrow> server_event \<Rightarrow> ('t, 'c) connection_manager \<Rightarrow> world \<Rightarrow> ('t, 'c) step option" where
  "server_turn X L ev cm w =
    (if has_endpoints cm then
       map_option (\<lambda>r. bindR r clean_up)
         (case ev of
            NewConnection received \<Rightarrow>
              received_from received w (\<lambda>(bytes, addr). handle_hello X bytes addr ''DYN-interface'' cm w)
          | FlushInterfaceLog \<Rightarrow> Some (bindR (flush_logs L w) (\<lambda>w. Inr (cm, w)))
          | SharedEvent e \<Rightarrow> handle_event X L e cm w)
     else
       (case ev of
          NewConnection received \<Rightarrow>
              received_from received w (\<lambda>(bytes, addr). handle_hello X bytes addr ''DYN-interface'' cm w)
        | _ \<Rightarrow> None))"

inductive server_step ::
  "('t, 'c) deps \<Rightarrow> 'f loop_config \<Rightarrow> ('t, 'c) connection_manager \<times> world \<Rightarrow> ('t, 'c) step \<Rightarrow> bool"
  for X :: "('t, 'c) deps" and L :: "'f loop_config" where
  clock: "w_now w \<le> t \<Longrightarrow> server_step X L (cm, w) (Inr (cm, w\<lparr>w_now := t, w_system_now := u\<rparr>))"
| turn: "server_turn X L ev cm w = Some r \<Longrightarrow> server_step X L (cm, w) r"

inductive server_reachable ::
  "('t, 'c) deps \<Rightarrow> 'f f64 option \<Rightarrow> server_settings \<Rightarrow> world \<Rightarrow> 'f loop_config \<Rightarrow>
    ('t, 'c) connection_manager \<times> world \<Rightarrow> bool"
  for X :: "('t, 'c) deps" and D :: "'f f64 option" and S :: server_settings and w\<^sub>0 :: world where
  start: "server_init D S w\<^sub>0 = Inr (L, cm, w) \<Longrightarrow> server_reachable X D S w\<^sub>0 L (cm, w)"
| step: "server_reachable X D S w\<^sub>0 L s \<Longrightarrow> server_step X L s (Inr s') \<Longrightarrow> server_reachable X D S w\<^sub>0 L s'"

inductive_cases server_stepE: "server_step X L (cm, w) r"

section \<open>Invariants\<close>

lemma hello_fails_only_if_refused: "open_fails l a w \<Longrightarrow> refuses w"
  by (auto simp: open_fails_def open_dynamic_socket_def try_call_def sys_def intro: refusesI
      split: sum.splits)

lemma accept_path_populates:
  assumes "serializes X" "endpoint_ok k ep" "\<not> refuses w"
    and r: "accept_path X addr name cm ep w = Inr (ep', w')"
  shows "has_connections ep'"
proof -
  have "outcome (\<lambda>p. p = UnwrapErr \<and> refuses w) (\<lambda>(r, ep', w'). extends w w' \<and> grown ep ep' \<and>
      (\<forall>e. r = Inl e \<longrightarrow> ep' = ep) \<and> (r = Inr () \<longrightarrow> has_connections ep'))
      (add_connection X addr name (cm_local_address cm) (cm_connection_timeout cm) ep w)"
    by (rule add_connection_grown)
  moreover have "\<exists>ep1 w1. add_connection X addr name (cm_local_address cm) (cm_connection_timeout cm) ep w = Inr (Inr (), ep1, w1)"
    using add_connection_ok_iff [of X addr name "cm_local_address cm" "cm_connection_timeout cm" ep w]
      hello_fails_only_if_refused naming_fails_refuses assms(3) by blast
  ultimately obtain ep1 w1 where
    a: "add_connection X addr name (cm_local_address cm) (cm_connection_timeout cm) ep w = Inr (Inr (), ep1, w1)"
    and g: "grown ep ep1" "has_connections ep1" by auto
  have ok: "endpoint_ok k ep1" using g(1) assms(2) by (simp add: grown_def)
  have ack: "endpoint_ok k ep3 \<and> has_connections ep3"
    if "endpoint_ok k ep2" "has_connections ep2" "acknowledge X own sid rs ep2 w2 = Inr (ep3, w3)" for own sid rs ep2 w2 ep3 w3
    using acknowledge_outcome [OF assms(1) that(1), of w2 own sid rs] that ep_after_has_connections ep_after_ok
    by fastforce
  obtain ep2 w2 where "acknowledge X (own_id cm) (session_id ep1) (own_static_routes cm) ep1 w1 = Inr (ep2, w2)"
    "acknowledge X (own_id cm) (session_id ep2) (own_static_routes cm) ep2 w2 = Inr (ep', w')"
    using r a by (auto simp: accept_path_def bindR_eq_Inr)
  then show ?thesis using ack [OF ok g(2)] ack by blast
qed

lemma handle_hello_populates:
  assumes "serializes X" "cm_inv cm" "\<not> refuses w" "populated cm"
    and r: "handle_hello X message addr name cm w = Inr (cm', w')"
  shows "populated cm'"
proof (cases "\<exists>h. bincode_deserialize X message = Some (Hello h)")
  case False
  then have "cm' = cm" using r by (auto simp: handle_hello_def split: option.splits messages.splits)
  then show ?thesis using assms(4) by simp
next
  case True
  then obtain h where h: "bincode_deserialize X message = Some (Hello h)" by blast
  let ?cm = "ensure_endpoint X (w_now w) h cm"
  obtain ep where ep: "get_endpoint (hello_id h) ?cm = Some ep"
    using ensure_endpoint_present by blast
  have ok: "endpoint_ok (hello_id h) ep"
    by (rule cm_inv_get [OF ensure_endpoint_inv [OF assms(2)] ep])
  have others: "has_connections e" if "get_endpoint k ?cm = Some e" "k \<noteq> hello_id h" for k e
    using that assms(4) by (auto simp: ensure_endpoint_def populated_def hm_all_def set_endpoint_def
        hm.get_put split: if_splits)
  show ?thesis
  proof (cases "admit_session X (w_now w) h ep ?cm")
    case None
    then have cm': "cm' = ?cm" using r h ep by (auto simp: handle_hello_def)
    have "?cm = cm"
    proof (rule ccontr)
      assume "?cm \<noteq> cm"
      then have "session_id ep = hello_session_id h"
        using ep by (auto simp: ensure_endpoint_def set_endpoint_def hm.get_put endpoint_new_def split: if_splits)
      then show False using None by (simp add: admit_session_def)
    qed
    then show ?thesis using cm' assms(4) by simp
  next
    case (Some x)
    then obtain ep1 history where adm: "admit_session X (w_now w) h ep ?cm = Some (ep1, history)"
      by (cases x) auto
    have "endpoint_ok (hello_id h) ep1" using admit_session_ok [OF adm ok] by simp
    moreover obtain ep2 w2 where a: "accept_path X addr name ?cm ep1 w = Inr (ep2, w2)"
      using r h ep adm by (auto simp: handle_hello_def Let_def bindR_eq_Inr)
    ultimately have c: "has_connections ep2" using accept_path_populates [OF assms(1) _ assms(3)] by blast
    have "cm' = (set_endpoint (hello_id h) ep2 ?cm)\<lparr>session_history := history,
        routes := learn_routes (hello_static_routes h) (hello_id h) (routes cm)\<rparr>"
      using r h ep adm a by (simp add: handle_hello_def)
    then show ?thesis
      using others c by (auto simp: populated_def hm_all_def set_endpoint_def hm.get_put split: if_splits)
  qed
qed

text \<open>The invariant of the loop, and what granted calls add to it.\<close>

definition server_inv :: "world \<Rightarrow> ('t, 'c) connection_manager \<times> world \<Rightarrow> bool" where
  "server_inv w\<^sub>0 s \<longleftrightarrow> cm_inv (fst s) \<and> w_answer (snd s) = w_answer w\<^sub>0 \<and> w_recv_fails (snd s) = w_recv_fails w\<^sub>0 \<and>
    (\<not> refuses (snd s) \<longrightarrow> populated (fst s))"

lemma good_server_inv: "server_inv a (cm, w) \<Longrightarrow> good cm w s \<Longrightarrow> server_inv a s"
  by (auto simp: server_inv_def good_def keeps_def refuses_extends) (auto simp: extends_def)

lemma server_turn_outcome:
  assumes "serializes X" "select_laws X" "server_inv a (cm, w)" "server_turn X L ev cm w = Some r"
  shows "outcome (\<lambda>p. crash cm w L p \<and> (p = SelectAllEmpty \<longrightarrow> has_endpoints cm)) (server_inv a) r"
proof -
  have inv: "cm_inv cm" using assms(3) by (simp add: server_inv_def)
  have hello: "outcome (\<lambda>p. p = UnwrapErr \<and> faulty w) (server_inv a) (handle_hello X bytes addr name cm w)" for bytes addr name
  proof -
    have "server_inv a (cm', w')" if "handle_hello X bytes addr name cm w = Inr (cm', w')" "cm_inv cm'" "extends w w'" for cm' w'
      using assms(3) handle_hello_populates [OF assms(1) inv _ _ that(1)] that(2,3)
      by (simp add: server_inv_def refuses_extends) (simp add: extends_def)
    then show ?thesis
      using handle_hello_outcome [OF assms(1) inv, of w bytes addr name] refuses_faulty
      by (cases "handle_hello X bytes addr name cm w") auto
  qed
  have arrival: "outcome (\<lambda>p. p = UnwrapErr \<and> faulty w) (server_inv a) r1"
    if "received_from received w (\<lambda>(bytes, addr). handle_hello X bytes addr ''DYN-interface'' cm w) = Some r1" for received r1
    by (rule received_from_outcome [OF that])
      (auto simp: faulty_def refuses_def intro!: outcome_mono [OF hello])
  have clean: "outcome Q (server_inv a) (clean_up s)" if "server_inv a s" for s Q
  proof -
    obtain cm1 w1 where [simp]: "s = (cm1, w1)" by (cases s)
    have "good cm1 w1 s" using that by (simp add: good_def server_inv_def keeps_refl)
    from clean_up_outcome [OF this] show ?thesis
      by (rule outcome_mono) (use that good_server_inv in auto)
  qed
  show ?thesis
  proof (cases "has_endpoints cm")
    case False
    then obtain received where "received_from received w
        (\<lambda>(bytes, addr). handle_hello X bytes addr ''DYN-interface'' cm w) = Some r"
      using assms(4) by (auto simp: server_turn_def split: server_event.splits)
    from arrival [OF this] show ?thesis by (rule outcome_mono) (auto simp: crash_def)
  next
    case True
    then obtain r' where r': "r = bindR r' clean_up" and arm: "Some r' = (case ev of
            NewConnection received \<Rightarrow>
              received_from received w (\<lambda>(bytes, addr). handle_hello X bytes addr ''DYN-interface'' cm w)
          | FlushInterfaceLog \<Rightarrow> Some (bindR (flush_logs L w) (\<lambda>w. Inr (cm, w)))
          | SharedEvent e \<Rightarrow> handle_event X L e cm w)"
      using assms(4) by (auto simp: server_turn_def)
    have "outcome (crash cm w L) (server_inv a) r'"
    proof (cases ev)
      case (NewConnection received)
      then have "received_from received w
          (\<lambda>(bytes, addr). handle_hello X bytes addr ''DYN-interface'' cm w) = Some r'" using arm by simp
      from arrival [OF this] show ?thesis by (rule outcome_mono) (auto simp: crash_def)
    next
      case FlushInterfaceLog
      have g: "server_inv a (cm, w')" if "extends w w'" for w'
        using good_server_inv [OF assms(3), of "(cm, w')"] that by (simp add: good_def keeps_refl inv)
      show ?thesis using arm FlushInterfaceLog
        by (simp, intro outcome_mono [OF flush_logs_outcome]) (auto simp: g crash_def refuses_faulty)
    next
      case (SharedEvent e)
      then have e: "handle_event X L e cm w = Some r'" using arm by simp
      show ?thesis
        by (rule outcome_mono [OF handle_event_outcome [OF assms(1,2) inv e]])
          (auto intro: good_server_inv [OF assms(3)])
    qed
    then show ?thesis
      unfolding r' outcome_bind by (rule outcome_mono) (auto simp: True intro: clean)
  qed
qed

text \<open>Starting up.\<close>

lemma endpoints_new: "endpoints (connection_manager_new a e t r c d) = []"
  by (simp add: connection_manager_new_def)

lemma open_server_socket_outcome:
  "extends w\<^sub>0 w \<Longrightarrow> outcome (\<lambda>p. p = UnwrapErr \<and> refuses w\<^sub>0) (\<lambda>(fd, w'). extends w\<^sub>0 w') (open_server_socket a w)"
  unfolding open_server_socket_def
  by (subst outcome_bind, rule outcome_mono [OF must_call_outcome], simp_all add: case_prod_beta del: outcome_bind,
      (subst outcome_bind, rule outcome_mono [OF must_call_outcome], simp_all add: case_prod_beta del: outcome_bind)+)

definition started :: "'f f64 option \<Rightarrow> world \<Rightarrow> 'f loop_config \<times> ('t, 'c) connection_manager \<times> world \<Rightarrow> bool" where
  "started D w s = (case s of (L, cm, w') \<Rightarrow> log_debug L = D \<and> cm_inv cm \<and> endpoints cm = [] \<and> extends w w')"

definition start_panic :: "tunnel_settings \<Rightarrow> world \<Rightarrow> panic \<Rightarrow> bool" where
  "start_panic t w p \<longleftrightarrow> (p = UnwrapErr \<and> refuses w) \<or> (p = Ipv6NotSupported \<and> \<not> isl (tunnel_device_address t))"

lemma server_init_outcome: "outcome (start_panic (ss_tunnel_config S) w) (started D w) (server_init D S w)"
proof -
  have tail: "outcome (start_panic (ss_tunnel_config S) w) (started D w)
      (bindR (tun_ipv4 (ss_tunnel_config S)) (\<lambda>ip. bindR (must_call (TunCreate ip n m) w1) (\<lambda>(fd, w).
        Inr (\<lparr>interface_logging = il, sorter_logging = psl, log_debug = D\<rparr>, connection_manager_new a e t (r ip) c d, w))))"
    if "extends w w1" for w1 n m il psl a e t r c d
  proof (cases "tunnel_device_address (ss_tunnel_config S)")
    case (Inl ip)
    then show ?thesis
      by (simp add: tun_ipv4_def, intro outcome_mono [OF must_call_outcome [OF _ that]])
        (auto simp: cm_inv_new endpoints_new started_def start_panic_def)
  qed (simp add: tun_ipv4_def start_panic_def)
  show ?thesis
    unfolding server_init_def Let_def
    by (rule outcome_after [OF must_call_outcome [OF _ extends_refl]])
      (auto simp del: outcome_bind simp: start_panic_def [of _ w] intro!: outcome_after [OF start_loggers_outcome] outcome_after [OF open_server_socket_outcome] tail)
qed

lemma server_inv_reachable:
  assumes "serializes X" "select_laws X"
  shows "server_reachable X D S w L s \<Longrightarrow> server_inv w s \<and> log_debug L = D"
proof (induction rule: server_reachable.induct)
  case (start L cm v)
  from outcome_Inr [OF server_init_outcome start] show ?case
    by (simp add: started_def server_inv_def populated_def hm_all_def) (simp add: extends_def)
next
  case (step L s s')
  obtain cm v where s: "s = (cm, v)" by (cases s)
  have inv: "server_inv w (cm, v)" using step.IH s by simp
  from step.hyps(2) show ?case unfolding s
  proof (rule server_stepE)
    fix t u
    assume "Inr s' = Inr (cm, v\<lparr>w_now := t, w_system_now := u\<rparr>)"
    then show ?thesis using step.IH s by (simp add: server_inv_def refuses_def)
  next
    fix ev
    assume "server_turn X L ev cm v = Some (Inr s')"
    from server_turn_outcome [OF assms inv this] step.IH show ?thesis by simp
  qed
qed

section \<open>Properties\<close>

text \<open>
  C9: In every state the server can reach the endpoints are filed under their own identifiers, all
  their sockets exist, their sorters and estimators are well-formed, the default routes come last,
  and every route leads to an endpoint that exists, so that the \<open>unwrap\<close> in the tunnel handler
  cannot fail.  Nothing is assumed of the kernel, the peers or the order of events.
\<close>

theorem server_state_is_well_formed:
  assumes "serializes X" and "select_laws X" and "server_reachable X D S w\<^sub>0 L (cm, w)"
  shows "cm_inv cm \<and> route_targets (routes cm) \<subseteq> dom (hm_get (endpoints cm)) \<and>
    (\<forall>k ep. get_endpoint k cm = Some ep \<longrightarrow> ep_id ep = k \<and> sorter_inv (packet_sorter ep) \<and>
      (\<forall>ce\<in>set (connections ep). has_socket ce))"
  using server_inv_reachable [OF assms]
  by (auto simp: server_inv_def cm_inv_def hm_all_def endpoint_ok_def)

text \<open>When a turn fails, event by event: the predicates of \<open>Event_Panics\<close>, and for a datagram an error that is unwrapped.\<close>

fun server_event_fails ::
  "('t, 'c) deps \<Rightarrow> 'f loop_config \<Rightarrow> server_event \<Rightarrow> ('t, 'c) connection_manager \<Rightarrow> world \<Rightarrow> bool" where
  "server_event_fails X L (NewConnection received) cm w \<longleftrightarrow>
    (case received of Inl e \<Rightarrow> True | Inr (bytes, addr) \<Rightarrow> hello_fails X bytes addr ''DYN-interface'' cm w)"
| "server_event_fails X L FlushInterfaceLog cm w \<longleftrightarrow> flush_fails L w"
| "server_event_fails X L (SharedEvent e) cm w \<longleftrightarrow> event_fails X L e cm w"

lemma arm_panics:
  assumes "outcome Q (good cm w) r" shows "panics (bindR r clean_up) \<longleftrightarrow> panics r"
  using assms clean_up_outcome [of cm w] by (cases r) (auto dest: outcome_never)

lemma server_turn_panics_iff:
  assumes "serializes X" "select_laws X" "cm_inv cm" "server_turn X L ev cm w = Some r"
  shows "panics r \<longleftrightarrow> server_event_fails X L ev cm w"
proof -
  have hello: "panics (bindR r1 clean_up) \<longleftrightarrow> panics r1" "panics r1 \<longleftrightarrow> server_event_fails X L (NewConnection received) cm w"
    if "received_from received w (\<lambda>(bytes, addr). handle_hello X bytes addr ''DYN-interface'' cm w) = Some r1" for received r1
  proof -
    have "outcome (\<lambda>p. True) (\<lambda>(cm', w'). cm_inv cm') (handle_hello X bytes addr ''DYN-interface'' cm w)" for bytes addr
      by (rule outcome_mono [OF handle_hello_outcome [OF assms(1,3)]]) auto
    then have "outcome (\<lambda>p. True) (\<lambda>(cm', w'). cm_inv cm') r1"
      by (intro received_from_outcome [OF that]) auto
    then show "panics (bindR r1 clean_up) \<longleftrightarrow> panics r1"
    proof (cases r1)
      case (Inr x)
      obtain cm' w' where x: "x = (cm', w')" by (cases x)
      then have "good cm' w' x" using \<open>outcome _ _ r1\<close> Inr by (simp add: good_def keeps_refl)
      from outcome_never [OF clean_up_outcome [OF this]] show ?thesis using Inr by simp
    qed simp
    show "panics r1 \<longleftrightarrow> server_event_fails X L (NewConnection received) cm w"
      using received_from_panics [OF that] handle_hello_panics_iff [OF assms(1,3)]
      by (auto split: sum.split prod.splits)
  qed
  show ?thesis
  proof (cases "has_endpoints cm")
    case False
    then show ?thesis using assms(4) hello(2) by (cases ev) (simp_all add: server_turn_def)
  next
    case True
    show ?thesis
    proof (cases ev)
      case (NewConnection received)
      then show ?thesis using assms(4) True hello by (auto simp: server_turn_def)
    next
      case FlushInterfaceLog
      have "outcome (\<lambda>p. True) (good cm w) (bindR (flush_logs L w) (\<lambda>w. Inr (cm, w)))"
        by (simp, rule outcome_mono [OF flush_logs_outcome]) (simp_all add: good_def keeps_refl assms(3))
      from arm_panics [OF this] have "panics r \<longleftrightarrow> panics (bindR (flush_logs L w) (\<lambda>w. Inr (cm, w)))"
        using assms(4) True FlushInterfaceLog by (auto simp: server_turn_def)
      then show ?thesis by (simp add: FlushInterfaceLog panics_bind flush_logs_panics_iff)
    next
      case (SharedEvent e)
      then obtain r1 where r1: "handle_event X L e cm w = Some r1" "r = bindR r1 clean_up"
        using assms(4) True by (auto simp: server_turn_def)
      show ?thesis
        using arm_panics [OF handle_event_outcome [OF assms(1-3) r1(1)]] handle_event_panics_iff [OF assms(1-3) r1(1)]
        by (simp add: r1(2) SharedEvent)
    qed
  qed
qed

text \<open>
  C5: Exactly when a turn of a reachable server panics, for every event and every log level.  A datagram on the listening socket:
  receiving it failed, or its hello is admitted on a new path whose socket the kernel opens and then does not name.  A
  message on an established connection, a timeout, a sorted packet or a sorter's deadline: no endpoint has a connection to
  wait for.  The message, besides: its packet cannot be logged (the clock is before the epoch or this write is refused); its hello comes over a
  new path whose socket is not opened or not named; a latency estimate of a debug line panics.  The sorted packet, besides: it cannot be logged, or this write to
  the tunnel device is refused.  The timer of the log files: this flush is refused.  A command: receiving it failed.  A packet from the
  tunnel device, never.  So no \<open>unwrap\<close> on a map, a route, a socket address or a serialised message ever fails.
\<close>

theorem server_crash_causes:
  assumes "serializes X" and "select_laws X" and "server_reachable X D S w\<^sub>0 L (cm, w)"
    and "server_turn X L ev cm w = Some r"
  shows "panics r \<longleftrightarrow> server_event_fails X L ev cm w"
proof -
  have "cm_inv cm" using server_inv_reachable [OF assms(1-3)] by (simp add: server_inv_def)
  from server_turn_panics_iff [OF assms(1,2) this assms(4)] show ?thesis .
qed

text \<open>
  C4: As long as the kernel grants every call other than sending and receiving does not fail, a server
  whose debug lines are off and whose wall clock is not before the epoch never crashes: whatever datagrams, tunnel
  packets, commands and other clock readings come, in whatever order, and whichever sends fail.
\<close>

theorem server_never_crashes_when_granted:
  assumes "serializes X" and "select_laws X" and "server_reachable X D S w\<^sub>0 L (cm, w)"
    and "D = None" and "0 \<le> w_system_now w"
    and "\<not> w_recv_fails w\<^sub>0" and "\<forall>c n e. w_answer w\<^sub>0 c n = Inl e \<longrightarrow> (\<exists>fd bytes. c = Send fd bytes)"
  shows "\<not> server_step X L (cm, w) (Inl p)"
proof
  assume st: "server_step X L (cm, w) (Inl p)"
  have inv: "server_inv w\<^sub>0 (cm, w)" and l: "log_debug L = D"
    using server_inv_reachable [OF assms(1-3)] by simp_all
  then have r: "\<not> refuses w" using assms(6,7) by (fastforce simp: server_inv_def refuses_def essential_def)
  then have f: "\<not> faulty w" using assms(5) by (simp add: faulty_def)
  from st obtain ev where "server_turn X L ev cm w = Some (Inl p)"
    by (rule server_stepE) auto
  from server_turn_outcome [OF assms(1,2) inv this]
  have "crash cm w L p" "p = SelectAllEmpty \<longrightarrow> has_endpoints cm" by simp_all
  then have "candidates cm = []" "has_endpoints cm" using f assms(4) by (auto simp: crash_def l)
  then show False using populated_candidates inv r by (auto simp: server_inv_def)
qed

section \<open>A server at work\<close>

definition demo_settings :: server_settings where
  "demo_settings = \<lparr>ss_peer_id = 9, server_bind_address = V4 1 40000,
     ss_tunnel_config = \<lparr>tunnel_device_address = Inl 0x0A0C0001, netmask = 0xFFFFFF00, mtu = 1420\<rparr>,
     ss_connection_timeout = 10000, ss_packet_sorter_deadline = 100,
     ss_interface_logger = None, ss_packet_sorter_logger = None\<rparr>"

definition demo_server :: "(instant option, nat \<times> packet list) connection_manager" where
  "demo_server = connection_manager_new (V4 1 40000) 9 (Inl 0x0A0C0001)
     (Some [\<lparr>route_address = 0, subnet_mask = 0\<rparr>, \<lparr>route_address = 0x0A0C0001, subnet_mask = 0xFFFFFF00\<rparr>])
     10000 100"

text \<open>The calls made before the loop, in a world that grants them.\<close>

definition demo_started :: "world \<Rightarrow> world" where
  "demo_started w = w\<lparr>w_trace := [UdpBind (V4 0 1234), SocketNew, SetReuseAddress 1, Bind 1 (V4 1 40000),
     SetNonblocking 1, AsyncTryFrom 1, TunCreate 0x0A0C0001 0xFFFFFF00 1420]\<rparr>"

definition grants_start :: "world \<Rightarrow> bool" where
  "grants_start w \<longleftrightarrow> w_trace w = [] \<and> (\<forall>c n. essential c \<longrightarrow> n < 7 \<longrightarrow> w_answer w c n = Inr n)"

lemma demo_server_init:
  "grants_start w \<Longrightarrow> server_init None demo_settings w = Inr (no_logs, demo_server, demo_started w)"
  by (simp add: server_init_def demo_settings_def demo_server_def tun_ipv4_def start_loggers_def
      open_server_socket_def must_call_def sys_def duplication_address_def grants_start_def demo_started_def)

text \<open>A first hello, in a world where every call is granted or in one where every call is refused.\<close>

lemma demo_server_hello:
  assumes "grants_start w" "\<not> naming_fails (V4 1 40000) (V4 3 5) (demo_started w)"
  shows "\<exists>cm w'. server_reachable demo_deps None demo_settings w no_logs (cm, w') \<and> has_endpoints cm \<and>
    handle_hello demo_deps [3] (V4 3 5) ''DYN-interface'' demo_server (demo_started w) = Inr (cm, w')"
proof -
  let ?h = "\<lparr>hello_id = 5, hello_session_id = 79, hello_static_routes = None, hello_seq = 0\<rparr>"
  have e: "endpoints demo_server = []" by (simp add: demo_server_def connection_manager_new_def)
  have inv: "cm_inv demo_server" by (simp add: demo_server_def cm_inv_new)
  have d: "bincode_deserialize demo_deps [3] = Some (Hello ?h)" by (simp add: demo_deps_def)
  have "\<not> panics (handle_hello demo_deps [3] (V4 3 5) ''DYN-interface'' demo_server (demo_started w))"
    using handle_hello_panics_iff [OF demo_serializes inv] assms(2)
    by (simp add: hello_fails_def d) (simp add: demo_server_def connection_manager_new_def)
  then obtain cm w' where h: "handle_hello demo_deps [3] (V4 3 5) ''DYN-interface'' demo_server (demo_started w) = Inr (cm, w')"
    by (auto simp: not_panics_iff)
  obtain ep where ep: "get_endpoint (hello_id ?h) (ensure_endpoint demo_deps (w_now (demo_started w)) ?h demo_server) = Some ep"
    using ensure_endpoint_present by blast
  then have "session_id ep = 79"
    by (auto simp: ensure_endpoint_def hm_contains_key_def e set_endpoint_def hm.get_put endpoint_new_def)
  then have a: "admit_session demo_deps (w_now (demo_started w)) ?h ep (ensure_endpoint demo_deps (w_now (demo_started w)) ?h demo_server) =
      Some (ep, session_history (ensure_endpoint demo_deps (w_now (demo_started w)) ?h demo_server))"
    by (simp add: admit_session_def)
  obtain ep2 where "cm = (set_endpoint 5 ep2 (ensure_endpoint demo_deps (w_now (demo_started w)) ?h demo_server))
        \<lparr>session_history := session_history (ensure_endpoint demo_deps (w_now (demo_started w)) ?h demo_server),
         routes := learn_routes None 5 (routes demo_server)\<rparr>"
    using handle_hello_accepted [OF d ep a h] by auto
  then have "get_endpoint 5 cm = Some ep2" by (simp add: set_endpoint_def hm.get_put)
  then have he: "has_endpoints cm" by (auto simp: has_endpoints_def)
  have "server_turn demo_deps no_logs (NewConnection (Inr ([3], V4 3 5))) demo_server (demo_started w) = Some (Inr (cm, w'))"
    by (simp add: server_turn_def has_endpoints_def received_from_def e h)
  then have "server_reachable demo_deps None demo_settings w no_logs (cm, w')"
    by (rule server_reachable.step [OF server_reachable.start [OF demo_server_init [OF assms(1)]] server_step.turn])
  then show ?thesis using he h by blast
qed

theorem server_state_is_well_formed_witness:
  "\<exists>cm w. server_reachable demo_deps None demo_settings (demo_world (\<lambda>c n. Inr n)) no_logs (cm, w) \<and>
    has_endpoints cm \<and> cm_inv cm"
proof -
  obtain cm w where "server_reachable demo_deps None demo_settings (demo_world (\<lambda>c n. Inr n)) no_logs (cm, w)"
    "has_endpoints cm"
    using demo_server_hello [of "demo_world (\<lambda>c n. Inr n)"]
    by (auto simp: grants_start_def naming_fails_def open_dynamic_socket_def try_call_def sys_def names_refused_def demo_started_def)
  then show ?thesis
    using server_state_is_well_formed [OF demo_serializes demo_select_laws] by blast
qed

text \<open>A crash: the only endpoint is one whose socket could not be opened, and the turn waits for its messages.\<close>

theorem server_crash_causes_witness:
  "\<exists>cm w r. server_reachable demo_deps None demo_settings
      (demo_world (\<lambda>c n. if n < 7 then Inr n else Inl (OtherError 24))) no_logs (cm, w) \<and>
    server_turn demo_deps no_logs (SharedEvent (NewEstablishedMessage 0 0 (Inr []))) cm w = Some r \<and> panics r \<and>
    candidates cm = []"
proof -
  let ?w = "demo_world (\<lambda>c n. if n < 7 then Inr n else Inl (OtherError 24))"
  have f: "open_fails (V4 1 40000) (V4 3 5) (demo_started ?w)"
    by (simp add: open_fails_def open_dynamic_socket_def try_call_def sys_def demo_started_def)
  then have "\<not> naming_fails (V4 1 40000) (V4 3 5) (demo_started ?w)"
    by (auto simp: naming_fails_def open_fails_def isl_def)
  then obtain cm w where r: "server_reachable demo_deps None demo_settings ?w no_logs (cm, w)" "has_endpoints cm"
    and h: "handle_hello demo_deps [3] (V4 3 5) ''DYN-interface'' demo_server (demo_started ?w) = Inr (cm, w)"
    using demo_server_hello [of ?w] by (auto simp: grants_start_def)
  have d: "bincode_deserialize demo_deps [3] = Some (Hello
      \<lparr>hello_id = 5, hello_session_id = 79, hello_static_routes = None, hello_seq = 0\<rparr>)"
    by (simp add: demo_deps_def)
  have e: "endpoints demo_server = []" "cm_local_address demo_server = V4 1 40000"
    by (simp_all add: demo_server_def connection_manager_new_def)
  have aw: "await_incoming demo_deps 0 0 (Inr []) cm = Inl SelectAllEmpty"
    using failed_first_hello [OF demo_serializes demo_select_laws e(1) d, of "V4 3 5" "demo_started ?w" "''DYN-interface''" 0 0 "Inr []" 0]
      h f e(2) by auto
  then have t: "server_turn demo_deps no_logs (SharedEvent (NewEstablishedMessage 0 0 (Inr []))) cm w = Some (Inl SelectAllEmpty)"
    using r(2) by (simp add: server_turn_def)
  from server_crash_causes [OF demo_serializes demo_select_laws r(1) t] have "candidates cm = []"
    by (simp add: aw)
  then show ?thesis
    using r(1) t by (intro exI [of _ cm] exI [of _ w] exI [of _ "Inl SelectAllEmpty"]) (simp only: panics_simps simp_thms)
qed

theorem server_never_crashes_when_granted_witness:
  "\<exists>cm w. server_reachable demo_deps None demo_settings
      (demo_world (\<lambda>c n. case c of Send fd bytes \<Rightarrow> Inl NetworkUnreachable | _ \<Rightarrow> Inr n)) no_logs (cm, w) \<and>
    has_endpoints cm \<and> (\<forall>p. \<not> server_step demo_deps no_logs (cm, w) (Inl p))"
proof -
  let ?w = "demo_world (\<lambda>c n. case c of Send fd bytes \<Rightarrow> Inl NetworkUnreachable | _ \<Rightarrow> Inr n)"
  have "grants_start ?w"
    by (auto simp: grants_start_def essential_def split: syscall.splits)
  moreover have "\<not> naming_fails (V4 1 40000) (V4 3 5) (demo_started ?w)"
    by (simp add: naming_fails_def open_dynamic_socket_def try_call_def sys_def names_refused_def demo_started_def)
  ultimately obtain cm w where r: "server_reachable demo_deps None demo_settings ?w no_logs (cm, w)" "has_endpoints cm"
    and h: "handle_hello demo_deps [3] (V4 3 5) ''DYN-interface'' demo_server (demo_started ?w) = Inr (cm, w)"
    using demo_server_hello [of ?w] by blast
  have "cm_inv demo_server" by (simp add: demo_server_def cm_inv_new)
  from handle_hello_outcome [OF demo_serializes this, of "demo_started ?w" "[3]" "V4 3 5" "''DYN-interface''"] h
  have c: "0 \<le> w_system_now w" by (simp add: extends_def demo_started_def)
  have "\<exists>fd bytes. c = Send fd bytes" if "w_answer ?w c n = Inl e" for c n e
    using that by (cases c) simp_all
  then have "\<forall>c n e. w_answer ?w c n = Inl e \<longrightarrow> (\<exists>fd bytes. c = Send fd bytes)" by blast
  note safe = server_never_crashes_when_granted [OF demo_serializes demo_select_laws r(1) refl c _ this]
  have "\<not> w_recv_fails ?w" by simp
  with safe r show ?thesis by blast
qed

end
