(* ===== verification/Endpoint_Refinement.thy ===== *)
theory Endpoint_Refinement
  imports Event_Loop
begin

text \<open>
  The event loops seen from one endpoint.  A turn does to the packet sorter of an endpoint either nothing or one
  operation of the sorter (\<open>sorter_step\<close> in \<open>Sorter_Delivery\<close>), writes to the tunnel device what
  that operation takes out, and sends data packets, numbered by the endpoint's counter, only for what it read from
  the tunnel device.  So a running program refines the sorters and counters of its endpoints: what is proved of
  their histories holds for the loops.
\<close>

section \<open>What a turn writes to the tunnel device\<close>

definition tun_of :: "syscall \<Rightarrow> u8 list list" where
  "tun_of c = (case c of TunSend bytes \<Rightarrow> [bytes] | _ \<Rightarrow> [])"

definition tun_written :: "world \<Rightarrow> u8 list list" where
  "tun_written w = concat (map tun_of (w_trace w))"

lemma tun_of_simps [simp]:
  "tun_of SocketNew = []" "tun_of (SetReuseAddress fd) = []" "tun_of (BindDevice fd n) = []"
  "tun_of (GetPeerName fd) = []" "tun_of (GetSockName fd) = []"
  "tun_of (Bind fd a) = []" "tun_of (SetNonblocking fd) = []" "tun_of (AsyncTryFrom fd) = []"
  "tun_of (ConnectTo fd a) = []" "tun_of (Send fd bytes) = []" "tun_of (LogWrite fd line) = []"
  "tun_of (LogFlush fd) = []" "tun_of (FileCreate path) = []" "tun_of (UdpBind a) = []" "tun_of (TunCreate i m u) = []" "tun_of (TunSend bytes) = [bytes]"
  by (simp_all add: tun_of_def)

text \<open>
  \<open>emits X datas outs w w'\<close>: between \<open>w\<close> and \<open>w'\<close> exactly \<open>outs\<close> is written to the
  tunnel device, and every datagram sent is an encoded hello or acknowledgement or one of \<open>datas\<close>.
\<close>

definition control_bytes :: "('t, 'c) deps \<Rightarrow> u8 list \<Rightarrow> bool" where
  "control_bytes X d \<longleftrightarrow> (\<exists>m. bincode_serialize X m = Some d \<and> (\<forall>p. m \<noteq> Packet p))"

definition emits :: "('t, 'c) deps \<Rightarrow> u8 list set \<Rightarrow> u8 list list \<Rightarrow> world \<Rightarrow> world \<Rightarrow> bool" where
  "emits X datas outs w w' \<longleftrightarrow> (\<exists>cs. w_trace w' = w_trace w @ cs \<and> concat (map tun_of cs) = outs \<and>
     (\<forall>fd d. Send fd d \<in> set cs \<longrightarrow> control_bytes X d \<or> d \<in> datas))"

abbreviation quiet :: "('t, 'c) deps \<Rightarrow> world \<Rightarrow> world \<Rightarrow> bool" where
  "quiet X \<equiv> emits X {} []"

lemma emits_written: "emits X datas outs w w' \<Longrightarrow> tun_written w' = tun_written w @ outs"
  by (auto simp: emits_def tun_written_def)

lemma quiet_refl [simp]: "quiet X w w"
  by (simp add: emits_def)

lemma quiet_fields [simp]:
  "quiet X w (w\<lparr>w_uuid_count := n\<rparr>)"
  "quiet X w (w\<lparr>w_now := t, w_system_now := u\<rparr>)"
  by (simp_all add: emits_def)

lemma emits_trans: "emits X A os w v \<Longrightarrow> emits X B os' v u \<Longrightarrow> emits X (A \<union> B) (os @ os') w u"
  unfolding emits_def by (elim exE conjE, rename_tac cs cs', rule_tac x = "cs @ cs'" in exI) auto

lemma quiet_trans: "quiet X w v \<Longrightarrow> quiet X v u \<Longrightarrow> quiet X w u"
  by (drule (1) emits_trans) simp

lemma quiet_then: "quiet X w v \<Longrightarrow> emits X A os v u \<Longrightarrow> emits X A os w u"
  by (drule (1) emits_trans) simp

lemma then_quiet: "emits X A os w v \<Longrightarrow> quiet X v u \<Longrightarrow> emits X A os w u"
  by (drule (1) emits_trans) simp

definition plain :: "('t, 'c) deps \<Rightarrow> syscall \<Rightarrow> bool" where
  "plain X c \<longleftrightarrow> tun_of c = [] \<and> (\<forall>fd d. c = Send fd d \<longrightarrow> control_bytes X d)"

lemma plain_simps [simp]:
  "plain X SocketNew" "plain X (SetReuseAddress fd)" "plain X (BindDevice fd n)"
  "plain X (GetPeerName fd)" "plain X (GetSockName fd)"
  "plain X (Bind fd a)" "plain X (SetNonblocking fd)" "plain X (AsyncTryFrom fd)"
  "plain X (ConnectTo fd a)" "plain X (Send fd d) = control_bytes X d" "plain X (LogWrite fd line)"
  "plain X (LogFlush fd)"
  by (simp_all add: plain_def)

lemma sys_quiet: "sys c w = (r, w') \<Longrightarrow> plain X c \<Longrightarrow> quiet X w w'"
  by (auto simp: sys_def emits_def plain_def)

lemma sys_tun: "sys (TunSend bytes) w = (r, w') \<Longrightarrow> emits X {} [bytes] w w'"
  by (auto simp: sys_def emits_def)

lemma for_each_quiet:
  assumes "\<And>e w e' w'. f e w = Inr (e', w') \<Longrightarrow> quiet X w w'"
  shows "for_each f es w = Inr (es', w') \<Longrightarrow> quiet X w w'"
proof (induction es arbitrary: w es')
  case (Cons e es)
  then show ?case using assms by (fastforce simp: bindR_eq_Inr intro: quiet_trans)
qed simp

lemma write_quiet:
  assumes "connection_write c bytes w = Inr (r, w')" "control_bytes X bytes"
  shows "quiet X w w'"
proof -
  obtain s where s: "std_socket c = Some s" using assms(1) by (cases "std_socket c") (auto simp: connection_write_def)
  obtain a v where a: "sys (Send (sk_fd s) bytes) w = (a, v)" by (cases "sys (Send (sk_fd s) bytes) w")
  have "w' = v" using assms(1) s a by (cases a) (auto simp: connection_write_def split: if_splits)
  then show ?thesis using sys_quiet [OF a] assms(2) by simp
qed

lemma after_write_quiet:
  assumes "bindR (connection_write c bytes w) g = Inr (y, w')" "control_bytes X bytes"
    and "\<And>r v. g (r, v) = Inr (y, w') \<Longrightarrow> v = w'"
  shows "quiet X w w'"
  using assms by (auto simp: bindR_eq_Inr dest: write_quiet)

lemma entries_quiet:
  assumes "control_bytes X bytes"
  shows "ack_entry bytes ce w = Inr (ce', w') \<Longrightarrow> quiet X w w'"
    and "greet_entry bytes ce w = Inr (ce', w') \<Longrightarrow> quiet X w w'"
  using assms
  by (auto simp: ack_entry_def greet_entry_def split: if_splits
      elim!: after_write_quiet split: sum.splits)

lemma loops_quiet:
  assumes "control_bytes X bytes"
  shows "for_each (ack_entry bytes) ces w = Inr (ces', w') \<Longrightarrow> quiet X w w'"
    and "for_each (greet_entry bytes) ces w = Inr (ces', w') \<Longrightarrow> quiet X w w'"
  by (erule for_each_quiet [rotated], erule entries_quiet [OF assms])+

lemma control_bytesI:
  "bincode_serialize X (Hello h) = Some d \<Longrightarrow> control_bytes X d"
  "bincode_serialize X (HelloAck a) = Some d \<Longrightarrow> control_bytes X d"
  unfolding control_bytes_def by blast+

lemma try_call_quiet:
  assumes "try_call c w k = (r, w')" "plain X c" "\<And>n v r. k n v = (r, w') \<Longrightarrow> quiet X v w'"
  shows "quiet X w w'"
proof -
  obtain a v where s: "sys c w = (a, v)" by (cases "sys c w")
  with sys_quiet [OF s assms(2)] assms show ?thesis
    by (cases a) (auto simp: try_call_def intro: quiet_trans)
qed

lemma open_dynamic_socket_quiet: "open_dynamic_socket l a w = (r, w') \<Longrightarrow> quiet X w w'"
  unfolding open_dynamic_socket_def by (erule try_call_quiet, simp)+ simp

lemma must_call_quiet: "must_call c w = Inr (n, w') \<Longrightarrow> plain X c \<Longrightarrow> quiet X w w'"
  by (cases "sys c w") (auto simp: must_call_def split: sum.splits dest: sys_quiet)

lemma connection_new_quiet: "connection_new X sk name t w = Inr (c, w') \<Longrightarrow> quiet X' w w'"
  by (auto simp: connection_new_def bindR_eq_Inr intro: quiet_trans dest!: must_call_quiet [where X = X'])

lemma add_connection_quiet: "add_connection X a n l t ep w = Inr (r, ep', w') \<Longrightarrow> quiet X w w'"
  by (auto simp: add_connection_def bindR_eq_Inr split: if_splits prod.splits sum.splits
      dest!: open_dynamic_socket_quiet [where X = X] connection_new_quiet [where X' = X] intro: quiet_trans)

lemma acknowledge_quiet: "acknowledge X own sid rs ep w = Inr (ep', w') \<Longrightarrow> quiet X w w'"
  by (auto simp: acknowledge_def bindR_eq_Inr Let_def unwrap_eq_Inr dest!: control_bytesI(2) loops_quiet(1))

lemma logging_quiet:
  "interface_logger_add_log_line il e n i w = Inr w' \<Longrightarrow> quiet X w w'"
  "packet_sorter_logger_add_log_line psl m w = Inr w' \<Longrightarrow> quiet X w w'"
  "interface_logger_flush il w = Inr w' \<Longrightarrow> quiet X w w'"
  "packet_sorter_logger_flush psl w = Inr w' \<Longrightarrow> quiet X w w'"
  by (auto simp: interface_logger_add_log_line_def packet_sorter_logger_add_log_line_def interface_logger_flush_def
      packet_sorter_logger_flush_def bindR_eq_Inr dest!: must_call_quiet [where X = X])

lemma flush_logs_quiet: "flush_logs L w = Inr w' \<Longrightarrow> quiet X w w'"
  by (auto simp: flush_logs_def bindR_eq_Inr split: option.splits dest!: logging_quiet [where X = X] intro: quiet_trans)

section \<open>Endpoints after an operation\<close>

text \<open>
  What the two programs exchange depends on three things of an endpoint: its session, its sorter and its
  counter.  \<open>inherits_by f cm cm'\<close>: every endpoint of \<open>cm'\<close> was there before, is in the same session, and its
  sorter and counter are the old ones changed by \<open>f\<close>.
\<close>

type_synonym ('t, 'c) flow = "('t, 'c) packet_sorter \<times> u64"

definition flow :: "('t, 'c) endpoint \<Rightarrow> ('t, 'c) flow" where
  "flow ep = (packet_sorter ep, tx_counter ep)"

lemma flow_simps [simp]:
  "flow (ep\<lparr>connections := ces\<rparr>) = flow ep"
  "flow (ep\<lparr>hello_counter := n\<rparr>) = flow ep"
  "flow (ep\<lparr>hello_ack_counter := n\<rparr>) = flow ep"
  "flow (ep\<lparr>hello_path_latency := l\<rparr>) = flow ep"
  "flow (ep\<lparr>hello_ack_path_latency := l\<rparr>) = flow ep"
  "flow (ep\<lparr>packet_sorter := s\<rparr>) = (s, tx_counter ep)"
  by (simp_all add: flow_def)

lemma flow_frame: "ep_frame ep ep' \<Longrightarrow> flow ep' = flow ep \<and> session_id ep' = session_id ep"
  by (simp add: ep_frame_def flow_def)

definition inherits_by ::
  "(endpoint_id \<Rightarrow> ('t, 'c) flow \<Rightarrow> ('t, 'c) flow) \<Rightarrow>
    ('t, 'c) connection_manager \<Rightarrow> ('t, 'c) connection_manager \<Rightarrow> bool" where
  "inherits_by f cm cm' \<longleftrightarrow> (\<forall>k ep'. get_endpoint k cm' = Some ep' \<longrightarrow> (\<exists>ep. get_endpoint k cm = Some ep \<and>
     session_id ep' = session_id ep \<and> flow ep' = f k (flow ep)))"

abbreviation inherits :: "('t, 'c) connection_manager \<Rightarrow> ('t, 'c) connection_manager \<Rightarrow> bool" where
  "inherits \<equiv> inherits_by (\<lambda>k s. s)"

lemma inherits_refl [simp]: "inherits cm cm"
  by (simp add: inherits_by_def)

lemma inherits_trans: "inherits_by f a b \<Longrightarrow> inherits b c \<Longrightarrow> inherits_by f a c"
  unfolding inherits_by_def by metis

lemma inherits_trans': "inherits a b \<Longrightarrow> inherits_by f b c \<Longrightarrow> inherits_by f a c"
  unfolding inherits_by_def by metis

lemma inherits_set:
  "get_endpoint k cm = Some ep \<Longrightarrow> session_id ep' = session_id ep \<Longrightarrow> flow ep' = f k (flow ep) \<Longrightarrow>
    (\<And>j s. j \<noteq> k \<Longrightarrow> f j s = s) \<Longrightarrow> inherits_by f cm (set_endpoint k ep' cm)"
  by (simp add: inherits_by_def)

lemma inherits_fields [simp]:
  "inherits_by f cm (cm'\<lparr>routes := r\<rparr>) = inherits_by f cm cm'"
  "inherits_by f cm (cm'\<lparr>session_history := h\<rparr>) = inherits_by f cm cm'"
  by (simp_all add: inherits_by_def)

section \<open>Operations that leave sorters and counters alone\<close>

lemma inherits_without_path: "inherits cm (without_path eid name addr cm)"
  by (auto simp: without_path_def split: option.split intro!: inherits_set)

lemma inherits_forget: "inherits cm (forget_endpoints eids cm)"
  by (simp add: inherits_by_def get_forget_endpoints)

lemma inherits_remove_connection:
  assumes "cm_inv cm" "remove_connection eid name addr cm = Inr cm'"
  shows "inherits cm cm'"
proof -
  have "hm_inv (endpoints (without_path eid name addr cm))"
    using cm_inv_without_path [OF assms(1)] by (simp add: cm_inv_def)
  from remove_connection_eq [OF this] assms(2) show ?thesis
    using inherits_trans [OF inherits_without_path inherits_forget] by auto
qed

lemma inherits_remove_paths:
  "cm_inv cm \<Longrightarrow> remove_paths paths cm = Inr cm' \<Longrightarrow> inherits cm cm'"
proof (induction paths cm rule: remove_paths.induct)
  case (2 eid name addr paths cm)
  then obtain cm1 where 1: "remove_connection eid name addr cm = Inr cm1" and 2: "remove_paths paths cm1 = Inr cm'"
    by (auto simp: bindR_eq_Inr)
  have "cm_inv cm1"
    using remove_connection_outcome [OF \<open>cm_inv cm\<close>, of eid name addr] 1 by (simp add: keeps_def)
  from "2.IH" [OF this 2] inherits_remove_connection [OF \<open>cm_inv cm\<close> 1] show ?case
    by (rule inherits_trans [rotated])
qed simp

lemma inherits_clean_up:
  "cm_inv cm \<Longrightarrow> clean_up (cm, w) = Inr (cm', w') \<Longrightarrow> inherits cm cm' \<and> w' = w"
  by (auto simp: clean_up_def bindR_eq_Inr remove_disconnected_def dest: inherits_remove_paths)

lemma inherits_repeated_hello:
  assumes "handle_repeated_hello X D info h cm w = Inr (cm', w')"
  shows "inherits cm cm' \<and> quiet X w w'"
proof (cases "get_endpoint (hello_id h) cm")
  case None
  then show ?thesis using assms by (simp add: handle_repeated_hello_def)
next
  case (Some ep)
  let ?ep = "ep\<lparr>hello_path_latency := insert_new_timestamp (w_system_now w) (hello_seq h) (hello_path_latency ep)\<rparr>"
  obtain r ep1 w1 ep2 where
      1: "add_connection X (source_address (connection_read_info info)) (ri_interface_name (connection_read_info info))
        (cm_local_address cm) (cm_connection_timeout cm) ?ep w = Inr (r, ep1, w1)"
    and 2: "acknowledge X (own_id cm) (session_id ep1) (own_static_routes cm) ep1 w1 = Inr (ep2, w')"
    and 3: "cm' = set_endpoint (hello_id h) ep2 cm"
    using assms Some by (auto simp: handle_repeated_hello_def bindR_eq_Inr Let_def)
  have "session_id ep2 = session_id ep" "flow ep2 = flow ep"
    using flow_frame [OF add_connection_frame [OF 1]] flow_frame [OF acknowledge_frame [OF 2]] by simp_all
  then show ?thesis
    using Some 3 quiet_trans [OF add_connection_quiet [OF 1] acknowledge_quiet [OF 2]] by (simp add: inherits_set)
qed

lemma inherits_hello_ack:
  "handle_hello_ack X D info a cm w = Inr (cm', w') \<Longrightarrow> inherits cm cm' \<and> quiet X w w'"
  by (auto simp: handle_hello_ack_def bindR_eq_Inr Let_def unwrap_eq_Inr inherits_by_def split: if_splits)

lemma interface_frame:
  "session_id (enable_interface n ep) = session_id ep" "session_id (disable_interface n ep) = session_id ep"
  "flow (enable_interface n ep) = flow ep" "flow (disable_interface n ep) = flow ep"
  by (simp_all add: enable_interface_def disable_interface_def)

lemma inherits_map:
  assumes "\<And>ep. session_id (g ep) = session_id ep" "\<And>ep. flow (g ep) = flow ep"
  shows "inherits cm (cm\<lparr>endpoints := map (\<lambda>(k, ep). (k, g ep)) (endpoints cm)\<rparr>)"
proof -
  have "map_of (map (\<lambda>(k, ep). (k, g ep)) m) k = map_option g (map_of m k)"
    for m :: "(endpoint_id \<times> ('a, 'b) endpoint) list" and k
    by (induction m) auto
  then show ?thesis using assms by (auto simp: inherits_by_def)
qed

lemma inherits_duplication: "inherits cm (handle_selective_duplication_command X bytes cm)"
  unfolding handle_selective_duplication_command_def
  by (auto split: option.split duplication_commands.split intro!: inherits_map simp: interface_frame)

section \<open>The effect of an event on an endpoint\<close>

text \<open>Which endpoint's sorter an event works on, and what it does to it.\<close>

definition sorter_input ::
  "('t, 'c) deps \<Rightarrow> event \<Rightarrow> ('t, 'c) connection_manager \<Rightarrow> world \<Rightarrow> (endpoint_id \<times> sorter_event) option" where
  "sorter_input X ev cm w =
    (case ev of
       NewEstablishedMessage i j received \<Rightarrow>
         (case await_incoming X i j received cm of
            Inr (Inr info) \<Rightarrow>
              (case bincode_deserialize X (packet_bytes (connection_read_info info)) of
                 Some (Packet pkt) \<Rightarrow> Some (eri_endpoint_id info, Arrive (w_now w) pkt)
               | _ \<Rightarrow> None)
          | _ \<Rightarrow> None)
     | PacketSorterDeadline i \<Rightarrow>
         (case select_endpoint X i cm of Inr (k, ep) \<Rightarrow> Some (k, DeadlineFired (w_now w)) | Inl p \<Rightarrow> None)
     | NewSortedPacket i \<Rightarrow>
         (case select_endpoint X i cm of Inr (k, ep) \<Rightarrow> Some (k, Deliver) | Inl p \<Rightarrow> None)
     | _ \<Rightarrow> None)"

text \<open>The operations on the sorter of endpoint \<open>k\<close>, at most one; and the packets taken out, with their endpoint.\<close>

definition ops_of :: "(endpoint_id \<times> sorter_event) option \<Rightarrow> endpoint_id \<Rightarrow> sorter_event list" where
  "ops_of inp k = (case inp of None \<Rightarrow> [] | Some (j, e) \<Rightarrow> if j = k then [e] else [])"

definition taken ::
  "('t, 'c) deps \<Rightarrow> (endpoint_id \<times> sorter_event) option \<Rightarrow> ('t, 'c) connection_manager \<Rightarrow> (endpoint_id \<times> packet) list" where
  "taken X inp cm = (case inp of None \<Rightarrow> [] | Some (k, e) \<Rightarrow>
     (case get_endpoint k cm of None \<Rightarrow> [] | Some ep \<Rightarrow> map (Pair k) (sorter_emit X e (packet_sorter ep))))"

definition written :: "(endpoint_id \<times> packet) list \<Rightarrow> u8 list list" where
  "written out = map (\<lambda>(k, p). pkt_bytes p) out"

text \<open>What an event reads from the tunnel device for endpoint \<open>k\<close>, and the datagrams made of it for all endpoints.\<close>

definition read_for ::
  "('t, 'c) deps \<Rightarrow> event \<Rightarrow> ('t, 'c) connection_manager \<Rightarrow> endpoint_id \<Rightarrow> u8 list list" where
  "read_for X ev cm k =
    (case ev of
       TunnelPacket (Inr bytes) \<Rightarrow> (if routed_to X (routes cm) k bytes then [bytes] else [])
     | _ \<Rightarrow> [])"

definition datagrams ::
  "('t, 'c) deps \<Rightarrow> event \<Rightarrow> ('t, 'c) connection_manager \<Rightarrow> u8 list set" where
  "datagrams X ev cm =
    (case ev of
       TunnelPacket (Inr bytes) \<Rightarrow>
         {tun_packet X bytes ep |k ep. get_endpoint k cm = Some ep \<and> routed_to X (routes cm) k bytes}
     | _ \<Rightarrow> {})"

lemma ops_of_simps [simp]:
  "ops_of None k = []" "ops_of (Some (j, e)) k = (if j = k then [e] else [])"
  by (simp_all add: ops_of_def)

lemma written_simps [simp]:
  "written [] = []" "written (out @ out') = written out @ written out'"
  by (simp_all add: written_def)

lemma no_data [simp]:
  "read_for X (NewEstablishedMessage i j r) cm = (\<lambda>k. [])" "datagrams X (NewEstablishedMessage i j r) cm = {}"
  "read_for X (ConnectionTimeout i j) cm = (\<lambda>k. [])" "datagrams X (ConnectionTimeout i j) cm = {}"
  "read_for X (PacketSorterDeadline i) cm = (\<lambda>k. [])" "datagrams X (PacketSorterDeadline i) cm = {}"
  "read_for X (TunnelPacket (Inl e)) cm = (\<lambda>k. [])" "datagrams X (TunnelPacket (Inl e)) cm = {}"
  "read_for X (NewSortedPacket i) cm = (\<lambda>k. [])" "datagrams X (NewSortedPacket i) cm = {}"
  "read_for X (DuplicationMessage m) cm = (\<lambda>k. [])" "datagrams X (DuplicationMessage m) cm = {}"
  by (simp_all add: read_for_def datagrams_def fun_eq_iff)

text \<open>
  The effect on the sorter and the counter of endpoint \<open>k\<close>: at most one operation of the sorter, and one
  number for every packet read.
\<close>

definition effect ::
  "('t, 'c) deps \<Rightarrow> (endpoint_id \<times> sorter_event) option \<Rightarrow> (endpoint_id \<Rightarrow> u8 list list) \<Rightarrow>
    endpoint_id \<Rightarrow> ('t, 'c) flow \<Rightarrow> ('t, 'c) flow" where
  "effect X inp ins k = map_prod (fold (sorter_step X) (ops_of inp k)) (\<lambda>n. n + of_nat (length (ins k)))"

definition refines ::
  "('t, 'c) deps \<Rightarrow> (endpoint_id \<times> sorter_event) option \<Rightarrow> (endpoint_id \<Rightarrow> u8 list list) \<Rightarrow> u8 list set \<Rightarrow>
    ('t, 'c) connection_manager \<Rightarrow> world \<Rightarrow> ('t, 'c) connection_manager \<Rightarrow> world \<Rightarrow> bool" where
  "refines X inp ins datas cm w cm' w' \<longleftrightarrow>
    inherits_by (effect X inp ins) cm cm' \<and> emits X datas (written (taken X inp cm)) w w'"

lemma effect_none [simp]: "effect X None (\<lambda>k. []) = (\<lambda>k s. s)"
  by (auto simp: effect_def fun_eq_iff)

lemma effect_op: "effect X (Some (k, e)) (\<lambda>k. []) = (\<lambda>j. if k = j then map_prod (sorter_step X e) (\<lambda>n. n) else (\<lambda>s. s))"
  by (auto simp: effect_def fun_eq_iff)

lemma refines_none: "refines X None (\<lambda>k. []) {} cm w cm' w' \<longleftrightarrow> inherits cm cm' \<and> quiet X w w'"
  by (simp add: refines_def taken_def)

lemma refines_op:
  assumes "get_endpoint k cm = Some ep" "get_endpoint k cm' = Some ep'" "session_id ep' = session_id ep"
    and "flow ep' = (sorter_step X e (packet_sorter ep), tx_counter ep)"
    and "\<And>j. j \<noteq> k \<Longrightarrow> get_endpoint j cm' = get_endpoint j cm"
    and "emits X {} (map pkt_bytes (sorter_emit X e (packet_sorter ep))) w w'"
  shows "refines X (Some (k, e)) (\<lambda>k. []) {} cm w cm' w'"
proof -
  have "written (map (Pair k) ps) = map pkt_bytes ps" for ps
    by (simp add: written_def)
  moreover have "inherits_by (effect X (Some (k, e)) (\<lambda>k. [])) cm cm'"
    unfolding effect_op inherits_by_def
  proof (intro allI impI)
    fix j f assume f: "get_endpoint j cm' = Some f"
    show "\<exists>g. get_endpoint j cm = Some g \<and> session_id f = session_id g \<and>
        flow f = (if k = j then map_prod (sorter_step X e) (\<lambda>n. n) else (\<lambda>s. s)) (flow g)"
      using f assms(1-5) by (cases "j = k") (auto simp: flow_def)
  qed
  ultimately show ?thesis using assms(1,6) by (simp add: refines_def taken_def)
qed

lemma selected:
  assumes "select_laws X" "cm_inv cm" "select_endpoint X i cm = Inr (k, ep)"
  shows "get_endpoint k cm = Some ep" "ep_id ep = k"
proof -
  have "(k, ep) \<in> set (candidates cm)"
    using select_endpoint_outcome [OF assms(1), of cm i] assms(3) by simp
  then show "get_endpoint k cm = Some ep" by (rule candidates_endpoint [OF assms(2)])
  then show "ep_id ep = k" using cm_inv_get [OF assms(2)] by (simp add: endpoint_ok_def)
qed

lemma refines_packet:
  assumes "get_endpoint (eri_endpoint_id info) cm \<noteq> None" "handle_packet X logging info pkt cm w = Inr (cm', w')"
  shows "refines X (Some (eri_endpoint_id info, Arrive (w_now w) pkt)) (\<lambda>k. []) {} cm w cm' w'"
proof -
  obtain ep where ep: "get_endpoint (eri_endpoint_id info) cm = Some ep" using assms(1) by blast
  obtain w1 where 1: "(case logging of
        Some l \<Rightarrow> interface_logger_add_log_line l (eri_endpoint_id info) (pkt_seq pkt)
          (ri_interface_name (connection_read_info info)) w
      | None \<Rightarrow> Inr w) = Inr w1"
    and 2: "cm' = set_endpoint (eri_endpoint_id info)
      (ep\<lparr>packet_sorter := insert_packet X (w_now w1) pkt (packet_sorter ep)\<rparr>) cm" "w' = w1"
    using assms(2) ep by (auto simp: handle_packet_def bindR_eq_Inr)
  have "w_now w1 = w_now w"
    using 1 by (auto simp: interface_logger_add_log_line_def bindR_eq_Inr extends_def split: option.splits
        dest!: extends_must_call)
  moreover have "quiet X w w1"
    using 1 by (auto split: option.splits dest: logging_quiet)
  ultimately show ?thesis
    using 2 by (intro refines_op [OF ep, where ep' = "ep\<lparr>packet_sorter := insert_packet X (w_now w1) pkt (packet_sorter ep)\<rparr>"]) auto
qed

lemma forward_written:
  assumes "log_and_forward L pkt cm w = Inr (cm', w')"
  shows "cm' = cm \<and> emits X {} [pkt_bytes pkt] w w'"
proof -
  obtain w1 where 1: "(case sorter_logging L of Some l \<Rightarrow> packet_sorter_logger_add_log_line l (pkt_seq pkt) w
      | None \<Rightarrow> Inr w) = Inr w1"
    and 2: "(case sys (TunSend (pkt_bytes pkt)) w1 of (Inr n, w) \<Rightarrow> Inr (cm, w) | (Inl e, w) \<Rightarrow> Inl UnwrapErr) = Inr (cm', w')"
    using assms by (auto simp: log_and_forward_def bindR_eq_Inr)
  have "quiet X w w1" using 1 by (auto split: option.splits dest: logging_quiet)
  moreover obtain r v where v: "sys (TunSend (pkt_bytes pkt)) w1 = (r, v)" by (cases "sys (TunSend (pkt_bytes pkt)) w1")
  ultimately show ?thesis using 2 quiet_then [OF _ sys_tun [OF v]] by (cases r) simp_all
qed

text \<open>A packet from the tunnel device: \<open>tun_loop_eq\<close> in these terms.\<close>

lemma sends_emits: "Send fd d \<in> set (tun_sends X bytes ep) \<Longrightarrow> d = tun_packet X bytes ep"
  by (auto simp: tun_sends_def sends_def)

lemma tun_of_sends [simp]: "concat (map tun_of (sends bytes p ces)) = []"
  by (auto simp: sends_def)

lemma refines_tun:
  assumes "serializes X" "cm_inv cm" "handle_packet_from_tun X bytes cm w = Inr (cm', w')"
  shows "refines X None (read_for X (TunnelPacket (Inr bytes)) cm) (datagrams X (TunnelPacket (Inr bytes)) cm) cm w cm' w'"
proof (cases "\<exists>a. slice_from_ip X bytes = SliceIpv4 a")
  case False
  then have "cm' = cm \<and> w' = w"
    using assms(3) by (auto simp: handle_packet_from_tun_def get_route_def split: ip_slice.splits)
  moreover have "\<not> routed_to X (routes cm) k bytes" for k using False by (simp add: routed_to_def)
  ultimately show ?thesis
    using refines_none [of X cm w cm w] by (simp add: read_for_def [abs_def] datagrams_def)
next
  case True
  then obtain a where a: "slice_from_ip X bytes = SliceIpv4 a" by blast
  let ?eids = "router_lookup (routes cm) a"
  have s: "set ?eids \<subseteq> dom (hm_get (endpoints cm))"
    using rt.find_targets [of "routes cm" a] assms(2) by (auto simp: cm_inv_def)
  have tr: "w_trace w' = w_trace w @ concat (map (\<lambda>eid. tun_sends X bytes (the (get_endpoint eid cm))) ?eids)"
    and out: "\<forall>k. k \<notin> set ?eids \<longrightarrow> get_endpoint k cm' = get_endpoint k cm"
    and ins: "\<forall>k\<in>set ?eids. \<exists>n. get_endpoint k cm' = map_option (tun_sent X bytes w n) (get_endpoint k cm)"
    using tun_loop_eq [OF assms(1,2) rt.distinct_find s, where bytes = bytes and w = w] assms(3) a
    by (auto simp: handle_packet_from_tun_def get_route_def)
  have r: "routed_to X (routes cm) k bytes \<longleftrightarrow> k \<in> set ?eids" for k using a by (simp add: routed_to_def)
  have "inherits_by (effect X None (read_for X (TunnelPacket (Inr bytes)) cm)) cm cm'"
    unfolding inherits_by_def
  proof (intro allI impI)
    fix k ep' assume e: "get_endpoint k cm' = Some ep'"
    show "\<exists>ep. get_endpoint k cm = Some ep \<and> session_id ep' = session_id ep \<and>
        flow ep' = effect X None (read_for X (TunnelPacket (Inr bytes)) cm) k (flow ep)"
    proof (cases "k \<in> set ?eids")
      case True
      then obtain n where "get_endpoint k cm' = map_option (tun_sent X bytes w n) (get_endpoint k cm)" using ins by blast
      then show ?thesis using e True
        by (cases "get_endpoint k cm") (auto simp: r read_for_def effect_def tun_sent_def flow_def)
    next
      case False
      then show ?thesis using e out by (simp add: r read_for_def effect_def flow_def)
    qed
  qed
  moreover have "emits X (datagrams X (TunnelPacket (Inr bytes)) cm) [] w w'"
    unfolding emits_def
  proof (intro exI conjI allI impI)
    show "w_trace w' = w_trace w @ concat (map (\<lambda>eid. tun_sends X bytes (the (get_endpoint eid cm))) ?eids)" by (rule tr)
    show "concat (map tun_of (concat (map (\<lambda>eid. tun_sends X bytes (the (get_endpoint eid cm))) ?eids))) = []"
      by (auto simp: tun_sends_def sends_def)
    fix fd d assume "Send fd d \<in> set (concat (map (\<lambda>eid. tun_sends X bytes (the (get_endpoint eid cm))) ?eids))"
    then obtain k where k: "k \<in> set ?eids" "Send fd d \<in> set (tun_sends X bytes (the (get_endpoint k cm)))" by auto
    moreover obtain ep where "get_endpoint k cm = Some ep" using k(1) s by auto
    ultimately show "control_bytes X d \<or> d \<in> datagrams X (TunnelPacket (Inr bytes)) cm"
      using sends_emits [OF k(2)] by (auto simp: datagrams_def r)
  qed
  ultimately show ?thesis by (simp add: refines_def taken_def)
qed

lemma await_incoming_endpoint:
  assumes "select_laws X" "cm_inv cm" "await_incoming X i j received cm = Inr (Inr info)"
  shows "get_endpoint (eri_endpoint_id info) cm \<noteq> None"
proof -
  obtain k ep where 1: "select_endpoint X i cm = Inr (k, ep)" "await_connections X j received ep = Inr (Inr info)"
    using assms(3) by (auto simp: await_incoming_def bindR_eq_Inr)
  have "eri_endpoint_id info = ep_id ep"
    using 1(2) by (cases received) (auto simp: await_connections_def bindR_eq_Inr)
  then show ?thesis using selected [OF assms(1,2) 1(1)] by simp
qed

lemma inherits_await_timeout:
  assumes "select_laws X" "cm_inv cm" "await_timeout X now i j cm = Inr (Some (path, cm'))"
  shows "inherits cm cm'"
proof -
  obtain k ep r where 1: "select_endpoint X i cm = Inr (k, ep)" and r: "await_connection_timeouts X now j ep = Inr r"
    and 2: "map_option (\<lambda>(path, ep). (path, set_endpoint k ep cm)) r = Some (path, cm')"
    using assms(3) by (auto simp: await_timeout_def bindR_eq_Inr)
  then obtain ep' where ep': "r = Some (path, ep')" "cm' = set_endpoint k ep' cm" by auto
  then have "session_id ep' = session_id ep" "flow ep' = flow ep"
    using r by (auto simp: await_connection_timeouts_def bindR_eq_Inr)
  then show ?thesis using ep' selected [OF assms(1,2) 1] by (simp add: inherits_set)
qed

text \<open>Every event both loops handle is at most one operation on one sorter.\<close>

lemma handle_event_refines:
  assumes "serializes X" "select_laws X" "cm_inv cm" "handle_event X L ev cm w = Some (Inr (cm', w'))"
  shows "refines X (sorter_input X ev cm w) (read_for X ev cm) (datagrams X ev cm) cm w cm' w'"
proof (cases ev)
  case (NewEstablishedMessage i j received)
  then obtain result where a: "await_incoming X i j received cm = Inr result" and r: "(case result of
        Inr info \<Rightarrow> handle_established_message X (log_debug L) (interface_logging L) info cm w
      | Inl e \<Rightarrow> Inr (cm, w)) = Inr (cm', w')"
    using assms(4) by (auto simp: bindR_eq_Inr)
  show ?thesis
  proof (cases result)
    case (Inl e)
    then show ?thesis using a r NewEstablishedMessage by (simp add: sorter_input_def refines_none)
  next
    case (Inr info)
    have "get_endpoint (eri_endpoint_id info) cm \<noteq> None"
      by (rule await_incoming_endpoint [OF assms(2,3)]) (use a Inr in simp)
    with Inr show ?thesis
      using a r NewEstablishedMessage
      by (auto simp: sorter_input_def refines_none handle_established_message_def
          split: option.splits messages.splits simp del: not_None_eq
          dest: inherits_repeated_hello inherits_hello_ack intro: refines_packet)
  qed
next
  case (ConnectionTimeout i j)
  then obtain eid name addr cm1 where 1: "await_timeout X (w_now w) i j cm = Inr (Some ((eid, name, addr), cm1))"
    and 2: "remove_connection eid name addr cm1 = Inr cm'" "w' = w"
    using assms(4) by (auto simp: when_ready_def bindR_eq_Inr split: sum.splits option.splits)
  have "cm_inv cm1"
    using await_timeout_outcome [OF assms(2,3), of "w_now w" i j] 1 by (simp add: keeps_def)
  from inherits_remove_connection [OF this 2(1)] inherits_await_timeout [OF assms(2,3) 1]
  have "inherits cm cm'" by (rule inherits_trans [rotated])
  then show ?thesis using ConnectionTimeout 2(2)
    by (simp add: sorter_input_def refines_none)
next
  case (PacketSorterDeadline i)
  then obtain ep k s where 1: "select_endpoint X i cm = Inr (k, ep)" and 2: "await_deadline X (w_now w) (packet_sorter ep) = Some s"
    and 3: "cm' = handle_packet_sorter_deadline X (w_now w) (ep_id ep) (set_endpoint k (ep\<lparr>packet_sorter := s\<rparr>) cm)" "w' = w"
    using assms(4)
    by (auto simp: when_ready_def await_packet_sorters_def await_packet_sorter_deadline_def bindR_eq_Inr
        split: sum.splits option.splits)
  note ep = selected [OF assms(2,3) 1]
  have "refines X (Some (k, DeadlineFired (w_now w))) (\<lambda>k. []) {} cm w cm' w'"
    using 2 3 ep
    by (intro refines_op [OF ep(1), where ep' = "ep\<lparr>packet_sorter := advance_queue X (w_now w) s\<rparr>"])
      (auto simp: handle_packet_sorter_deadline_def)
  then show ?thesis using PacketSorterDeadline 1 by (simp add: sorter_input_def)
next
  case (NewSortedPacket i)
  then obtain ep k r s where 1: "select_endpoint X i cm = Inr (k, ep)"
    and 2: "await_have_next_packet X (packet_sorter ep) = Some (r, s)"
    and 3: "(case r of Some pkt \<Rightarrow> log_and_forward L pkt (set_endpoint k (ep\<lparr>packet_sorter := s\<rparr>) cm) w
      | None \<Rightarrow> Inr (set_endpoint k (ep\<lparr>packet_sorter := s\<rparr>) cm, w)) = Inr (cm', w')"
    using assms(4)
    by (auto simp: when_ready_def await_endpoint_sorted_packets_def await_sorted_packet_def bindR_eq_Inr
        split: sum.splits option.splits)
  note ep = selected [OF assms(2,3) 1]
  have "cm' = set_endpoint k (ep\<lparr>packet_sorter := s\<rparr>) cm \<and>
      emits X {} (map pkt_bytes (sorter_emit X Deliver (packet_sorter ep))) w w'"
    using 2 3 by (cases r) (auto dest!: forward_written [where X = X])
  then have "refines X (Some (k, Deliver)) (\<lambda>k. []) {} cm w cm' w'"
    using 2 by (intro refines_op [OF ep(1), where ep' = "ep\<lparr>packet_sorter := s\<rparr>"]) auto
  then show ?thesis using NewSortedPacket 1 by (simp add: sorter_input_def)
next
  case (TunnelPacket maybe_packet)
  then show ?thesis
    using assms(4) refines_tun [OF assms(1,3)]
    by (cases maybe_packet) (auto simp: sorter_input_def refines_none)
next
  case (DuplicationMessage received)
  then show ?thesis
    using assms(4)
    by (cases received) (auto simp: received_from_def sorter_input_def refines_none
        inherits_duplication split: if_splits)
qed

text \<open>
  \<open>continues_by f cm cm'\<close>: an endpoint that is there before and after, in the same session, has its sorter
  and counter changed by \<open>f\<close>.  A hello may also start a new session, with a new sorter.
\<close>

definition continues_by ::
  "(endpoint_id \<Rightarrow> ('t, 'c) flow \<Rightarrow> ('t, 'c) flow) \<Rightarrow>
    ('t, 'c) connection_manager \<Rightarrow> ('t, 'c) connection_manager \<Rightarrow> bool" where
  "continues_by f cm cm' \<longleftrightarrow> (\<forall>k ep ep'. get_endpoint k cm = Some ep \<longrightarrow> get_endpoint k cm' = Some ep' \<longrightarrow>
     session_id ep' = session_id ep \<longrightarrow> flow ep' = f k (flow ep))"

definition preserves :: "('t, 'c) connection_manager \<Rightarrow> ('t, 'c) connection_manager \<Rightarrow> bool" where
  "preserves cm cm' \<longleftrightarrow> (\<forall>k ep. get_endpoint k cm = Some ep \<longrightarrow> (\<exists>ep'. get_endpoint k cm' = Some ep' \<and>
     session_id ep' = session_id ep \<and> flow ep' = flow ep))"

lemma inherits_continues: "inherits_by f cm cm' \<Longrightarrow> continues_by f cm cm'"
  by (fastforce simp: inherits_by_def continues_by_def)

lemma preserves_continues: "preserves cm cm' \<Longrightarrow> continues_by (\<lambda>k s. s) cm cm'"
  by (fastforce simp: preserves_def continues_by_def)

lemma continues_then: "continues_by f a b \<Longrightarrow> inherits b c \<Longrightarrow> continues_by f a c"
  by (fastforce simp: inherits_by_def continues_by_def)

lemma preserves_refl [simp]: "preserves cm cm"
  by (simp add: preserves_def)

lemma preserves_trans: "preserves a b \<Longrightarrow> preserves b c \<Longrightarrow> preserves a c"
  by (fastforce simp: preserves_def)

lemma preserves_set:
  "get_endpoint k cm = Some ep \<Longrightarrow> session_id ep' = session_id ep \<Longrightarrow> flow ep' = flow ep \<Longrightarrow>
    preserves cm (set_endpoint k ep' cm)"
  by (simp add: preserves_def)

section \<open>Hellos and keepalives\<close>

lemma accept_path_quiet:
  assumes "accept_path X addr name cm ep w = Inr (ep', w')"
  shows "quiet X w w'"
proof -
  obtain r ep1 w1 ep2 w2 where
      1: "add_connection X addr name (cm_local_address cm) (cm_connection_timeout cm) ep w = Inr (r, ep1, w1)"
    and 2: "(case r of Inr _ \<Rightarrow> acknowledge X (own_id cm) (session_id ep1) (own_static_routes cm) ep1 w1
      | Inl e \<Rightarrow> Inr (ep1, w1)) = Inr (ep2, w2)"
    and 3: "acknowledge X (own_id cm) (session_id ep2) (own_static_routes cm) ep2 w2 = Inr (ep', w')"
    using assms by (auto simp: accept_path_def bindR_eq_Inr)
  have "quiet X w1 w2" using 2 by (cases r) (auto dest: acknowledge_quiet)
  then show ?thesis
    using quiet_trans [OF quiet_trans [OF add_connection_quiet [OF 1]] acknowledge_quiet [OF 3]] by blast
qed

lemma handle_hello_continues:
  assumes "handle_hello X message addr name cm w = Inr (cm', w')"
  shows "continues_by (\<lambda>k s. s) cm cm' \<and> quiet X w w'"
proof (cases "\<exists>h. bincode_deserialize X message = Some (Hello h)")
  case False
  then have "cm' = cm \<and> w' = w" using assms by (auto simp: handle_hello_def split: option.splits messages.splits)
  then show ?thesis by (simp add: continues_by_def)
next
  case True
  then obtain h where h: "bincode_deserialize X message = Some (Hello h)" by blast
  let ?cm = "ensure_endpoint X (w_now w) h cm"
  have same: "get_endpoint k ?cm = Some e" if "get_endpoint k cm = Some e" for k e
    using that by (auto simp: ensure_endpoint_def hm_contains_key_def)
  obtain ep where ep: "get_endpoint (hello_id h) ?cm = Some ep" using ensure_endpoint_present by blast
  show ?thesis
  proof (cases "admit_session X (w_now w) h ep ?cm")
    case None
    then have "cm' = ?cm" "w' = w" using assms h ep by (auto simp: handle_hello_def)
    then show ?thesis using same by (auto simp: continues_by_def)
  next
    case (Some x)
    then obtain ep1 history where adm: "admit_session X (w_now w) h ep ?cm = Some (ep1, history)" by (cases x) auto
    obtain ep2 where acc: "accept_path X addr name ?cm ep1 w = Inr (ep2, w')"
      and cm': "cm' = (set_endpoint (hello_id h) ep2 ?cm)\<lparr>session_history := history,
        routes := learn_routes (hello_static_routes h) (hello_id h) (routes cm)\<rparr>"
      using assms h ep adm by (auto simp: handle_hello_def bindR_eq_Inr Let_def)
    note f = flow_frame [OF accept_path_frame [OF acc]]
    have "flow ep2 = flow e" if "get_endpoint (hello_id h) cm = Some e" "session_id ep2 = session_id e" for e
    proof -
      have "e = ep" using same [OF that(1)] ep by simp
      then have "ep1 = ep"
        using adm f that(2) by (auto simp: admit_session_def endpoint_new_def split: if_splits)
      then show ?thesis using f \<open>e = ep\<close> by simp
    qed
    then show ?thesis
      using same accept_path_quiet [OF acc] by (auto simp: continues_by_def cm')
  qed
qed

lemma list_all2_map_of_all:
  "list_all2 (\<lambda>(k, v) (k', v'). k' = k \<and> R v v') m m' \<Longrightarrow> map_of m k = Some v \<Longrightarrow> \<exists>v'. map_of m' k = Some v' \<and> R v v'"
  by (induction rule: list_all2_induct) (auto split: if_splits)

lemma greet_endpoint_frame:
  "greet_endpoint X cm e w = Inr (e', w') \<Longrightarrow>
    (\<lambda>(k, ep) (k', ep'). k' = k \<and> (session_id ep' = session_id ep \<and> flow ep' = flow ep)) e e' \<and> quiet X w w'"
  by (auto simp: greet_endpoint_def bindR_eq_Inr Let_def unwrap_eq_Inr split: prod.splits
      dest!: control_bytesI(1) loops_quiet(2))

lemma greet_all_preserves:
  assumes "greet_all_endpoints X cm w = Inr (cm', w')"
  shows "preserves cm cm' \<and> quiet X w w'"
proof -
  obtain es where e: "for_each (greet_endpoint X cm) (endpoints cm) w = Inr (es, w')" "cm' = cm\<lparr>endpoints := es\<rparr>"
    using assms by (auto simp: greet_all_endpoints_def bindR_eq_Inr)
  have "list_all2 (\<lambda>(k, ep) (k', ep'). k' = k \<and> (session_id ep' = session_id ep \<and> flow ep' = flow ep))
      (endpoints cm) es"
    by (rule for_each_list_all2 [OF _ e(1)]) (use greet_endpoint_frame in blast)
  from list_all2_map_of_all [OF this] have "preserves cm cm'" by (simp add: preserves_def e(2))
  moreover have "quiet X w w'"
    by (rule for_each_quiet [OF _ e(1)]) (use greet_endpoint_frame in blast)
  ultimately show ?thesis ..
qed

lemma make_socket_quiet:
  assumes "make_socket ifs n a q b w = Inr (r, w')"
  shows "quiet X w w'"
proof -
  obtain s w1 where 1: "sys SocketNew w = (s, w1)" by (cases "sys SocketNew w")
  then obtain fd where fd: "s = Inr fd" using assms by (cases s) (auto simp: make_socket_def)
  obtain d w2 where 2: "sys (BindDevice fd n) w1 = (d, w2)" by (cases "sys (BindDevice fd n) w1")
  have q: "quiet X w w1" "quiet X w w2"
    using sys_quiet [OF 1] sys_quiet [OF 2] by (auto intro: quiet_trans)
  have tail: "quiet X v w'" if "try_call (Bind fd x) v (\<lambda>_ w. try_call (SetNonblocking fd) w (\<lambda>_ w.
      try_call (AsyncTryFrom fd) w (\<lambda>_ w. (Inr sk, w)))) = (r, w')" for x v sk
    using that by - ((erule try_call_quiet, simp)+, simp)
  show ?thesis
    using assms 1 2 fd q
    by (cases d) (auto simp: make_socket_def bindR_eq_Inr Let_def split: if_splits dest: tail intro: quiet_trans)
qed

lemma create_preserves:
  assumes "create_new_connection X ifs name l d eid cm w = Inr (r, cm', w')"
  shows "preserves cm cm' \<and> quiet X w w'"
proof -
  obtain ip where l: "(case l of V4 ip q \<Rightarrow> Inr ip | V6 i q \<Rightarrow> Inl Ipv6NotSupported) = Inr ip"
    using assms by (auto simp: create_new_connection_def bindR_eq_Inr)
  then obtain so w1 where 1: "make_socket ifs name (Some ip) None True w = Inr (so, w1)"
    using assms by (auto simp: create_new_connection_def bindR_eq_Inr)
  note q1 = make_socket_quiet [OF 1]
  show ?thesis
  proof (cases so)
    case (Inl e)
    then show ?thesis using assms l 1 q1 by (simp add: create_new_connection_def)
  next
    case (Inr sk)
    obtain a w2 where 2: "sys (ConnectTo (sk_fd sk) d) w1 = (a, w2)" by (cases "sys (ConnectTo (sk_fd sk) d) w1")
    obtain ep cm3 w3 where 3: "peer_endpoint X eid cm w2 = (ep, cm3, w3)" by (cases "peer_endpoint X eid cm w2")
    have p: "preserves cm cm3" "quiet X w2 w3" "get_endpoint eid cm3 = Some ep"
      using 3 by (auto simp: peer_endpoint_def fresh_uuid_def Let_def preserves_def tun_written_def split: option.splits)
    have g: "preserves cm3 cm' \<and> quiet X w3 w'"
      if gr: "greet_and_register X name d eid (sk\<lparr>sk_peer := Some d\<rparr>) ep cm3 w3 = Inr (r, cm', w')"
    proof -
      obtain bytes where b: "bincode_serialize X (Hello \<lparr>hello_id = own_id cm3, hello_session_id = session_id ep,
          hello_static_routes = own_static_routes cm3, hello_seq = hello_counter ep\<rparr>) = Some bytes"
        using gr by (cases "bincode_serialize X (Hello \<lparr>hello_id = own_id cm3, hello_session_id = session_id ep,
          hello_static_routes = own_static_routes cm3, hello_seq = hello_counter ep\<rparr>)") (auto simp: greet_and_register_def Let_def)
      obtain s w4 where 4: "sys (Send (sk_fd sk) bytes) w3 = (s, w4)" by (cases "sys (Send (sk_fd sk) bytes) w3")
      show ?thesis
        using gr b 4 sys_quiet [OF 4] control_bytesI(1) [OF b] p(3)
        by (cases s) (auto simp: greet_and_register_def Let_def bindR_eq_Inr preserves_def intro: quiet_trans
            dest!: connection_new_quiet [where X' = X])
    qed
    show ?thesis
    proof (cases a)
      case (Inl e)
      then show ?thesis
        using assms l 1 quiet_trans [OF q1 sys_quiet [OF 2]] \<open>so = Inr sk\<close> 2 by (simp add: create_new_connection_def)
    next
      case (Inr n)
      then show ?thesis
        using assms l 1 quiet_trans [OF quiet_trans [OF q1 sys_quiet [OF 2]] p(2)] \<open>so = Inr sk\<close> 2 3 p(1) g
        by (auto simp: create_new_connection_eq intro: preserves_trans quiet_trans)
    qed
  qed
qed

lemma reopen_preserves:
  "reopen_loop X ifs alive infos cm w = Inr (cm', w') \<Longrightarrow> preserves cm cm' \<and> quiet X w w'"
proof (induction X ifs alive infos cm w rule: reopen_loop.induct)
  case (2 X ifs alive info infos cm w)
  then obtain cm1 w1 where 1: "(if (ci_interface_name info, ci_destination_address info) \<notin> set alive
      then bindR (create_new_connection X ifs (ci_interface_name info) (ci_local_address info)
             (ci_destination_address info) (ci_destination_endpoint_id info) cm w) (\<lambda>(r, cm, w). Inr (cm, w))
      else Inr (cm, w)) = Inr (cm1, w1)" and r: "reopen_loop X ifs alive infos cm1 w1 = Inr (cm', w')"
    by (auto simp: bindR_eq_Inr)
  have "preserves cm cm1 \<and> quiet X w w1"
    using 1 by (auto simp: bindR_eq_Inr split: if_splits dest: create_preserves)
  moreover have "preserves cm1 cm' \<and> quiet X w1 w'" using "2.IH" [OF r] .
  ultimately show ?case by (auto intro: preserves_trans quiet_trans)
qed simp

section \<open>Runs of a loop\<close>

text \<open>\<open>shared ev\<close> is the event of the kind both loops have, if a turn's event is one.\<close>

definition turn_input ::
  "('t, 'c) deps \<Rightarrow> event option \<Rightarrow> ('t, 'c) connection_manager \<Rightarrow> world \<Rightarrow> (endpoint_id \<times> sorter_event) option" where
  "turn_input X oe cm w = (case oe of None \<Rightarrow> None | Some e \<Rightarrow> sorter_input X e cm w)"

definition turn_read ::
  "('t, 'c) deps \<Rightarrow> event option \<Rightarrow> ('t, 'c) connection_manager \<Rightarrow> endpoint_id \<Rightarrow> u8 list list" where
  "turn_read X oe cm k = (case oe of None \<Rightarrow> [] | Some e \<Rightarrow> read_for X e cm k)"

definition turn_datagrams :: "('t, 'c) deps \<Rightarrow> event option \<Rightarrow> ('t, 'c) connection_manager \<Rightarrow> u8 list set" where
  "turn_datagrams X oe cm = (case oe of None \<Rightarrow> {} | Some e \<Rightarrow> datagrams X e cm)"

definition turn_refines ::
  "('t, 'c) deps \<Rightarrow> event option \<Rightarrow> ('t, 'c) connection_manager \<Rightarrow> world \<Rightarrow>
    ('t, 'c) connection_manager \<Rightarrow> world \<Rightarrow> bool" where
  "turn_refines X oe cm w cm' w' \<longleftrightarrow>
    continues_by (effect X (turn_input X oe cm w) (turn_read X oe cm)) cm cm' \<and>
    emits X (turn_datagrams X oe cm) (written (taken X (turn_input X oe cm w) cm)) w w'"

lemma turn_refines_none: "continues_by (\<lambda>k s. s) cm cm' \<Longrightarrow> quiet X w w' \<Longrightarrow> turn_refines X None cm w cm' w'"
  by (simp add: turn_refines_def turn_input_def turn_read_def [abs_def] turn_datagrams_def taken_def)

lemma turn_refines_event:
  "refines X (sorter_input X e cm w) (read_for X e cm) (datagrams X e cm) cm w cm' w' \<Longrightarrow>
    turn_refines X (Some e) cm w cm' w'"
  by (simp add: turn_refines_def turn_input_def turn_read_def [abs_def] turn_datagrams_def refines_def inherits_continues)

lemma turn_refines_then:
  "turn_refines X oe cm w cm1 w1 \<Longrightarrow> inherits cm1 cm' \<Longrightarrow> turn_refines X oe cm w cm' w1"
  by (auto simp: turn_refines_def intro: continues_then)

text \<open>
  A run of a loop during which endpoint \<open>k\<close> stays in session \<open>sid\<close> and every packet that arrives for it
  satisfies \<open>N\<close>: \<open>ins\<close> is what was read from the tunnel device for \<open>k\<close>, \<open>out\<close> the packets taken out of
  all sorters, in order.
\<close>

definition feeds :: "(packet \<Rightarrow> bool) \<Rightarrow> sorter_event \<Rightarrow> bool" where
  "feeds N e = (case e of Arrive t p \<Rightarrow> N p | _ \<Rightarrow> True)"

inductive session_run ::
  "('e \<Rightarrow> ('t, 'c) connection_manager \<Rightarrow> world \<Rightarrow> ('t, 'c) step option) \<Rightarrow> ('e \<Rightarrow> event option) \<Rightarrow>
    ('t, 'c) deps \<Rightarrow> endpoint_id \<Rightarrow> uuid \<Rightarrow> (packet \<Rightarrow> bool) \<Rightarrow>
    ('t, 'c) connection_manager \<times> world \<Rightarrow> u8 list list \<Rightarrow> (endpoint_id \<times> packet) list \<Rightarrow>
    ('t, 'c) connection_manager \<times> world \<Rightarrow> bool"
  for turn shared X k sid N s where
  start: "session_run turn shared X k sid N s [] [] s"
| clock: "session_run turn shared X k sid N s ins out (cm, w) \<Longrightarrow> w_now w \<le> t \<Longrightarrow>
    session_run turn shared X k sid N s ins out (cm, w\<lparr>w_now := t, w_system_now := u\<rparr>)"
| turn: "session_run turn shared X k sid N s ins out (cm, w) \<Longrightarrow> turn ev cm w = Some (Inr (cm', w')) \<Longrightarrow>
    map_option session_id (get_endpoint k cm') = Some sid \<Longrightarrow>
    list_all (feeds N) (ops_of (turn_input X (shared ev) cm w) k) \<Longrightarrow>
    session_run turn shared X k sid N s (ins @ turn_read X (shared ev) cm k)
      (out @ taken X (turn_input X (shared ev) cm w) cm) (cm', w')"

definition of_endpoint :: "endpoint_id \<Rightarrow> (endpoint_id \<times> packet) list \<Rightarrow> packet list" where
  "of_endpoint k out = map snd (filter (\<lambda>(j, p). j = k) out)"

lemma of_endpoint_simps [simp]:
  "of_endpoint k [] = []" "of_endpoint k (out @ out') = of_endpoint k out @ of_endpoint k out'"
  by (simp_all add: of_endpoint_def)

lemma of_endpoint_taken:
  assumes "get_endpoint k cm = Some ep"
  shows "of_endpoint k (taken X inp cm) = run_emit (sorter_step X) (sorter_emit X) (ops_of inp k) (packet_sorter ep)"
proof -
  have "of_endpoint k (map (Pair j) ps) = (if j = k then ps else [])" for j ps
    by (simp add: of_endpoint_def filter_map comp_def)
  then show ?thesis using assms by (auto simp: taken_def split: option.split)
qed

text \<open>The packets made of what is read for an endpoint, numbered from \<open>n\<close>.\<close>

fun numbered :: "u64 \<Rightarrow> endpoint_id \<Rightarrow> u8 list list \<Rightarrow> packet list" where
  "numbered n k [] = []"
| "numbered n k (bytes # bss) = \<lparr>pkt_seq = n, pkt_id = k, pkt_bytes = bytes\<rparr> # numbered (n + 1) k bss"

lemma numbered_append: "numbered n k (xs @ ys) = numbered n k xs @ numbered (n + of_nat (length xs)) k ys"
  by (induction n k xs rule: numbered.induct) (simp_all add: algebra_simps)

definition decodes :: "('t, 'c) deps \<Rightarrow> (u8 list \<Rightarrow> messages option) \<Rightarrow> bool" where
  "decodes X D \<longleftrightarrow> (\<forall>m d. bincode_serialize X m = Some d \<longrightarrow> D d = Some m)"

text \<open>What was sent to endpoint \<open>k\<close> since \<open>w\<close>, as the other side decodes it.\<close>

definition sent_to :: "(u8 list \<Rightarrow> messages option) \<Rightarrow> endpoint_id \<Rightarrow> world \<Rightarrow> world \<Rightarrow> packet \<Rightarrow> bool" where
  "sent_to D k w w' p \<longleftrightarrow> pkt_id p = k \<and>
    (\<exists>fd d. Send fd d \<in> set (drop (length (w_trace w)) (w_trace w')) \<and> D d = Some (Packet p))"

lemma sent_to_emits:
  assumes "sent_to D k v w' p" "w_trace w = w_trace v @ cs" "emits X datas outs w w'" "decodes X D"
  shows "sent_to D k v w p \<or> (\<exists>d\<in>datas. D d = Some (Packet p) \<and> pkt_id p = k)"
proof -
  obtain ds where ds: "w_trace w' = w_trace w @ ds" "\<forall>fd d. Send fd d \<in> set ds \<longrightarrow> control_bytes X d \<or> d \<in> datas"
    using assms(3) by (auto simp: emits_def)
  have "D d \<noteq> Some (Packet p)" if "control_bytes X d" for d
    using that assms(4) by (fastforce simp: control_bytes_def decodes_def)
  then show ?thesis using assms(1,2) ds by (fastforce simp: sent_to_def)
qed

text \<open>What the two loops promise: their turns keep an invariant and refine the endpoints.\<close>

locale refining_loop =
  fixes turn :: "'e \<Rightarrow> ('t, 'c) connection_manager \<Rightarrow> world \<Rightarrow> ('t, 'c) step option"
    and shared :: "'e \<Rightarrow> event option"
    and X :: "('t, 'c) deps"
    and I :: "('t, 'c) connection_manager \<Rightarrow> bool"
  assumes inv_turn: "I cm \<Longrightarrow> turn ev cm w = Some (Inr (cm', w')) \<Longrightarrow> I cm'"
    and inv_serializes: "I cm \<Longrightarrow> serializes X"
    and inv_manager: "I cm \<Longrightarrow> cm_inv cm"
    and turn_refines: "I cm \<Longrightarrow> turn ev cm w = Some (Inr (cm', w')) \<Longrightarrow> turn_refines X (shared ev) cm w cm' w'"
begin

text \<open>A run is a history of the endpoint's sorter and of its counter.\<close>

lemma run_history:
  assumes "session_run turn shared X k sid N s ins out s'"
    and "channel_laws X contents cap" "I (fst s)" "get_endpoint k (fst s) = Some ep"
    and "session_id ep = sid" "sorter_inv (packet_sorter ep)" "sorter_hist contents N [] (packet_sorter ep)"
    and "\<And>p. N p \<Longrightarrow> pkt_seq p \<noteq> - 1"
  shows "I (fst s') \<and> tun_written (snd s') = tun_written (snd s) @ written out \<and>
    (\<exists>ep'. get_endpoint k (fst s') = Some ep' \<and> session_id ep' = sid \<and> sorter_inv (packet_sorter ep') \<and>
      sorter_hist contents N (of_endpoint k out) (packet_sorter ep'))"
  using assms(1)
proof (induction rule: session_run.induct)
  case start
  then show ?case using assms(3-7) by simp
next
  case (clock ins out cm w t u)
  then show ?case by (simp add: tun_written_def)
next
  case (turn ins out cm w ev cm' w')
  then obtain ep1 where ep1: "get_endpoint k cm = Some ep1" "session_id ep1 = sid" "sorter_inv (packet_sorter ep1)"
    "sorter_hist contents N (of_endpoint k out) (packet_sorter ep1)" and i: "I cm"
    and wr: "tun_written w = tun_written (snd s) @ written out" by auto
  obtain ep2 where ep2: "get_endpoint k cm' = Some ep2" "session_id ep2 = sid" using turn(3) by auto
  let ?es = "ops_of (turn_input X (shared ev) cm w) k"
  note r = turn_refines [OF i turn(2), unfolded turn_refines_def]
  have s2: "packet_sorter ep2 = fold (sorter_step X) ?es (packet_sorter ep1)"
    using r ep1 ep2 by (simp add: continues_by_def effect_def flow_def)
  have "list_all (arrives N) ?es"
    using turn(4) assms(8) by (auto simp: ops_of_def feeds_def split: option.splits sorter_event.splits if_splits)
  then have "sorter_hist contents N (of_endpoint k out @ run_emit (sorter_step X) (sorter_emit X) ?es (packet_sorter ep1))
      (fold (sorter_step X) ?es (packet_sorter ep1))"
    using assms(2) ep1 by (intro sorter.hist_run) simp_all
  moreover have "sorter_inv (packet_sorter ep2)"
    using sorter.inv_run [of X contents cap "packet_sorter ep1" ?es] assms(2) ep1(3) s2 by simp
  ultimately show ?case
    using inv_turn [OF i turn(2)] emits_written [OF conjunct2 [OF r]] wr ep2 s2 of_endpoint_taken [OF ep1(1), of X]
    by simp
qed

text \<open>So the packets of a session come out in strictly increasing order.\<close>

lemma run_ordered:
  assumes "session_run turn shared X k sid N s ins out s'"
    and "channel_laws X contents cap" "I (fst s)" "get_endpoint k (fst s) = Some ep"
    and "session_id ep = sid" "packet_sorter ep = packet_sorter_new X t d"
    and "\<And>p. N p \<Longrightarrow> pkt_seq p \<noteq> - 1"
  shows "sorted_wrt (<) (seqs (of_endpoint k out)) \<and> (\<forall>p\<in>set (of_endpoint k out). N p) \<and>
    tun_written (snd s') = tun_written (snd s) @ written out"
proof -
  have "sorter_inv (packet_sorter ep)" "sorter_hist contents N [] (packet_sorter ep)"
    using assms(2) by (simp_all add: assms(6) sorter_inv_new sorter_hist_new)
  from run_history [OF assms(1-5) this assms(7)] show ?thesis
    by (auto simp: sorter_hist_def ordered_below_def sorted_wrt_append)
qed

text \<open>And what is sent to the endpoint is what was read for it, numbered consecutively.\<close>

lemma run_sent:
  assumes "session_run turn shared X k sid N s ins out s'"
    and "I (fst s)" "get_endpoint k (fst s) = Some ep" "session_id ep = sid" "decodes X D"
  shows "I (fst s') \<and> (\<exists>cs. w_trace (snd s') = w_trace (snd s) @ cs) \<and>
    (\<exists>ep'. get_endpoint k (fst s') = Some ep' \<and> session_id ep' = sid \<and>
      tx_counter ep' = tx_counter ep + of_nat (length ins)) \<and>
    (\<forall>p. sent_to D k (snd s) (snd s') p \<longrightarrow> p \<in> set (numbered (tx_counter ep) k ins))"
  using assms(1)
proof (induction rule: session_run.induct)
  case start
  then show ?case using assms(2-4) by (simp add: sent_to_def)
next
  case (clock ins out cm w t u)
  then show ?case by (simp add: sent_to_def)
next
  case (turn ins out cm w ev cm' w')
  then obtain ep1 where ep1: "get_endpoint k cm = Some ep1" "session_id ep1 = sid"
    "tx_counter ep1 = tx_counter ep + of_nat (length ins)" and i: "I cm"
    and old: "\<forall>p. sent_to D k (snd s) w p \<longrightarrow> p \<in> set (numbered (tx_counter ep) k ins)"
    and t: "\<exists>cs. w_trace w = w_trace (snd s) @ cs" by auto
  obtain ep2 where ep2: "get_endpoint k cm' = Some ep2" "session_id ep2 = sid" using turn(3) by auto
  let ?rd = "turn_read X (shared ev) cm k"
  note r = turn_refines [OF i turn(2), unfolded turn_refines_def]
  have "tx_counter ep2 = tx_counter ep1 + of_nat (length ?rd)"
    using r ep1 ep2 by (simp add: continues_by_def effect_def flow_def)
  moreover have "\<exists>cs. w_trace w' = w_trace (snd s) @ cs"
    using r t by (auto simp: emits_def)
  moreover have "p \<in> set (numbered (tx_counter ep) k (ins @ ?rd))" if p: "sent_to D k (snd s) w' p" for p
  proof -
    obtain cs where cs: "w_trace w = w_trace (snd s) @ cs" using t by blast
    consider "sent_to D k (snd s) w p" | d where "d \<in> turn_datagrams X (shared ev) cm" "D d = Some (Packet p)" "pkt_id p = k"
      using sent_to_emits [OF p cs _ assms(5)] r by blast
    then show ?thesis
    proof cases
      case 1
      then show ?thesis using old by (simp add: numbered_append)
    next
      case (2 d)
      then obtain bytes j e where d: "shared ev = Some (TunnelPacket (Inr bytes))" "get_endpoint j cm = Some e"
        "routed_to X (routes cm) j bytes" "d = tun_packet X bytes e"
        by (auto simp: turn_datagrams_def datagrams_def split: option.splits event.splits sum.splits)
      obtain b where "bincode_serialize X (Packet \<lparr>pkt_seq = tx_counter e, pkt_id = ep_id e, pkt_bytes = bytes\<rparr>) = Some b"
        using serializesD [OF inv_serializes [OF i]] by blast
      moreover from this have "D b = Some (Packet \<lparr>pkt_seq = tx_counter e, pkt_id = ep_id e, pkt_bytes = bytes\<rparr>)"
        using assms(5) by (simp add: decodes_def)
      moreover have "ep_id e = j" using cm_inv_get [OF inv_manager [OF i] d(2)] by (simp add: endpoint_ok_def)
      ultimately have "p = \<lparr>pkt_seq = tx_counter e, pkt_id = k, pkt_bytes = bytes\<rparr>" "j = k"
        using 2(2,3) d(4) by (auto simp: tun_packet_def)
      moreover from this have "e = ep1" "?rd = [bytes]"
        using d ep1(1) by (simp_all add: turn_read_def read_for_def)
      ultimately show ?thesis using ep1(3) by (simp add: numbered_append)
    qed
  qed
  ultimately show ?case using inv_turn [OF i turn(2)] ep1 ep2 by (simp add: algebra_simps)
qed

end

end
