(* ===== verification/Server_Paths.thy ===== *)
theory Server_Paths
  imports Server Endpoint_Refinement
begin

text \<open>
  The connections of a server: in every reachable state each has the name \<open>DYN-interface\<close> and the
  address of its peer, and no two of an endpoint have the same address.  So what a timeout or a failed
  send names is what is removed.
\<close>

section \<open>Tidy connections\<close>

definition tidy :: "'t connection_entry list \<Rightarrow> bool" where
  "tidy ces \<longleftrightarrow> distinct (map path_of ces) \<and> (\<forall>ce\<in>set ces. interface_name ce = ''DYN-interface'' \<and>
     get_interface_name (connection ce) = ''DYN-interface'' \<and> peer_addr (connection ce) = interface_address ce)"

definition tidy_manager :: "('t, 'c) connection_manager \<Rightarrow> bool" where
  "tidy_manager cm \<longleftrightarrow> hm_all (\<lambda>k ep. tidy (connections ep)) (endpoints cm)"

lemma tidy_get: "tidy_manager cm \<Longrightarrow> get_endpoint k cm = Some ep \<Longrightarrow> tidy (connections ep)"
  by (simp add: tidy_manager_def hm_all_def)

lemma tidy_set: "tidy_manager cm \<Longrightarrow> tidy (connections ep) \<Longrightarrow> tidy_manager (set_endpoint k ep cm)"
  by (simp add: tidy_manager_def hm_all_def)

lemma tidy_fields [simp]:
  "tidy_manager (cm\<lparr>session_history := h\<rparr>) = tidy_manager cm"
  "tidy_manager (cm\<lparr>routes := r\<rparr>) = tidy_manager cm"
  by (simp_all add: tidy_manager_def)

lemma tidy_distinct: "tidy_manager cm \<Longrightarrow> distinct_paths cm"
  by (simp add: tidy_manager_def hm_all_def distinct_paths_def tidy_def)

definition same_ident :: "'t connection_entry \<Rightarrow> 't connection_entry \<Rightarrow> bool" where
  "same_ident ce ce' \<longleftrightarrow> path_of ce' = path_of ce \<and>
     get_interface_name (connection ce') = get_interface_name (connection ce) \<and>
     peer_addr (connection ce') = peer_addr (connection ce)"

lemma same_ident_refl [simp]: "same_ident ce ce"
  by (simp add: same_ident_def)

lemma same_path_ident: "same_path ce ce' \<Longrightarrow> same_ident ce ce'"
  by (simp add: same_path_def same_ident_def path_of_def get_interface_name_def)

lemma tidy_all2:
  assumes "tidy ces" "list_all2 same_ident ces ces'"
  shows "tidy ces'"
proof -
  have "map path_of ces' = map path_of ces"
    using assms(2) by (induction rule: list_all2_induct) (simp_all add: same_ident_def)
  moreover have "\<forall>ce'\<in>set ces'. \<exists>ce\<in>set ces. same_ident ce ce'"
    using assms(2) by (induction rule: list_all2_induct) auto
  ultimately show ?thesis using assms(1) by (fastforce simp: tidy_def same_ident_def path_of_def)
qed

lemma all2_map: "(\<And>ce. same_ident ce (f ce)) \<Longrightarrow> list_all2 same_ident ces (map f ces)"
  by (simp add: list_all2_conv_all_nth)

lemma all2_update: "same_ident (ces ! j) c \<Longrightarrow> list_all2 same_ident ces (ces[j := c])"
  using list_all2_update_cong [of same_ident ces ces "ces ! j" c j] by (simp add: list_all2_refl)

lemma all2_update_first: "(\<And>ce. same_ident ce (f ce)) \<Longrightarrow> list_all2 same_ident ces (update_first p f ces)"
  by (induction p f ces rule: update_first.induct) (auto simp: list_all2_refl)

section \<open>Every operation keeps connections tidy\<close>

lemma tidy_add_connection:
  assumes "tidy (connections ep)" "add_connection X addr ''DYN-interface'' l t ep w = Inr (r, ep', w')"
  shows "tidy (connections ep')"
proof -
  let ?known = "\<exists>ce\<in>set (connections ep). is_entry addr ''DYN-interface'' ce"
  have c: "if ?known then ep' = ep\<lparr>connections := update_first (is_entry addr ''DYN-interface'')
        (\<lambda>ce. ce\<lparr>connection := reset_hello_timeout X (w_now w) (connection ce)\<rparr>) (connections ep)\<rparr>
     else (case r of Inl e \<Rightarrow> ep' = ep
       | Inr _ \<Rightarrow> \<exists>c. fresh_dynamic addr c \<and> ep' = ep\<lparr>connections := connections ep @
            [\<lparr>interface_name = ''DYN-interface'', interface_address = addr, connection = c\<rparr>]\<rparr>)"
    using add_connection_cases [of ep addr "''DYN-interface''" X l t w] assms(2) by (auto simp: added_def split: if_splits)
  show ?thesis
  proof (cases ?known)
    case True
    have "list_all2 same_ident (connections ep) (update_first (is_entry addr ''DYN-interface'')
        (\<lambda>ce. ce\<lparr>connection := reset_hello_timeout X (w_now w) (connection ce)\<rparr>) (connections ep))"
      by (rule all2_update_first) (simp add: same_ident_def path_of_def reset_hello_timeout_def get_interface_name_def)
    then show ?thesis using True c tidy_all2 [OF assms(1)] by simp
  next
    case False
    then have "(''DYN-interface'', addr) \<notin> path_of ` set (connections ep)"
      by (auto simp: is_entry_path)
    then show ?thesis
      using False c assms(1) by (cases r) (auto simp: tidy_def fresh_dynamic_def path_of_def)
  qed
qed

lemma tidy_entries:
  assumes "tidy ces" "for_each f ces w = Inr (ces', w')"
    and "\<And>ce w ce' w'. f ce w = Inr (ce', w') \<Longrightarrow> same_path ce ce'"
  shows "tidy ces'"
  by (rule tidy_all2 [OF assms(1) for_each_list_all2 [OF _ assms(2)]]) (rule same_path_ident, erule assms(3))

lemma tidy_acknowledge:
  assumes "tidy (connections ep)" "acknowledge X own sid rs ep w = Inr (ep', w')"
  shows "tidy (connections ep')"
proof -
  obtain bytes ces where 1: "for_each (ack_entry bytes) (connections ep) w = Inr (ces, w')" and 2: "connections ep' = ces"
    using assms(2) by (auto simp: acknowledge_def Let_def bindR_eq_Inr)
  have "same_path ce ce'" if "ack_entry bytes ce w = Inr (ce', w')" for ce w ce' w'
    using that by (auto simp: ack_entry_def bindR_eq_Inr split: if_splits sum.splits) (metis sum.exhaust)+
  from tidy_entries [OF assms(1) 1 this] show ?thesis by (simp add: 2)
qed

lemma tidy_accept_path:
  assumes "tidy (connections ep)" "accept_path X addr ''DYN-interface'' cm ep w = Inr (ep', w')"
  shows "tidy (connections ep')"
proof -
  obtain r ep1 w1 where 1: "add_connection X addr ''DYN-interface'' (cm_local_address cm) (cm_connection_timeout cm) ep w = Inr (r, ep1, w1)"
    using assms(2) by (auto simp: accept_path_def bindR_eq_Inr)
  have t: "tidy (connections ep1)" by (rule tidy_add_connection [OF assms(1) 1])
  obtain ep2 w2 where 2: "(case r of
        Inr _ \<Rightarrow> acknowledge X (own_id cm) (session_id ep1) (own_static_routes cm) ep1 w1
      | Inl e \<Rightarrow> Inr (ep1, w1)) = Inr (ep2, w2)"
    and 3: "acknowledge X (own_id cm) (session_id ep2) (own_static_routes cm) ep2 w2 = Inr (ep', w')"
    using assms(2) 1 by (auto simp: accept_path_def bindR_eq_Inr)
  have "tidy (connections ep2)"
    using 2 t by (cases r) (auto intro: tidy_acknowledge)
  then show ?thesis by (rule tidy_acknowledge [OF _ 3])
qed

lemma tidy_new [simp]: "tidy (connections (endpoint_new X now k s d))"
  by (simp add: endpoint_new_def tidy_def)

lemma tidy_hello:
  assumes "tidy_manager cm" "handle_hello X message addr ''DYN-interface'' cm w = Inr (cm', w')"
  shows "tidy_manager cm'"
proof (cases "\<exists>h. bincode_deserialize X message = Some (Hello h)")
  case False
  then show ?thesis using assms by (auto simp: handle_hello_def split: option.splits messages.splits)
next
  case True
  then obtain h where h: "bincode_deserialize X message = Some (Hello h)" by blast
  let ?cm = "ensure_endpoint X (w_now w) h cm"
  have t: "tidy_manager ?cm" using assms(1) by (simp add: ensure_endpoint_def tidy_set)
  obtain ep where ep: "get_endpoint (hello_id h) ?cm = Some ep" using ensure_endpoint_present by blast
  show ?thesis
  proof (cases "admit_session X (w_now w) h ep ?cm")
    case None
    then show ?thesis using assms(2) h ep t by (auto simp: handle_hello_def)
  next
    case (Some x)
    obtain ep1 history where x: "x = (ep1, history)" by (cases x)
    then have "ep1 = ep \<or> (\<exists>k s d. ep1 = endpoint_new X (w_now w) k s d)"
      using Some by (auto simp: admit_session_def split: if_splits)
    then have "tidy (connections ep1)" using tidy_get [OF t ep] by auto
    then show ?thesis
      using assms(2) h ep Some x tidy_accept_path [of ep1 X addr ?cm w]
      by (auto simp: handle_hello_def Let_def bindR_eq_Inr tidy_set [OF t])
  qed
qed


lemma tidy_packet:
  assumes "tidy_manager cm" "handle_packet X logging info pkt cm w = Inr (cm', w')"
  shows "tidy_manager cm'"
proof (cases "get_endpoint (eri_endpoint_id info) cm")
  case None
  then show ?thesis using assms by (simp add: handle_packet_def)
next
  case (Some ep)
  then have "cm' = set_endpoint (eri_endpoint_id info)
      (ep\<lparr>packet_sorter := insert_packet X (w_now w') pkt (packet_sorter ep)\<rparr>) cm \<or>
    (\<exists>now. cm' = set_endpoint (eri_endpoint_id info)
      (ep\<lparr>packet_sorter := insert_packet X now pkt (packet_sorter ep)\<rparr>) cm)"
    using assms(2) by (auto simp: handle_packet_def bindR_eq_Inr)
  then show ?thesis using tidy_get [OF assms(1) Some] by (auto simp: tidy_set assms(1))
qed

lemma tidy_repeated_hello:
  assumes "tidy_manager cm" "ri_interface_name (connection_read_info info) = ''DYN-interface''"
    and "handle_repeated_hello X D info h cm w = Inr (cm', w')"
  shows "tidy_manager cm'"
proof (cases "get_endpoint (hello_id h) cm")
  case None
  then show ?thesis using assms by (simp add: handle_repeated_hello_def)
next
  case (Some ep)
  let ?ep = "ep\<lparr>hello_path_latency := insert_new_timestamp (w_system_now w) (hello_seq h) (hello_path_latency ep)\<rparr>"
  obtain r ep1 w1 ep2 where
      1: "add_connection X (source_address (connection_read_info info)) ''DYN-interface''
        (cm_local_address cm) (cm_connection_timeout cm) ?ep w = Inr (r, ep1, w1)"
    and 2: "acknowledge X (own_id cm) (session_id ep1) (own_static_routes cm) ep1 w1 = Inr (ep2, w')"
    and 3: "cm' = set_endpoint (hello_id h) ep2 cm"
    using assms(2,3) Some by (auto simp: handle_repeated_hello_def bindR_eq_Inr Let_def)
  have "tidy (connections ?ep)" using tidy_get [OF assms(1) Some] by simp
  from tidy_acknowledge [OF tidy_add_connection [OF this 1] 2] show ?thesis
    by (simp add: 3 tidy_set assms(1))
qed

lemma tidy_hello_ack:
  assumes "tidy_manager cm" "handle_hello_ack X D info a cm w = Inr (cm', w')"
  shows "tidy_manager cm'"
proof (cases "get_endpoint (ack_id a) cm")
  case None
  then show ?thesis using assms by (simp add: handle_hello_ack_def hm_contains_key_def)
next
  case (Some ep)
  have "list_all2 same_ident (connections ep) (map (confirm_entry X (w_now w) (connection_read_info info)) (connections ep))"
    by (rule all2_map) (simp add: confirm_entry_eq same_ident_def path_of_def get_interface_name_def)
  then have t: "tidy (map (confirm_entry X (w_now w) (connection_read_info info)) (connections ep))"
    by (rule tidy_all2 [OF tidy_get [OF assms(1) Some]])
  let ?ep = "ep\<lparr>hello_ack_path_latency := insert_new_timestamp (w_system_now w) (ack_seq a) (hello_ack_path_latency ep)\<rparr>"
  have "cm' = set_endpoint (ack_id a) (?ep\<lparr>connections :=
      map (confirm_entry X (w_now w) (connection_read_info info)) (connections ep)\<rparr>)
    ((set_endpoint (ack_id a) ?ep cm)\<lparr>routes := learn_routes (ack_static_routes a) (ack_id a) (routes cm)\<rparr>)"
    using assms(2) Some by (auto simp: handle_hello_ack_def hm_contains_key_def bindR_eq_Inr Let_def unwrap_eq_Inr set_endpoint_def hm.get_put)
  then show ?thesis using t tidy_get [OF assms(1) Some] by (simp add: tidy_set assms(1))
qed

lemma tidy_established:
  assumes "tidy_manager cm" "ri_interface_name (connection_read_info info) = ''DYN-interface''"
    and "handle_established_message X D logging info cm w = Inr (cm', w')"
  shows "tidy_manager cm'"
proof (cases "bincode_deserialize X (packet_bytes (connection_read_info info))")
  case None
  then show ?thesis using assms by (simp add: handle_established_message_def)
next
  case (Some m)
  note r = assms(3) [unfolded handle_established_message_def Some option.case]
  show ?thesis
  proof (cases m)
    case (Packet p)
    then show ?thesis using r by (simp add: tidy_packet [OF assms(1)])
  next
    case (Hello h)
    then show ?thesis using r by (simp add: tidy_repeated_hello [OF assms(1,2)])
  next
    case (HelloAck a)
    then show ?thesis using r by (simp add: tidy_hello_ack [OF assms(1)])
  qed
qed

lemma tun_entry_path: "tun_entry bytes ce w = Inr (ce', w') \<Longrightarrow> same_path ce ce'"
proof (cases "is_enabled (connection ce)")
  case True
  assume t: "tun_entry bytes ce w = Inr (ce', w')"
  then obtain r v where v: "connection_write (connection ce) bytes w = Inr (r, v)"
    using True by (auto simp: tun_entry_def bindR_eq_Inr)
  show ?thesis using t True by (cases r) (auto simp: tun_entry_def v split: if_splits)
qed (simp add: tun_entry_def)

lemma tidy_tun_loop:
  "tidy_manager cm \<Longrightarrow> tun_loop X bytes eids cm w = Inr (cm', w') \<Longrightarrow> tidy_manager cm'"
proof (induction X bytes eids cm w rule: tun_loop.induct)
  case (2 X bytes eid eids cm w)
  obtain cm1 w1 where 1: "tun_to_endpoint X bytes eid cm w = Inr (cm1, w1)" and 3: "tun_loop X bytes eids cm1 w1 = Inr (cm', w')"
    using 2(3) by (auto simp: bindR_eq_Inr)
  obtain ep serialized ces w2 where ep: "get_endpoint eid cm = Some ep"
    and e: "for_each (tun_entry serialized) (connections ep) w = Inr (ces, w2)"
    and cm1: "cm1 = set_endpoint eid (ep\<lparr>tx_counter := tx_counter ep + 1, connections := ces\<rparr>) cm"
    using 1 by (auto simp: tun_to_endpoint_def bindR_eq_Inr unwrap_eq_Inr)
  from tidy_entries [OF tidy_get [OF 2(2) ep] e tun_entry_path] have "tidy_manager cm1" by (simp add: cm1 tidy_set 2(2))
  from "2.IH" [OF this 3] show ?case .
qed simp

lemma tidy_tun:
  assumes "tidy_manager cm" "handle_packet_from_tun X bytes cm w = Inr (cm', w')"
  shows "tidy_manager cm'"
proof (cases "get_route X bytes cm")
  case None
  then show ?thesis using assms by (simp add: handle_packet_from_tun_def)
next
  case (Some eids)
  then show ?thesis using assms(2) tidy_tun_loop [OF assms(1)] by (simp add: handle_packet_from_tun_def)
qed

lemma tidy_filter: "tidy ces \<Longrightarrow> tidy (filter P ces)"
  by (simp add: tidy_def distinct_map_filter)

lemma tidy_remove_connection:
  assumes "cm_inv cm" "tidy_manager cm" "remove_connection eid name addr cm = Inr cm'"
  shows "tidy_manager cm'"
  using remove_connection_get(1) [OF assms(1) tidy_distinct [OF assms(2)] assms(3)] tidy_get [OF assms(2)]
  by (auto simp: tidy_manager_def hm_all_def keep_connections_def Let_def bind_eq_Some_conv tidy_filter split: if_splits)

lemma tidy_remove_disconnected:
  assumes "cm_inv cm" "tidy_manager cm" "remove_disconnected cm = Inr cm'"
  shows "tidy_manager cm' \<and> hm_all (\<lambda>k ep. \<forall>ce\<in>set (connections ep). entry_state ce \<noteq> Disconnected) (endpoints cm')"
proof (cases "disconnected_paths cm = []")
  case True
  have "entry_state ce \<noteq> Disconnected" if "get_endpoint k cm = Some ep" "ce \<in> set (connections ep)" for k ep ce
    using disconnected_paths_iff [OF assms(1) that(1) _ that(2)] True tidy_get [OF assms(2) that(1)]
    by (simp add: tidy_def)
  then show ?thesis using assms(2,3) True by (auto simp: remove_disconnected_def hm_all_def)
next
  case False
  have "get_endpoint k cm' = Option.bind (get_endpoint k cm) (keep_connections (\<lambda>ce. entry_state ce \<noteq> Disconnected))" for k
    using remove_disconnected_get [OF assms(1) tidy_distinct [OF assms(2)] assms(3)] False by simp
  then show ?thesis
    using tidy_get [OF assms(2)]
    by (auto simp: tidy_manager_def hm_all_def keep_connections_def Let_def bind_eq_Some_conv tidy_filter split: if_splits)
qed

lemma tidy_duplication: "tidy_manager cm \<Longrightarrow> tidy_manager (handle_selective_duplication_command X bytes cm)"
proof -
  assume t: "tidy_manager cm"
  have m: "tidy_manager (cm\<lparr>endpoints := map (\<lambda>(k, ep). (k, g ep)) (endpoints cm)\<rparr>)"
    if "\<And>ep. tidy (connections ep) \<Longrightarrow> tidy (connections (g ep))" for g
  proof -
    have "map_of (map (\<lambda>(k, ep). (k, g ep)) m) k = map_option g (map_of m k)"
      for m :: "(endpoint_id \<times> ('a, 'b) endpoint) list" and k
      by (induction m) auto
    then show ?thesis using t that by (auto simp: tidy_manager_def hm_all_def)
  qed
  have "tidy (connections (enable_interface n ep)) \<and> tidy (connections (disable_interface n ep))"
    if "tidy (connections ep)" for n and ep :: "('a, 'b) endpoint"
    unfolding enable_interface_def disable_interface_def
    by (auto intro!: tidy_all2 [OF that] all2_map
        simp: same_ident_def path_of_def connection_enable_def connection_disable_def get_interface_name_def)
  then show ?thesis
    unfolding handle_selective_duplication_command_def
    by (auto split: option.split duplication_commands.split intro!: t m)
qed

section \<open>The futures of the loop\<close>

lemma chosen: "select_laws X \<Longrightarrow> xs \<noteq> [] \<Longrightarrow> \<exists>n<length xs. select_all X j (length xs) = Inr n"
  by (cases xs) (auto simp: select_laws_def simp del: length_Cons)

lemma tidy_greeting_name:
  assumes "select_laws X" "cm_inv cm" "tidy_manager cm" "await_incoming X i j received cm = Inr (Inr info)"
  shows "ri_interface_name (connection_read_info info) = ''DYN-interface''"
proof -
  obtain k ep where 1: "select_endpoint X i cm = Inr (k, ep)" and r: "await_connections X j received ep = Inr (Inr info)"
    using assms(4) by (auto simp: await_incoming_def bindR_eq_Inr)
  note ep = selected [OF assms(1,2) 1]
  have "connections ep \<noteq> []" using r assms(1) by (auto simp: await_connections_def select_laws_def)
  then obtain n where n: "select_all X j (length (connections ep)) = Inr n" "n < length (connections ep)"
    using chosen [OF assms(1)] by blast
  then have "ri_interface_name (connection_read_info info) = get_interface_name (connection (connections ep ! n))"
    using r by (auto simp: await_connections_def connection_read_def split: sum.splits)
  then show ?thesis using tidy_get [OF assms(3) ep(1)] n(2) by (auto simp: tidy_def)
qed

text \<open>What a timeout that resolves is: the timer of one connection, which is named by its path.\<close>

lemma await_timeout_names:
  assumes "select_laws X" "cm_inv cm" "tidy_manager cm"
    and "await_timeout X now i j cm = Inr (Some ((eid, name, addr), cm1))"
  obtains ep n t where "get_endpoint eid cm = Some ep" "n < length (connections ep)"
    "timer_next X now (connection_timeout (connection (connections ep ! n))) = Some t"
    "path_of (connections ep ! n) = (name, addr)"
    "cm1 = set_endpoint eid (ep\<lparr>connections := (connections ep)[n := (connections ep ! n)
      \<lparr>connection := (connection (connections ep ! n))\<lparr>connection_timeout := t\<rparr>\<rparr>]\<rparr>) cm"
proof -
  obtain k ep r where 1: "select_endpoint X i cm = Inr (k, ep)" and r: "await_connection_timeouts X now j ep = Inr r"
    and 2: "map_option (\<lambda>(path, ep). (path, set_endpoint k ep cm)) r = Some ((eid, name, addr), cm1)"
    using assms(4) by (auto simp: await_timeout_def bindR_eq_Inr)
  note ep = selected [OF assms(1,2) 1]
  have "connections ep \<noteq> []" using r assms(1) by (auto simp: await_connection_timeouts_def select_laws_def)
  then obtain n where n: "select_all X j (length (connections ep)) = Inr n" "n < length (connections ep)"
    using chosen [OF assms(1)] by blast
  let ?c = "connection (connections ep ! n)"
  obtain t where t: "timer_next X now (connection_timeout ?c) = Some t" "eid = ep_id ep"
      "name = get_interface_name ?c" "addr = peer_addr ?c"
    and cm1: "cm1 = set_endpoint k (ep\<lparr>connections := (connections ep)[n := (connections ep ! n)
      \<lparr>connection := ?c\<lparr>connection_timeout := t\<rparr>\<rparr>]\<rparr>) cm"
    using r 2 n(1) by (auto simp: await_connection_timeouts_def await_connection_timeout_def)
  have "path_of (connections ep ! n) = (name, addr)"
    using tidy_get [OF assms(3) ep(1)] n(2) t(3,4) by (auto simp: tidy_def path_of_def)
  with that [OF _ n(2) t(1)] ep t(2) cm1 show thesis by simp
qed

lemma tidy_await_timeout:
  assumes "select_laws X" "cm_inv cm" "tidy_manager cm"
    and "await_timeout X now i j cm = Inr (Some ((eid, name, addr), cm1))"
  shows "tidy_manager cm1"
  using assms
proof (rule await_timeout_names)
  fix ep n t
  assume ep: "get_endpoint eid cm = Some ep"
    and cm1: "cm1 = set_endpoint eid (ep\<lparr>connections := (connections ep)[n := (connections ep ! n)
      \<lparr>connection := (connection (connections ep ! n))\<lparr>connection_timeout := t\<rparr>\<rparr>]\<rparr>) cm"
  have "tidy ((connections ep)[n := (connections ep ! n)
      \<lparr>connection := (connection (connections ep ! n))\<lparr>connection_timeout := t\<rparr>\<rparr>])"
    by (rule tidy_all2 [OF tidy_get [OF assms(3) ep] all2_update])
      (simp add: same_ident_def path_of_def get_interface_name_def)
  then show ?thesis by (simp add: cm1 tidy_set assms(3))
qed

lemma tidy_sorter:
  "tidy_manager cm \<Longrightarrow> get_endpoint k cm = Some ep \<Longrightarrow> tidy_manager (set_endpoint k (ep\<lparr>packet_sorter := s\<rparr>) cm)"
  by (simp add: tidy_set tidy_get)

lemma tidy_event:
  assumes "select_laws X" "cm_inv cm" "tidy_manager cm" "handle_event X L ev cm w = Some (Inr (cm', w'))"
  shows "tidy_manager cm'"
proof (cases ev)
  case (NewEstablishedMessage i j received)
  then obtain result where a: "await_incoming X i j received cm = Inr result" and r: "(case result of
        Inr info \<Rightarrow> handle_established_message X (log_debug L) (interface_logging L) info cm w
      | Inl e \<Rightarrow> Inr (cm, w)) = Inr (cm', w')"
    using assms(4) by (auto simp: bindR_eq_Inr)
  show ?thesis
  proof (cases result)
    case (Inr info)
    with a r show ?thesis
      using tidy_established [OF assms(3) tidy_greeting_name [OF assms(1-3)]] by simp
  qed (use r assms(3) in simp)
next
  case (ConnectionTimeout i j)
  then obtain eid name addr cm1 where 1: "await_timeout X (w_now w) i j cm = Inr (Some ((eid, name, addr), cm1))"
    and 2: "remove_connection eid name addr cm1 = Inr cm'"
    using assms(4) by (auto simp: when_ready_def bindR_eq_Inr split: sum.splits option.splits)
  have "cm_inv cm1"
    using await_timeout_outcome [OF assms(1,2), of "w_now w" i j] 1 by (simp add: keeps_def)
  from tidy_remove_connection [OF this tidy_await_timeout [OF assms(1-3) 1] 2] show ?thesis .
next
  case (PacketSorterDeadline i)
  then obtain ep k s where 1: "select_endpoint X i cm = Inr (k, ep)"
    and 3: "cm' = handle_packet_sorter_deadline X (w_now w) (ep_id ep) (set_endpoint k (ep\<lparr>packet_sorter := s\<rparr>) cm)"
    using assms(4)
    by (auto simp: when_ready_def await_packet_sorters_def await_packet_sorter_deadline_def bindR_eq_Inr
        split: sum.splits option.splits)
  note ep = selected [OF assms(1,2) 1]
  have "tidy_manager (handle_packet_sorter_deadline X (w_now w) e m)" if "tidy_manager m" for e and m :: "('a, 'b) connection_manager"
    using that tidy_sorter [OF that] by (simp add: handle_packet_sorter_deadline_def split: option.split)
  from this [OF tidy_sorter [OF assms(3) ep(1)]] 3 show ?thesis by simp
next
  case (NewSortedPacket i)
  then obtain ep k r s where 1: "select_endpoint X i cm = Inr (k, ep)"
    and 3: "(case r of Some pkt \<Rightarrow> log_and_forward L pkt (set_endpoint k (ep\<lparr>packet_sorter := s\<rparr>) cm) w
      | None \<Rightarrow> Inr (set_endpoint k (ep\<lparr>packet_sorter := s\<rparr>) cm, w)) = Inr (cm', w')"
    using assms(4)
    by (auto simp: when_ready_def await_endpoint_sorted_packets_def await_sorted_packet_def bindR_eq_Inr
        split: sum.splits option.splits)
  have "cm' = set_endpoint k (ep\<lparr>packet_sorter := s\<rparr>) cm"
  proof (cases r)
    case (Some pkt)
    have "log_and_forward L pkt (set_endpoint k (ep\<lparr>packet_sorter := s\<rparr>) cm) w = Inr (cm', w')" using 3 Some by simp
    from outcome_Inr [OF log_and_forward_outcome this] show ?thesis by simp
  qed (use 3 in simp)
  then show ?thesis using tidy_sorter [OF assms(3) selected(1) [OF assms(1,2) 1]] by simp
next
  case (TunnelPacket maybe_packet)
  then show ?thesis using assms(3,4) tidy_tun by (cases maybe_packet) auto
next
  case (DuplicationMessage received)
  then show ?thesis
    using assms(3,4) by (cases received) (auto simp: received_from_def tidy_duplication split: if_splits)
qed

section \<open>Reachable states\<close>

lemma endpoints_tidy: "endpoints cm = [] \<Longrightarrow> tidy_manager cm"
  by (simp add: tidy_manager_def hm_all_def)

abbreviation nothing_disconnected :: "('t, 'c) connection_manager \<Rightarrow> bool" where
  "nothing_disconnected cm \<equiv>
    hm_all (\<lambda>k ep. \<forall>ce\<in>set (connections ep). entry_state ce \<noteq> Disconnected) (endpoints cm)"

lemma tidy_turn:
  assumes "serializes X" "select_laws X" "cm_inv cm" "tidy_manager cm"
    and "server_turn X L ev cm w = Some (Inr (cm', w'))"
  shows "tidy_manager cm' \<and> (has_endpoints cm \<longrightarrow> nothing_disconnected cm')"
proof -
  have hello: "cm_inv cm1 \<and> tidy_manager cm1"
    if "received_from received w (\<lambda>(bytes, addr). handle_hello X bytes addr ''DYN-interface'' cm w) = Some (Inr (cm1, w1))"
    for received cm1 w1
  proof -
    note r = that
    obtain x where x: "(case x of (bytes, addr) \<Rightarrow> handle_hello X bytes addr ''DYN-interface'' cm w) = Inr (cm1, w1)"
      using r by (cases received) (auto simp: received_from_def split: if_splits)
    then show ?thesis
      using outcome_Inr [OF handle_hello_outcome [OF assms(1,3)]] tidy_hello [OF assms(4)]
      by (cases x) fastforce
  qed
  show ?thesis
  proof (cases "has_endpoints cm")
    case False
    then show ?thesis using assms(5) hello by (auto simp: server_turn_def split: server_event.splits)
  next
    case True
    obtain cm1 w1 where 1: "(case ev of
            NewConnection received \<Rightarrow>
              received_from received w (\<lambda>(bytes, addr). handle_hello X bytes addr ''DYN-interface'' cm w)
          | FlushInterfaceLog \<Rightarrow> Some (bindR (flush_logs L w) (\<lambda>w. Inr (cm, w)))
          | SharedEvent e \<Rightarrow> handle_event X L e cm w) = Some (Inr (cm1, w1))"
      and 2: "remove_disconnected cm1 = Inr cm'"
      using assms(5) True by (auto simp: server_turn_def clean_up_def bindR_eq_Inr)
    have "cm_inv cm1 \<and> tidy_manager cm1"
    proof (cases ev)
      case (NewConnection received)
      then show ?thesis using 1 hello by simp
    next
      case FlushInterfaceLog
      then show ?thesis using 1 assms(3,4) by (auto simp: bindR_eq_Inr)
    next
      case (SharedEvent e)
      with 1 have e: "handle_event X L e cm w = Some (Inr (cm1, w1))" by simp
      from outcome_Inr [OF handle_event_outcome [OF assms(1-3) e] refl] tidy_event [OF assms(2-4) e]
      show ?thesis by (simp add: good_def keeps_def)
    qed
    with tidy_remove_disconnected [OF _ _ 2] show ?thesis by simp
  qed
qed

lemma tidy_reachable:
  assumes "serializes X" "select_laws X"
  shows "server_reachable X D S w L s \<Longrightarrow> tidy_manager (fst s)"
proof (induction rule: server_reachable.induct)
  case (start L cm v)
  from outcome_Inr [OF server_init_outcome start] show ?case
    by (simp add: started_def endpoints_tidy)
next
  case (step L s s')
  obtain cm v where s: "s = (cm, v)" by (cases s)
  have inv: "cm_inv cm" using server_inv_reachable [OF assms step.hyps(1)] s by (simp add: server_inv_def)
  from step.hyps(2) show ?case unfolding s
  proof (rule server_stepE)
    fix t u
    assume "Inr s' = Inr (cm, v\<lparr>w_now := t, w_system_now := u\<rparr>)"
    then show ?thesis using step.IH s by simp
  next
    fix ev
    assume t: "server_turn X L ev cm v = Some (Inr s')"
    obtain cm' v' where s': "s' = (cm', v')" by (cases s')
    from tidy_turn [OF assms inv _ t [unfolded s']] step.IH show ?thesis by (simp add: s s')
  qed
qed

text \<open>A connection is removed, then the disconnected ones are.\<close>

lemma removal_then_clean_up:
  assumes "cm_inv cm" "tidy_manager cm" "remove_connection eid name addr cm = Inr cm2" "remove_disconnected cm2 = Inr cm'"
    and "name = ''DYN-interface''"
  shows "get_endpoint k cm' = Option.bind (get_endpoint k cm) (keep_connections (\<lambda>ce.
      (k, interface_address ce) \<noteq> (eid, addr) \<and> entry_state ce \<noteq> Disconnected))"
    and "routes cm' = filter (\<lambda>aem. get_endpoint (aem_endpoint_id aem) cm' \<noteq> None) (routes cm)"
proof -
  have 2: "cm_inv cm2" "populated cm2"
    using remove_connection_outcome [OF assms(1), of eid name addr] assms(3) by (simp_all add: keeps_def)
  note r = remove_connection_get [OF assms(1) tidy_distinct [OF assms(2)] assms(3)]
  note d = remove_disconnected_populated [OF 2(1) r(3) 2(2) assms(4)]
  show get: "get_endpoint k cm' = Option.bind (get_endpoint k cm) (keep_connections (\<lambda>ce.
      (k, interface_address ce) \<noteq> (eid, addr) \<and> entry_state ce \<noteq> Disconnected))" for k
  proof (cases "get_endpoint k cm")
    case (Some ep)
    have "(path_of ce = (name, addr)) = (interface_address ce = addr)" if "ce \<in> set (connections ep)" for ce
      using tidy_get [OF assms(2) Some] that assms(5) by (auto simp: tidy_def path_of_def)
    then have "keep_connections (\<lambda>ce. (k, path_of ce) \<noteq> (eid, name, addr) \<and> entry_state ce \<noteq> Disconnected) ep =
        keep_connections (\<lambda>ce. (k, interface_address ce) \<noteq> (eid, addr) \<and> entry_state ce \<noteq> Disconnected) ep"
      by (intro keep_connections_cong) auto
    then show ?thesis using Some d(1) [of k] r(1) [of k] by (simp add: keep_connections_bind)
  qed (use d(1) [of k] r(1) [of k] in simp)
  have "get_endpoint k cm2 \<noteq> None" if "get_endpoint k cm' \<noteq> None" for k
    using that d(1) [of k] by (auto simp: bind_eq_Some_conv)
  then show "routes cm' = filter (\<lambda>aem. get_endpoint (aem_endpoint_id aem) cm' \<noteq> None) (routes cm)"
    using d(2) r(2) by (auto simp del: not_None_eq intro!: filter_cong)
qed

section \<open>Properties\<close>

text \<open>
  C12: In every state a server can reach, no two connections of an endpoint have the same peer, each is
  filed under the address its socket is connected to and under the name \<open>DYN-interface\<close>, so that a timeout or a
  failed send names exactly one connection; and a turn of a server that has endpoints leaves no disconnected
  connection behind.
\<close>

theorem server_connections_are_tidy:
  assumes "serializes X" and "select_laws X" and "server_reachable X D S w\<^sub>0 L (cm, w)"
  shows "(\<forall>k ep. get_endpoint k cm = Some ep \<longrightarrow> distinct (map interface_address (connections ep)) \<and>
      (\<forall>ce\<in>set (connections ep). get_name_address_touple (connection ce) = (''DYN-interface'', interface_address ce) \<and>
        interface_name ce = ''DYN-interface'')) \<and>
    (has_endpoints cm \<longrightarrow> (\<forall>ev cm' w'. server_turn X L ev cm w = Some (Inr (cm', w')) \<longrightarrow>
      (\<forall>k ep. get_endpoint k cm' = Some ep \<longrightarrow> (\<forall>ce\<in>set (connections ep). entry_state ce \<noteq> Disconnected))))"
  (is "?paths \<and> ?cleaned")
proof
  have t: "tidy_manager cm" using tidy_reachable [OF assms] by simp
  have inv: "cm_inv cm" using server_inv_reachable [OF assms] by (simp add: server_inv_def)
  have "distinct (map interface_address ces)" if "tidy ces" for ces :: "'a connection_entry list"
    using that by (auto simp: tidy_def distinct_map path_of_def inj_on_def)
  then show ?paths
    using tidy_get [OF t] by (auto simp: tidy_def name_address_touple)
  show ?cleaned
    using tidy_turn [OF assms(1,2) inv t] by (fastforce simp: hm_all_def)
qed

text \<open>
  C11: When a timeout resolves in a server it is that of one connection whose timer is due.  The turn makes none of the
  system calls of the model (the sockets of what it removes are closed as they are dropped, which is not one); it removes this connection and any disconnected ones, keeps all others as they were and in order,
  and forgets the endpoints left without a connection together with exactly their routes.
\<close>

theorem timed_out_connection_is_removed:
  assumes "serializes X" and "select_laws X" and "timer_laws X due" and "server_reachable X D S w\<^sub>0 L (cm, w)"
    and "has_endpoints cm"
    and "server_turn X L (SharedEvent (ConnectionTimeout i j)) cm w = Some (Inr (cm', w'))"
  shows "\<exists>k ep ce t. get_endpoint k cm = Some ep \<and> ce \<in> set (connections ep) \<and>
    due (connection_timeout (connection ce)) = Some t \<and> t \<le> w_now w \<and> w' = w \<and>
    (\<forall>k'. get_endpoint k' cm' = Option.bind (get_endpoint k' cm) (keep_connections (\<lambda>ce'.
      (k', interface_address ce') \<noteq> (k, interface_address ce) \<and> entry_state ce' \<noteq> Disconnected))) \<and>
    routes cm' = filter (\<lambda>aem. get_endpoint (aem_endpoint_id aem) cm' \<noteq> None) (routes cm)"
proof -
  have t: "tidy_manager cm" using tidy_reachable [OF assms(1,2,4)] by simp
  have inv: "cm_inv cm" using server_inv_reachable [OF assms(1,2,4)] by (simp add: server_inv_def)
  obtain eid name addr cm1 cm2 where 1: "await_timeout X (w_now w) i j cm = Inr (Some ((eid, name, addr), cm1))"
    and 2: "remove_connection eid name addr cm1 = Inr cm2" "remove_disconnected cm2 = Inr cm'" and w': "w' = w"
    using assms(5,6) by (auto simp: server_turn_def clean_up_def when_ready_def bindR_eq_Inr split: sum.splits option.splits)
  from await_timeout_names [OF assms(2) inv t 1] obtain ep n x where
    ep: "get_endpoint eid cm = Some ep" "n < length (connections ep)"
    and x: "timer_next X (w_now w) (connection_timeout (connection (connections ep ! n))) = Some x"
    and p: "path_of (connections ep ! n) = (name, addr)"
    and cm1: "cm1 = set_endpoint eid (ep\<lparr>connections := (connections ep)[n := (connections ep ! n)
      \<lparr>connection := (connection (connections ep ! n))\<lparr>connection_timeout := x\<rparr>\<rparr>]\<rparr>) cm"
    by blast
  obtain u where u: "due (connection_timeout (connection (connections ep ! n))) = Some u" "u \<le> w_now w"
    using timer_next_due [OF assms(3) x] by blast
  have inv1: "cm_inv cm1"
    using await_timeout_outcome [OF assms(2) inv, of "w_now w" i j] 1 by (simp add: keeps_def)
  have "name = ''DYN-interface''" using tidy_get [OF t ep(1)] ep(2) p by (force simp: tidy_def path_of_def)
  note both = removal_then_clean_up [OF inv1 tidy_await_timeout [OF assms(2) inv t 1] 2 this]
  have "get_endpoint k cm' = Option.bind (get_endpoint k cm) (keep_connections (\<lambda>ce'.
      (k, interface_address ce') \<noteq> (eid, addr) \<and> entry_state ce' \<noteq> Disconnected))" for k
  proof (cases "k = eid")
    case True
    have "interface_address (connections ep ! n) = addr" using p by (simp add: path_of_def)
    then show ?thesis using both(1) [of k] True ep
      by (simp add: cm1 set_endpoint_def hm.get_put keep_connections_def Let_def filter_update)
  next
    case False
    then show ?thesis using both(1) [of k] by (simp add: cm1 set_endpoint_def hm.get_put)
  qed
  moreover have "routes cm1 = routes cm" by (simp add: cm1 set_endpoint_def)
  ultimately show ?thesis
    using ep u p w' both(2) by (intro exI [of _ eid] exI [of _ ep] exI [of _ "connections ep ! n"] exI [of _ u])
      (simp add: path_of_def)
qed

lemma demo_server_connected:
  "\<exists>cm w ep ce. server_reachable demo_deps None demo_settings (demo_world (\<lambda>c n. Inr n)) no_logs (cm, w) \<and>
    endpoints cm = [(5, ep)] \<and> connections ep = [ce] \<and> entry_state ce = Connected \<and>
    interface_address ce = V4 3 5 \<and> connection_timeout (connection ce) = Some (10 + from_millis 10000)"
proof -
  let ?w = "demo_world (\<lambda>c n. Inr n)"
  obtain cm w where r: "server_reachable demo_deps None demo_settings ?w no_logs (cm, w)" "has_endpoints cm"
    and h: "handle_hello demo_deps [3] (V4 3 5) ''DYN-interface'' demo_server (demo_started ?w) = Inr (cm, w)"
    using demo_server_hello [of ?w]
    by (auto simp: grants_start_def naming_fails_def open_dynamic_socket_def try_call_def sys_def names_refused_def demo_started_def)
  have e: "\<exists>ep ce. endpoints cm = [(5, ep)] \<and> connections ep = [ce] \<and> entry_state ce = Connected \<and>
    interface_address ce = V4 3 5 \<and> connection_timeout (connection ce) = Some (10 + from_millis 10000)"
    using h
    by (simp add: handle_hello_def Let_def ensure_endpoint_def admit_session_def accept_path_def add_connection_def acknowledge_def
      demo_deps_def ref_deps_def demo_server_def connection_manager_new_def set_endpoint_def hm_insert_def hm_contains_key_def
      endpoint_new_def open_dynamic_socket_def try_call_def sys_def demo_started_def ack_entry_def connection_new_def
      connection_write_def set_state_def must_call_def)
      (elim conjE, hypsubst, simp add: set_state_def)
  show ?thesis using e r(1) by blast
qed

theorem server_connections_are_tidy_witness:
  "\<exists>cm w ep ce. server_reachable demo_deps None demo_settings (demo_world (\<lambda>c n. Inr n)) no_logs (cm, w) \<and>
    get_endpoint 5 cm = Some ep \<and> connections ep = [ce] \<and>
    get_name_address_touple (connection ce) = (''DYN-interface'', V4 3 5)"
proof -
  obtain cm w ep ce where r: "server_reachable demo_deps None demo_settings (demo_world (\<lambda>c n. Inr n)) no_logs (cm, w)"
    and d: "endpoints cm = [(5, ep)]" "connections ep = [ce]" "interface_address ce = V4 3 5"
    using demo_server_connected by blast
  have e: "get_endpoint 5 cm = Some ep" "ce \<in> set (connections ep)" using d(1,2) by simp_all
  with server_connections_are_tidy [OF demo_serializes demo_select_laws r] d(3) have
    "get_name_address_touple (connection ce) = (''DYN-interface'', V4 3 5)" by metis
  then show ?thesis using r d(2) e(1) by blast
qed

theorem timed_out_connection_is_removed_witness:
  "\<exists>cm w cm'. server_reachable demo_deps None demo_settings (demo_world (\<lambda>c n. Inr n)) no_logs (cm, w) \<and>
    has_endpoints cm \<and>
    server_turn demo_deps no_logs (SharedEvent (ConnectionTimeout 0 0)) cm w = Some (Inr (cm', w)) \<and>
    \<not> has_endpoints cm'"
proof -
  let ?w = "demo_world (\<lambda>c n. Inr n)" and ?t = "10 + from_millis 10000"
  obtain cm v ep ce where r: "server_reachable demo_deps None demo_settings ?w no_logs (cm, v)"
    and d: "endpoints cm = [(5, ep)]" "connections ep = [ce]" "connection_timeout (connection ce) = Some ?t"
    using demo_server_connected by blast
  let ?v = "v\<lparr>w_now := max (w_now v) ?t, w_system_now := 0\<rparr>"
  have r': "server_reachable demo_deps None demo_settings ?w no_logs (cm, ?v)"
    by (rule server_reachable.step [OF r server_step.clock]) simp
  have he: "has_endpoints cm" using d(1) by (simp add: has_endpoints_def)
  have inv: "server_inv ?w (cm, ?v)" using server_inv_reachable [OF demo_serializes demo_select_laws r'] by simp
  have "\<exists>path ep'. await_timeout demo_deps (w_now ?v) 0 0 cm = Inr (Some (path, set_endpoint 5 ep' cm))"
    using d by (simp add: await_timeout_def select_endpoint_def candidates_def has_connections_def demo_deps_def ref_deps_def
        await_connection_timeouts_def await_connection_timeout_def split: prod.split) blast
  then obtain rr where rr: "server_turn demo_deps no_logs (SharedEvent (ConnectionTimeout 0 0)) cm ?v = Some rr"
    using he by (auto simp: server_turn_def when_ready_def split: prod.split)
  have "\<not> refuses ?v" using inv by (simp add: server_inv_def refuses_def)
  then have "candidates cm \<noteq> []" using inv he populated_candidates by (auto simp: server_inv_def)
  with server_turn_outcome [OF demo_serializes demo_select_laws inv rr] \<open>\<not> refuses ?v\<close>
  obtain cm' v' where turn: "rr = Inr (cm', v')"
    by (auto simp: outcome_def crash_def faulty_def split: sum.splits)
  from timed_out_connection_is_removed [OF demo_serializes demo_select_laws demo_timer_laws r' he rr [unfolded turn]]
  obtain k ep1 ce1 where "get_endpoint k cm = Some ep1" "ce1 \<in> set (connections ep1)" "v' = ?v"
    and g: "\<And>k'. get_endpoint k' cm' = Option.bind (get_endpoint k' cm) (keep_connections (\<lambda>ce'.
      (k', interface_address ce') \<noteq> (k, interface_address ce1) \<and> entry_state ce' \<noteq> Disconnected))"
    by blast
  have "get_endpoint k' cm' = None" for k'
    using g [of k'] d \<open>get_endpoint k cm = Some ep1\<close> \<open>ce1 \<in> set (connections ep1)\<close>
    by (auto simp: keep_connections_def split: if_splits)
  then have "\<not> has_endpoints cm'" by (simp add: has_endpoints_def fun_eq_iff flip: map_of_eq_empty_iff)
  then show ?thesis using r' he rr turn \<open>v' = ?v\<close> by blast
qed

end
