(* ===== verification/Client.thy ===== *)
theory Client
  imports Event_Panics
begin

text \<open>
  The client: \<open>crates/client/src/main.rs\<close> as a step relation.  It opens one connection per configured
  interface before the loop, greets its endpoints and reopens lost connections once a second, and starts all
  connections anew when no endpoint is left.
\<close>

section \<open>The loop\<close>

datatype client_event = SendKeepalive | ClientEvent event | Restart

fun start_loop ::
  "('t, 'c) deps \<Rightarrow> Connection.interfaces \<Rightarrow> endpoint_id \<Rightarrow> interface list \<Rightarrow>
    ('t, 'c) connection_manager \<Rightarrow> world \<Rightarrow> ('t, 'c) step" where
  "start_loop X ifs server [] cm w = Inr (cm, w)"
| "start_loop X ifs server (i # is) cm w =
    bindR (create_new_connection X ifs (if_interface_name i) (bind_address i) (server_address i) server cm w)
      (\<lambda>(r, cm, w). bindR (unwrap_result r) (\<lambda>_. start_loop X ifs server is cm w))"

fun restart_loop ::
  "('t, 'c) deps \<Rightarrow> Connection.interfaces \<Rightarrow> endpoint_id \<Rightarrow> interface list \<Rightarrow>
    ('t, 'c) connection_manager \<Rightarrow> world \<Rightarrow> ('t, 'c) step" where
  "restart_loop X ifs server [] cm w = Inr (cm, w)"
| "restart_loop X ifs server (i # is) cm w =
    bindR (create_new_connection X ifs (if_interface_name i) (bind_address i) (server_address i) server cm w)
      (\<lambda>(r, cm, w). restart_loop X ifs server is cm w)"

definition route_of_config :: "route_config \<Rightarrow> route" where
  "route_of_config r = \<lparr>route_address = rc_address r, subnet_mask = rc_subnet_mask r\<rparr>"

definition client_init ::
  "('t, 'c) deps \<Rightarrow> Connection.interfaces \<Rightarrow> 'f f64 option \<Rightarrow> client_settings \<Rightarrow> world \<Rightarrow>
    ('f loop_config \<times> ('t, 'c) connection_manager \<times> world) run" where
  "client_init X ifs D s w =
    bindR (must_call (UdpBind duplication_address) w) (\<lambda>(duplication_socket, w).
    bindR (start_loggers (cs_interface_logger s) (cs_packet_sorter_logger s) w) (\<lambda>(il, psl, w).
    bindR (tun_ipv4 (cs_tunnel_config s)) (\<lambda>client_tun_ipv4.
    bindR (must_call (TunCreate client_tun_ipv4 (netmask (cs_tunnel_config s)) (mtu (cs_tunnel_config s))) w) (\<lambda>(tun, w).
    bindR (unwrap (case interfaces s of [] \<Rightarrow> None | i # _ \<Rightarrow> Some i)) (\<lambda>first.
      let routes = Some (map route_of_config (static_routes s) @
            [\<lparr>route_address = client_tun_ipv4, subnet_mask = netmask (cs_tunnel_config s)\<rparr>]);
          cm = connection_manager_new (bind_address first) (cs_peer_id s)
            (tunnel_device_address (cs_tunnel_config s)) routes
            (cs_connection_timeout s) (cs_packet_sorter_deadline s)
      in bindR (start_loop X ifs (server_id s) (interfaces s) cm w) (\<lambda>(cm, w).
           Inr (\<lparr>interface_logging = il, sorter_logging = psl, log_debug = D\<rparr>, cm, w)))))))"

definition connection_infos :: "client_settings \<Rightarrow> connection_info list" where
  "connection_infos s = map (\<lambda>i. \<lparr>ci_interface_name = if_interface_name i, ci_local_address = bind_address i,
     ci_destination_address = server_address i, ci_destination_endpoint_id = server_id s\<rparr>) (interfaces s)"

definition keepalive ::
  "('t, 'c) deps \<Rightarrow> Connection.interfaces \<Rightarrow> client_settings \<Rightarrow> 'f loop_config \<Rightarrow>
    ('t, 'c) connection_manager \<Rightarrow> world \<Rightarrow> ('t, 'c) step" where
  "keepalive X ifs s L cm w =
    bindR (greet_all_endpoints X cm w) (\<lambda>(cm, w).
    bindR (ensure_endpoint_connections X ifs (server_id s) (connection_infos s) cm w) (\<lambda>(cm, w).
    bindR (flush_logs L w) (\<lambda>w. Inr (cm, w))))"

definition client_turn ::
  "('t, 'c) deps \<Rightarrow> Connection.interfaces \<Rightarrow> client_settings \<Rightarrow> 'f loop_config \<Rightarrow> client_event \<Rightarrow>
    ('t, 'c) connection_manager \<Rightarrow> world \<Rightarrow> ('t, 'c) step option" where
  "client_turn X ifs s L ev cm w =
    (if has_endpoints cm then
       map_option (\<lambda>r. bindR r clean_up)
         (case ev of
            SendKeepalive \<Rightarrow> Some (keepalive X ifs s L cm w)
          | ClientEvent e \<Rightarrow> handle_event X L e cm w
          | Restart \<Rightarrow> None)
     else
       (case ev of
          Restart \<Rightarrow> Some (restart_loop X ifs (server_id s) (interfaces s) cm w)
        | _ \<Rightarrow> None))"

inductive client_step ::
  "('t, 'c) deps \<Rightarrow> Connection.interfaces \<Rightarrow> client_settings \<Rightarrow> 'f loop_config \<Rightarrow>
    ('t, 'c) connection_manager \<times> world \<Rightarrow> ('t, 'c) step \<Rightarrow> bool"
  for X :: "('t, 'c) deps" and ifs :: Connection.interfaces and S :: client_settings and L :: "'f loop_config" where
  clock: "w_now w \<le> t \<Longrightarrow> client_step X ifs S L (cm, w) (Inr (cm, w\<lparr>w_now := t, w_system_now := u\<rparr>))"
| turn: "client_turn X ifs S L ev cm w = Some r \<Longrightarrow> client_step X ifs S L (cm, w) r"

inductive client_reachable ::
  "('t, 'c) deps \<Rightarrow> Connection.interfaces \<Rightarrow> 'f f64 option \<Rightarrow> client_settings \<Rightarrow> world \<Rightarrow> 'f loop_config \<Rightarrow>
    ('t, 'c) connection_manager \<times> world \<Rightarrow> bool"
  for X :: "('t, 'c) deps" and ifs :: Connection.interfaces and D :: "'f f64 option" and S :: client_settings
    and w\<^sub>0 :: world where
  start: "client_init X ifs D S w\<^sub>0 = Inr (L, cm, w) \<Longrightarrow> client_reachable X ifs D S w\<^sub>0 L (cm, w)"
| step: "client_reachable X ifs D S w\<^sub>0 L s \<Longrightarrow> client_step X ifs S L s (Inr s') \<Longrightarrow>
    client_reachable X ifs D S w\<^sub>0 L s'"

inductive_cases client_stepE: "client_step X ifs S L (cm, w) r"

section \<open>Invariants\<close>

definition v4_bound :: "interface list \<Rightarrow> bool" where
  "v4_bound is \<longleftrightarrow> (\<forall>i\<in>set is. \<exists>ip q. bind_address i = V4 ip q)"

text \<open>What a turn of the client may do.\<close>

definition client_ok :: "world \<Rightarrow> ('t, 'c) connection_manager \<times> world \<Rightarrow> bool" where
  "client_ok w s \<longleftrightarrow> cm_inv (fst s) \<and> extends w (snd s)"

lemma client_ok_trans: "client_ok w (cm, v) \<Longrightarrow> client_ok v s \<Longrightarrow> client_ok w s"
  by (auto simp: client_ok_def intro: extends_trans)

lemma create_ok:
  assumes "serializes X" "cm_inv cm" "local_addr = V4 ip q"
  shows "outcome (open_panic w) (\<lambda>(r, s). client_ok w s) (create_new_connection X ifs name local_addr destination eid cm w)"
  by (rule outcome_mono [OF create_new_connection_outcome [OF assms(1,2)]])
    (auto simp: assms(3) client_ok_def opened_def)

lemma start_loop_outcome:
  assumes "serializes X"
  shows "cm_inv cm \<Longrightarrow> start_loop X ifs server is cm w = Inr s \<Longrightarrow> client_ok w s \<and> v4_bound is"
proof (induction "is" arbitrary: cm w)
  case Nil
  then show ?case by (auto simp: client_ok_def v4_bound_def)
next
  case (Cons i "is")
  obtain r cm1 w1 where 1: "create_new_connection X ifs (if_interface_name i) (bind_address i) (server_address i) server cm w =
      Inr (r, cm1, w1)" and 2: "start_loop X ifs server is cm1 w1 = Inr s"
    using Cons.prems(2) by (auto simp: bindR_eq_Inr)
  obtain ip q where v4: "bind_address i = V4 ip q"
    using 1 by (cases "bind_address i") (auto simp: create_new_connection_def)
  have ok: "client_ok w (cm1, w1)"
    using create_ok [OF assms Cons.prems(1) v4, of w ifs "if_interface_name i" "server_address i" server] 1 by simp
  then have "cm_inv cm1" by (simp add: client_ok_def)
  from Cons.IH [OF this 2] have "client_ok w1 s" and "v4_bound is" by simp_all
  then show ?case using client_ok_trans [OF ok] v4 by (simp add: v4_bound_def)
qed

lemma restart_loop_outcome:
  assumes "serializes X"
  shows "cm_inv cm \<Longrightarrow> v4_bound is \<Longrightarrow> outcome (open_panic w) (client_ok w) (restart_loop X ifs server is cm w)"
proof (induction "is" arbitrary: cm w)
  case Nil
  then show ?case by (auto simp: client_ok_def)
next
  case (Cons i "is")
  obtain ip q where v4: "bind_address i = V4 ip q" using Cons.prems(2) by (auto simp: v4_bound_def)
  have rest: "outcome (open_panic w) (client_ok w) (restart_loop X ifs server is cm1 w1)"
    if "client_ok w (cm1, w1)" for cm1 w1
    using that Cons.prems(2)
    by (intro outcome_mono [OF Cons.IH])
      (auto simp: client_ok_def v4_bound_def open_panic_extends intro: extends_trans)
  show ?case
    by (simp, intro outcome_mono [OF create_ok [OF assms Cons.prems(1) v4]]) (auto intro: rest)
qed

lemma keepalive_outcome:
  assumes "serializes X" "cm_inv cm" "v4_bound (interfaces s)"
  shows "outcome (open_panic w) (client_ok w) (keepalive X ifs s L cm w)"
proof -
  have v4: "\<forall>info\<in>set (connection_infos s). \<exists>ip q. ci_local_address info = V4 ip q"
    using assms(3) by (auto simp: connection_infos_def v4_bound_def)
  have flush: "outcome (open_panic w) (client_ok w) (bindR (flush_logs L w2) (\<lambda>w. Inr (cm2, w)))"
    if "cm_inv cm2" "extends w w2" for cm2 w2
    using that
    by (simp, intro outcome_mono [OF flush_logs_outcome])
      (auto simp: open_panic_def refuses_extends client_ok_def intro: extends_trans)
  have open_: "outcome (open_panic w) (client_ok w)
      (bindR (ensure_endpoint_connections X ifs (server_id s) (connection_infos s) cm1 w1) (\<lambda>(cm, w).
       bindR (flush_logs L w) (\<lambda>w. Inr (cm, w))))"
    if 1: "cm_inv cm1" "extends w w1" for cm1 w1
    by (subst outcome_bind, rule outcome_mono [OF ensure_endpoint_connections_outcome [OF assms(1) 1(1) v4]])
      (auto simp: open_panic_extends [OF 1(2)] opened_def simp del: outcome_bind
        intro!: flush intro: extends_trans [OF 1(2)])
  show ?thesis
    unfolding keepalive_def
    by (subst outcome_bind, rule outcome_mono [OF greet_all_outcome [OF assms(1,2)]])
      (auto simp: keeps_inv simp del: outcome_bind intro!: open_)
qed

lemma client_turn_outcome:
  assumes "serializes X" "select_laws X" "cm_inv cm" "v4_bound (interfaces S)"
    and "client_turn X ifs S L ev cm w = Some r"
  shows "outcome (\<lambda>p. True) (client_ok w) r"
proof (cases "has_endpoints cm")
  case False
  then show ?thesis
    using assms(5) restart_loop_outcome [OF assms(1,3,4), of w ifs "server_id S"]
    by (auto simp: client_turn_def split: client_event.splits elim: outcome_mono)
next
  case True
  then obtain r' where r': "r = bindR r' clean_up" and arm: "Some r' = (case ev of
            SendKeepalive \<Rightarrow> Some (keepalive X ifs S L cm w)
          | ClientEvent e \<Rightarrow> handle_event X L e cm w
          | Restart \<Rightarrow> None)"
    using assms(5) by (auto simp: client_turn_def)
  have "outcome (\<lambda>p. True) (client_ok w) r'"
  proof (cases ev)
    case SendKeepalive
    then show ?thesis using arm keepalive_outcome [OF assms(1,3,4), of w ifs L]
      by (auto elim: outcome_mono)
  next
    case (ClientEvent e)
    then have e: "handle_event X L e cm w = Some r'" using arm by simp
    show ?thesis
      by (rule outcome_mono [OF handle_event_outcome [OF assms(1-3) e]])
        (auto simp: good_def client_ok_def keeps_inv)
  qed (use arm in simp)
  moreover have "outcome Q (client_ok w) (clean_up s)" if "client_ok w s" for s Q
  proof -
    have g: "good (fst s) (snd s) s" using that by (simp add: good_def client_ok_def keeps_refl)
    show ?thesis
      by (rule outcome_mono [OF clean_up_outcome [OF g]])
        (use that in \<open>auto simp: good_def client_ok_def keeps_inv intro: extends_trans\<close>)
  qed
  ultimately show ?thesis
    unfolding r' outcome_bind by (elim outcome_mono) auto
qed

lemma start_loggers_extends: "start_loggers i p w = Inr (il, psl, w') \<Longrightarrow> extends w w'"
  using outcome_Inr [OF start_loggers_outcome [OF extends_refl]] by fastforce

lemma client_init_ok:
  assumes "serializes X" "client_init X ifs D S w = Inr (L, cm, w')"
  shows "client_ok w (cm, w') \<and> v4_bound (interfaces S) \<and> log_debug L = D"
proof -
  obtain fd w1 il psl w2 ip tun w3 a e t r c d where 1: "must_call (UdpBind duplication_address) w = Inr (fd, w1)"
    and 2: "start_loggers (cs_interface_logger S) (cs_packet_sorter_logger S) w1 = Inr (il, psl, w2)"
    and 3: "must_call (TunCreate ip (netmask (cs_tunnel_config S)) (mtu (cs_tunnel_config S))) w2 = Inr (tun, w3)"
    and 4: "start_loop X ifs (server_id S) (interfaces S) (connection_manager_new a e t r c d) w3 = Inr (cm, w')"
      "log_debug L = D"
    using assms(2) unfolding client_init_def Let_def by (fastforce simp: bindR_eq_Inr)
  have "extends w w3"
    using extends_must_call [OF 1] start_loggers_extends [OF 2] extends_must_call [OF 3]
    by (blast intro: extends_trans)
  then show ?thesis
    using start_loop_outcome [OF assms(1) cm_inv_new 4(1)] 4(2) by (auto simp: client_ok_def intro: extends_trans)
qed

lemma client_inv_reachable:
  assumes "serializes X" "select_laws X"
  shows "client_reachable X ifs D S w L s \<Longrightarrow>
    cm_inv (fst s) \<and> v4_bound (interfaces S) \<and> w_answer (snd s) = w_answer w \<and> log_debug L = D"
proof (induction rule: client_reachable.induct)
  case (start L cm v)
  from client_init_ok [OF assms(1) this] show ?case by (auto simp: client_ok_def extends_def)
next
  case (step L s s')
  obtain cm v where s: "s = (cm, v)" by (cases s)
  from step.hyps(2) show ?case unfolding s
  proof (rule client_stepE)
    fix t u
    assume "Inr s' = Inr (cm, v\<lparr>w_now := t, w_system_now := u\<rparr>)"
    then show ?thesis using step.IH s by simp
  next
    fix ev
    assume "client_turn X ifs S L ev cm v = Some (Inr s')"
    from client_turn_outcome [OF assms _ _ this] step.IH s show ?thesis
      by (simp add: client_ok_def extends_def)
  qed
qed

section \<open>Properties\<close>

text \<open>When a turn fails, event by event.\<close>

fun restarting_fails ::
  "('t, 'c) deps \<Rightarrow> Connection.interfaces \<Rightarrow> endpoint_id \<Rightarrow> interface list \<Rightarrow>
    ('t, 'c) connection_manager \<Rightarrow> world \<Rightarrow> bool" where
  "restarting_fails X ifs server [] cm w \<longleftrightarrow> False"
| "restarting_fails X ifs server (i # is) cm w \<longleftrightarrow>
    opening_fails X ifs (if_interface_name i) (bind_address i) (server_address i) server cm w \<or>
    (\<exists>r cm1 w1. create_new_connection X ifs (if_interface_name i) (bind_address i) (server_address i) server cm w =
       Inr (r, cm1, w1) \<and> restarting_fails X ifs server is cm1 w1)"

definition keepalive_fails ::
  "('t, 'c) deps \<Rightarrow> Connection.interfaces \<Rightarrow> client_settings \<Rightarrow> 'f loop_config \<Rightarrow> ('t, 'c) connection_manager \<Rightarrow> world \<Rightarrow> bool" where
  "keepalive_fails X ifs S L cm w \<longleftrightarrow> (\<exists>cm1 w1. greet_all_endpoints X cm w = Inr (cm1, w1) \<and>
    ((case get_endpoint (server_id S) cm1 of None \<Rightarrow> False
      | Some ep \<Rightarrow> reopening_fails X ifs (get_alive_connections ep) (connection_infos S) cm1 w1) \<or>
     (\<exists>cm2 w2. ensure_endpoint_connections X ifs (server_id S) (connection_infos S) cm1 w1 = Inr (cm2, w2) \<and>
       flush_fails L w2)))"

fun client_event_fails ::
  "('t, 'c) deps \<Rightarrow> Connection.interfaces \<Rightarrow> client_settings \<Rightarrow> 'f loop_config \<Rightarrow> client_event \<Rightarrow>
    ('t, 'c) connection_manager \<Rightarrow> world \<Rightarrow> bool" where
  "client_event_fails X ifs S L SendKeepalive cm w \<longleftrightarrow> keepalive_fails X ifs S L cm w"
| "client_event_fails X ifs S L (ClientEvent e) cm w \<longleftrightarrow> event_fails X L e cm w"
| "client_event_fails X ifs S L Restart cm w \<longleftrightarrow> restarting_fails X ifs (server_id S) (interfaces S) cm w"

lemma restart_loop_panics_iff:
  assumes "serializes X"
  shows "v4_bound is \<Longrightarrow> panics (restart_loop X ifs server is cm w) \<longleftrightarrow> restarting_fails X ifs server is cm w"
proof (induction "is" arbitrary: cm w)
  case (Cons i "is")
  let ?new = "create_new_connection X ifs (if_interface_name i) (bind_address i) (server_address i) server cm w"
  obtain ip q where "bind_address i = V4 ip q" using Cons.prems by (auto simp: v4_bound_def)
  from create_new_connection_panics_iff [OF assms this, of ifs "if_interface_name i" "server_address i" server cm w]
  show ?case using Cons by (cases ?new) (auto simp: v4_bound_def)
qed simp

lemma keepalive_panics_iff:
  assumes "serializes X" "cm_inv cm" "v4_bound (interfaces S)"
  shows "panics (keepalive X ifs S L cm w) \<longleftrightarrow> keepalive_fails X ifs S L cm w"
proof -
  have v4: "\<forall>info\<in>set (connection_infos S). \<exists>ip q. ci_local_address info = V4 ip q"
    using assms(3) by (auto simp: connection_infos_def v4_bound_def)
  obtain cm1 w1 where g: "greet_all_endpoints X cm w = Inr (cm1, w1)"
    using greet_all_outcome [OF assms(1,2), of w] by (auto simp: outcome_returns)
  show ?thesis
    using ensure_endpoint_connections_panics_iff [OF assms(1) v4, of ifs "server_id S" cm1 w1]
    by (cases "ensure_endpoint_connections X ifs (server_id S) (connection_infos S) cm1 w1")
      (auto simp: keepalive_def keepalive_fails_def g panics_bind flush_logs_panics_iff)
qed

text \<open>
  C24: Exactly when a turn of a started client panics, for every event and every log level.  The keepalive: in the
  first reopening of a lost connection whose socket the kernel does not give, whose device it refuses for another
  reason than that it is gone, or whose socket it does not name after the greeting; or the flush of a log file that
  comes after is refused.  The restart: in the first opening that fails so.  The events it shares with the server: as there.
  In particular it never meets an IPv6 address it cannot use, greeting the endpoints never panics, and no \<open>unwrap\<close> on
  a map, an option or a serialised message fails.
\<close>

theorem client_crash_causes:
  assumes "serializes X" and "select_laws X" and "client_reachable X ifs D S w\<^sub>0 L (cm, w)"
    and "client_turn X ifs S L ev cm w = Some r"
  shows "panics r \<longleftrightarrow> client_event_fails X ifs S L ev cm w"
proof -
  have inv: "cm_inv cm" "v4_bound (interfaces S)"
    using client_inv_reachable [OF assms(1-3)] by simp_all
  have clean: "panics (bindR r1 clean_up) \<longleftrightarrow> panics r1" if "outcome Q (client_ok w) r1" for Q r1
  proof (cases r1)
    case (Inr s)
    then have "good (fst s) (snd s) s" using that by (simp add: good_def client_ok_def keeps_refl)
    from outcome_never [OF clean_up_outcome [OF this]] show ?thesis using Inr by simp
  qed simp
  show ?thesis
  proof (cases "has_endpoints cm")
    case False
    then show ?thesis
      using assms(4) restart_loop_panics_iff [OF assms(1) inv(2)] by (cases ev) (auto simp: client_turn_def)
  next
    case True
    show ?thesis
    proof (cases ev)
      case SendKeepalive
      then show ?thesis
        using assms(4) True clean [OF keepalive_outcome [OF assms(1) inv, of w ifs L]] keepalive_panics_iff [OF assms(1) inv, of ifs L w]
        by (auto simp: client_turn_def)
    next
      case (ClientEvent e)
      then obtain r1 where r1: "handle_event X L e cm w = Some r1" "r = bindR r1 clean_up"
        using assms(4) True by (auto simp: client_turn_def)
      have "outcome (crash cm w L) (client_ok w) r1"
        by (rule outcome_mono [OF handle_event_outcome [OF assms(1,2) inv(1) r1(1)]])
          (auto simp: good_def client_ok_def keeps_inv)
      from clean [OF this] show ?thesis
        using handle_event_panics_iff [OF assms(1,2) inv(1) r1(1)] by (simp add: r1(2) ClientEvent)
    qed (use assms(4) True in \<open>simp add: client_turn_def\<close>)
  qed
qed

text \<open>
  C25: In every state the client can reach the endpoints are filed under their own identifiers with all
  sockets there, sorted queues without a packet that is due, and tables of at most 100 timestamps; routes lead to
  endpoints that exist; and every interface configured has an IPv4 address, or the client would not have started.
\<close>

theorem client_state_is_well_formed:
  assumes "serializes X" and "select_laws X" and "client_reachable X ifs D S w\<^sub>0 L (cm, w)"
  shows "cm_inv cm \<and> route_targets (routes cm) \<subseteq> dom (hm_get (endpoints cm)) \<and>
    (\<forall>k ep. get_endpoint k cm = Some ep \<longrightarrow> ep_id ep = k \<and> sorter_inv (packet_sorter ep) \<and>
      (\<forall>ce\<in>set (connections ep). has_socket ce) \<and>
      length (ack_timestamps (hello_path_latency ep)) \<le> 100 \<and>
      length (ack_timestamps (hello_ack_path_latency ep)) \<le> 100) \<and>
    (\<forall>i\<in>set (interfaces S). \<exists>ip q. bind_address i = V4 ip q)"
  using client_inv_reachable [OF assms]
  by (auto simp: cm_inv_def hm_all_def endpoint_ok_def latency_inv_def MAX_TIMESTAMPS_def v4_bound_def)

section \<open>A client at work\<close>

definition demo_client_settings :: client_settings where
  "demo_client_settings = \<lparr>cs_peer_id = 7,
     interfaces = [\<lparr>if_interface_name = ''veth1'', bind_address = V4 3 0, server_address = V4 2 40000\<rparr>],
     server_id = 5,
     cs_tunnel_config = \<lparr>tunnel_device_address = Inl 0x0A0C0002, netmask = 0xFFFFFF00, mtu = 1420\<rparr>,
     static_routes = [], cs_connection_timeout = 10000, cs_packet_sorter_deadline = 100,
     cs_interface_logger = None, cs_packet_sorter_logger = None\<rparr>"

text \<open>A crash: the tunnel device fails when a sorted packet is written to it.  The world grants every call but those.\<close>

definition broken_tun :: world where
  "broken_tun = demo_world (\<lambda>c n. case c of TunSend bytes \<Rightarrow> Inl (OtherError 5) | _ \<Rightarrow> Inr n)"

text \<open>An event source whose sorted queue always holds one packet.\<close>

definition busy_deps :: "(instant option, nat \<times> packet list) deps" where
  "busy_deps = demo_deps\<lparr>chan_recv := (\<lambda>c. Some (Some \<lparr>pkt_seq = 0, pkt_id = 5, pkt_bytes = [1]\<rparr>, c))\<rparr>"

lemma busy_deps_ok: "serializes busy_deps" "select_laws busy_deps"
  using demo_serializes demo_select_laws by (simp_all add: busy_deps_def serializes_def select_laws_def)

lemma demo_client_started:
  "\<exists>cm w. client_reachable busy_deps [] None demo_client_settings broken_tun no_logs (cm, w) \<and> has_endpoints cm \<and>
    handle_event busy_deps no_logs (NewSortedPacket 0) cm w = Some (Inl UnwrapErr)"
proof -
  obtain cm w where i: "client_init busy_deps [] None demo_client_settings broken_tun = Inr (no_logs, cm, w)"
    and h: "has_endpoints cm" and s: "handle_event busy_deps no_logs (NewSortedPacket 0) cm w = Some (Inl UnwrapErr)"
    by (simp add: client_init_def demo_client_settings_def tun_ipv4_def broken_tun_def connection_manager_new_def
        create_new_connection_eq make_socket_def sys_def try_call_def Let_def peer_endpoint_def fresh_uuid_def
        greet_and_register_def busy_deps_def demo_deps_def ref_deps_def connection_new_def set_endpoint_def
        hm_insert_def has_endpoints_def await_endpoint_sorted_packets_def select_endpoint_def candidates_def
        has_connections_def endpoint_new_def await_sorted_packet_def await_have_next_packet_def
        log_and_forward_def when_ready_def must_call_def start_loggers_def)
  from client_reachable.start [OF i] h s show ?thesis by blast
qed

theorem client_crash_causes_witness:
  "\<exists>cm w r. client_reachable busy_deps [] None demo_client_settings broken_tun no_logs (cm, w) \<and>
    client_turn busy_deps [] demo_client_settings no_logs (ClientEvent (NewSortedPacket 0)) cm w = Some r \<and> panics r \<and>
    event_fails busy_deps no_logs (NewSortedPacket 0) cm w"
proof -
  obtain cm w where r: "client_reachable busy_deps [] None demo_client_settings broken_tun no_logs (cm, w)"
    and h: "has_endpoints cm" and s: "handle_event busy_deps no_logs (NewSortedPacket 0) cm w = Some (Inl UnwrapErr)"
    using demo_client_started by blast
  have t: "client_turn busy_deps [] demo_client_settings no_logs (ClientEvent (NewSortedPacket 0)) cm w = Some (Inl UnwrapErr)"
    using h s by (simp add: client_turn_def del: handle_event.simps)
  from client_crash_causes [OF busy_deps_ok r t] have "event_fails busy_deps no_logs (NewSortedPacket 0) cm w"
    by (simp only: client_event_fails.simps panics_simps simp_thms)
  then show ?thesis
    using r t by (intro exI [of _ cm] exI [of _ w] exI [of _ "Inl UnwrapErr"]) (simp only: panics_simps simp_thms)
qed

theorem client_state_is_well_formed_witness:
  "\<exists>cm w. client_reachable busy_deps [] None demo_client_settings broken_tun no_logs (cm, w) \<and>
    has_endpoints cm \<and> cm_inv cm"
  using demo_client_started client_state_is_well_formed [OF busy_deps_ok] by blast

end
