(* ===== verification/Wire_Instance.thy ===== *)
theory Wire_Instance
  imports Manager_Paths
begin

text \<open>
  An instance of the crates the program calls whose message encoding has a decoder.  It is not bincode's
  format, only one that satisfies what the theorems assume of it; concrete runs use it.
\<close>

section \<open>Numbers as bytes\<close>

fun le_bytes :: "nat \<Rightarrow> nat \<Rightarrow> u8 list" where
  "le_bytes 0 x = []"
| "le_bytes (Suc n) x = of_nat x # le_bytes n (x div 256)"

fun le_value :: "u8 list \<Rightarrow> nat" where
  "le_value [] = 0"
| "le_value (b # bs) = unat b + 256 * le_value bs"

lemma length_le_bytes [simp]: "length (le_bytes n x) = n"
  by (induction n x rule: le_bytes.induct) simp_all

lemma le_value_bytes: "le_value (le_bytes n x) = x mod 256 ^ n"
proof (induction n x rule: le_bytes.induct)
  case (2 n x)
  have "unat (of_nat x :: u8) = x mod 256"
    by (simp add: unat_of_nat)
  then show ?case using 2 by (simp add: mod_mult2_eq)
qed simp

definition put_word :: "nat \<Rightarrow> 'a :: len word \<Rightarrow> u8 list" where
  "put_word n w = le_bytes n (unat w)"

definition get_word :: "u8 list \<Rightarrow> 'a :: len word" where
  "get_word bs = of_nat (le_value bs)"

lemma length_put_word [simp]: "length (put_word n w) = n"
  by (simp add: put_word_def)

lemma get_put_word:
  fixes w :: "'a :: len word"
  assumes "LENGTH('a) = 8 * n"
  shows "get_word (put_word n w) = w"
proof -
  have "(256 :: nat) ^ n = 2 ^ LENGTH('a)"
    using assms by (simp add: power_mult)
  then have "unat w < 256 ^ n" using unsigned_less [of w] by simp
  then show ?thesis by (simp add: get_word_def put_word_def le_value_bytes)
qed

section \<open>Messages\<close>

definition put_route :: "route \<Rightarrow> u8 list" where
  "put_route r = put_word 4 (route_address r) @ put_word 4 (subnet_mask r)"

fun get_routes :: "u8 list \<Rightarrow> route list" where
  "get_routes (a # b # c # d # e # f # g # h # bs) =
    \<lparr>route_address = get_word [a, b, c, d], subnet_mask = get_word [e, f, g, h]\<rparr> # get_routes bs"
| "get_routes bs = []"

lemma four_bytes: "length bs = 4 \<Longrightarrow> \<exists>a b c d. bs = [a, b, c, d]"
  by (auto simp: numeral_eq_Suc length_Suc_conv)

lemma get_put_route: "get_routes (put_route r @ bs) = r # get_routes bs"
proof -
  obtain a b c d where 1: "put_word 4 (route_address r) = [a, b, c, d]" using four_bytes length_put_word by blast
  obtain e f g h where 2: "put_word 4 (subnet_mask r) = [e, f, g, h]" using four_bytes length_put_word by blast
  have "get_word [a, b, c, d] = route_address r" "get_word [e, f, g, h] = subnet_mask r"
    using get_put_word [of 4 "route_address r"] get_put_word [of 4 "subnet_mask r"] by (simp_all add: 1 2)
  then show ?thesis by (simp add: put_route_def 1 2)
qed

definition put_routes :: "route list option \<Rightarrow> u8 list" where
  "put_routes r = (case r of None \<Rightarrow> [0] | Some rs \<Rightarrow> 1 # concat (map put_route rs))"

definition get_route_option :: "u8 list \<Rightarrow> route list option" where
  "get_route_option bs = (case bs of [] \<Rightarrow> None | b # bs \<Rightarrow> if b = 0 then None else Some (get_routes bs))"

lemma get_put_routes: "get_route_option (put_routes r) = r"
proof -
  have "get_routes (concat (map put_route rs)) = rs" for rs
    by (induction rs) (simp_all add: get_put_route)
  then show ?thesis by (simp add: put_routes_def get_route_option_def split: option.split)
qed

definition encode :: "messages \<Rightarrow> u8 list" where
  "encode m = (case m of
      Packet p \<Rightarrow> 0 # put_word 8 (pkt_seq p) @ put_word 2 (pkt_id p) @ pkt_bytes p
    | Hello h \<Rightarrow> 1 # put_word 2 (hello_id h) @ put_word 16 (hello_session_id h) @ put_word 8 (hello_seq h) @
        put_routes (hello_static_routes h)
    | HelloAck a \<Rightarrow> 2 # put_word 2 (ack_id a) @ put_word 16 (ack_session_id a) @ put_word 8 (ack_seq a) @
        put_routes (ack_static_routes a))"

definition decode :: "u8 list \<Rightarrow> messages option" where
  "decode bs = (case bs of
      [] \<Rightarrow> None
    | t # bs \<Rightarrow>
        if t = 0 then Some (Packet \<lparr>pkt_seq = get_word (take 8 bs), pkt_id = get_word (take 2 (drop 8 bs)),
          pkt_bytes = drop 10 bs\<rparr>)
        else if t = 1 then Some (Hello \<lparr>hello_id = get_word (take 2 bs), hello_session_id = get_word (take 16 (drop 2 bs)),
          hello_static_routes = get_route_option (drop 26 bs), hello_seq = get_word (take 8 (drop 18 bs))\<rparr>)
        else if t = 2 then Some (HelloAck \<lparr>ack_id = get_word (take 2 bs), ack_session_id = get_word (take 16 (drop 2 bs)),
          ack_static_routes = get_route_option (drop 26 bs), ack_seq = get_word (take 8 (drop 18 bs))\<rparr>)
        else None)"

lemma decode_encode: "decode (encode m) = Some m"
  by (cases m) (simp_all add: encode_def decode_def get_put_word get_put_routes)

definition wire_deps :: "(instant option, nat \<times> packet list) deps" where
  "wire_deps = ref_deps\<lparr>slice_from_ip := (\<lambda>bs. SliceIpv4 0x0A0C0002),
     bincode_serialize := (\<lambda>m. Some (encode m)), bincode_deserialize := decode\<rparr>"

lemma wire_laws:
  "serializes wire_deps" "select_laws wire_deps" "channel_laws wire_deps snd fst"
  "bincode_serialize wire_deps m = Some bs \<Longrightarrow> bincode_deserialize wire_deps bs = Some m"
  using ref_select_laws ref_channel_laws
  by (auto simp: wire_deps_def serializes_def select_laws_def channel_laws_def decode_encode)

end
