(* ===== verification/Client_Start.thy ===== *)
theory Client_Start
  imports Client Wire_Instance
begin

text \<open>
  What the client does when the kernel grants every call: the connections it opens, the greetings it sends.
\<close>

section \<open>A kernel that grants every call\<close>

definition obliging :: "world \<Rightarrow> bool" where
  "obliging w \<longleftrightarrow> (\<forall>c n. \<exists>v. w_answer w c n = Inr v)"

lemma obliging_extends: "extends w w' \<Longrightarrow> obliging w' = obliging w"
  by (simp add: obliging_def extends_def)

lemma obliging_fields [simp]: "obliging (w\<lparr>w_trace := t\<rparr>) = obliging w" "obliging (w\<lparr>w_uuid_count := n\<rparr>) = obliging w"
  by (simp_all add: obliging_def)

lemma obliging_steps:
  assumes "obliging w"
  shows "(case sys c w of (Inl e, w') \<Rightarrow> f e w' | (Inr n, w') \<Rightarrow> g n w') =
      g (projr (w_answer w c (length (w_trace w)))) (w\<lparr>w_trace := w_trace w @ [c]\<rparr>)"
    and "try_call c w k = k (projr (w_answer w c (length (w_trace w)))) (w\<lparr>w_trace := w_trace w @ [c]\<rparr>)"
    and "must_call c w = Inr (projr (w_answer w c (length (w_trace w))), w\<lparr>w_trace := w_trace w @ [c]\<rparr>)"
proof -
  obtain v where "w_answer w c (length (w_trace w)) = Inr v" using assms unfolding obliging_def by blast
  then show "(case sys c w of (Inl e, w') \<Rightarrow> f e w' | (Inr n, w') \<Rightarrow> g n w') =
      g (projr (w_answer w c (length (w_trace w)))) (w\<lparr>w_trace := w_trace w @ [c]\<rparr>)"
    and "try_call c w k = k (projr (w_answer w c (length (w_trace w)))) (w\<lparr>w_trace := w_trace w @ [c]\<rparr>)"
    and "must_call c w = Inr (projr (w_answer w c (length (w_trace w))), w\<lparr>w_trace := w_trace w @ [c]\<rparr>)"
    by (simp_all add: sys_def try_call_def must_call_def)
qed

lemma obliging_names:
  assumes "obliging w" shows "\<not> naming_fails l a w"
proof -
  have "\<not> names_refused sk w'" if "open_dynamic_socket l a w = (r, w')" for r sk w'
  proof -
    have "obliging w'" using obliging_extends [OF open_dynamic_socket_extends [OF that]] assms by simp
    then have "\<not> isl (w_answer w' c n)" for c n unfolding obliging_def by (metis sum.disc(2))
    then show ?thesis by (simp add: names_refused_def)
  qed
  then show ?thesis by (auto simp: naming_fails_def split: prod.splits sum.splits)
qed

lemma update_same: "map_of m k = Some v \<Longrightarrow> AList.update k v m = m"
  by (induction m) (auto split: if_splits)

lemma set_endpoint_same: "get_endpoint k cm = Some ep \<Longrightarrow> set_endpoint k ep cm = cm"
  by (simp add: set_endpoint_def hm_insert_def update_same)

section \<open>Opening a connection\<close>

text \<open>The greeting that is sent for the endpoint a connection is made for.\<close>

definition greeting :: "('t, 'c) connection_manager \<Rightarrow> ('t, 'c) endpoint \<Rightarrow> messages" where
  "greeting cm ep = Hello \<lparr>hello_id = own_id cm, hello_session_id = session_id ep,
     hello_static_routes = own_static_routes cm, hello_seq = hello_counter ep\<rparr>"

definition with_entry :: "string \<Rightarrow> sockaddr \<Rightarrow> 't connection \<Rightarrow> ('t, 'c) endpoint \<Rightarrow> ('t, 'c) endpoint" where
  "with_entry name addr c ep = ep\<lparr>hello_counter := hello_counter ep + 1,
     connections := connections ep @ [\<lparr>interface_name = name, interface_address = addr, connection = c\<rparr>]\<rparr>"

lemma create_granted:
  assumes "serializes X" "obliging w"
  shows "\<exists>fd bytes c w'. create_new_connection X ifs name (V4 ip q) destination eid cm w =
      Inr (Inr (), set_endpoint eid (with_entry name destination c (opened_endpoint X eid cm w)) cm, w') \<and>
    connection.state c = Startup \<and> std_socket c \<noteq> None \<and> peer_addr c = destination \<and> cn_interface_name c = Some name \<and>
    bincode_serialize X (greeting cm (opened_endpoint X eid cm w)) = Some bytes \<and>
    w_trace w' = w_trace w @ [SocketNew, BindDevice fd name, Bind fd (V4 ip 0), SetNonblocking fd, AsyncTryFrom fd,
      ConnectTo fd destination, Send fd bytes, GetPeerName fd, GetSockName fd] \<and> extends w w'"
proof -
  obtain bytes where b: "bincode_serialize X (greeting cm (opened_endpoint X eid cm w)) = Some bytes"
    by (rule serializesD [OF assms(1)])
  then show ?thesis
    using assms(2)
    by (cases "get_endpoint eid cm")
      (simp_all add: create_new_connection_eq make_socket_def obliging_steps peer_endpoint_def fresh_uuid_def
        greet_and_register_def opened_endpoint_def greeting_def with_entry_def connection_new_def Let_def extends_def,
       (rule exI, rule conjI [OF refl], simp)+)
qed

section \<open>The connections at the start\<close>

text \<open>The datagrams of a list of calls, and the greetings an endpoint is sent one after the other.\<close>

definition datagrams_of :: "syscall list \<Rightarrow> u8 list list" where
  "datagrams_of cs = concat (map (\<lambda>c. case c of Send fd d \<Rightarrow> [d] | _ \<Rightarrow> []) cs)"

lemma datagrams_of_simps [simp]:
  "datagrams_of [] = []" "datagrams_of (xs @ ys) = datagrams_of xs @ datagrams_of ys"
  "datagrams_of (Send fd d # cs) = d # datagrams_of cs" "(\<And>fd d. c \<noteq> Send fd d) \<Longrightarrow> datagrams_of (c # cs) = datagrams_of cs"
  by (auto simp: datagrams_of_def split: syscall.split)

definition shape :: "'t connection_entry \<Rightarrow> string \<times> sockaddr \<times> connection_state" where
  "shape ce = (interface_name ce, interface_address ce, entry_state ce)"

definition starting :: "interface \<Rightarrow> string \<times> sockaddr \<times> connection_state" where
  "starting i = (if_interface_name i, server_address i, Startup)"

definition hello_of :: "('t, 'c) connection_manager \<Rightarrow> uuid \<Rightarrow> u64 \<Rightarrow> messages" where
  "hello_of cm session n = Hello \<lparr>hello_id = own_id cm, hello_session_id = session,
     hello_static_routes = own_static_routes cm, hello_seq = n\<rparr>"

text \<open>What the connections of the interfaces \<open>is\<close> add to the endpoint \<open>ep\<close>, and the greetings sent for it.\<close>

definition started_on :: "interface list \<Rightarrow> ('t, 'c) endpoint \<Rightarrow> ('t, 'c) endpoint \<Rightarrow> bool" where
  "started_on is ep ep' \<longleftrightarrow> map shape (connections ep') = map shape (connections ep) @ map starting is \<and>
    session_id ep' = session_id ep \<and> hello_counter ep' = hello_counter ep + of_nat (length is)"

definition greetings :: "('t, 'c) deps \<Rightarrow> ('t, 'c) connection_manager \<Rightarrow> nat \<Rightarrow> ('t, 'c) endpoint \<Rightarrow> u8 list option list" where
  "greetings X cm n ep = map (\<lambda>j. bincode_serialize X (hello_of cm (session_id ep) (hello_counter ep + of_nat j))) [0..<n]"

definition sends_since :: "world \<Rightarrow> u8 list option list \<Rightarrow> world \<Rightarrow> bool" where
  "sends_since w ds w' \<longleftrightarrow> (\<exists>cs. w_trace w' = w_trace w @ cs \<and> map Some (datagrams_of cs) = ds)"

lemma sends_since_trans: "sends_since w ds v \<Longrightarrow> sends_since v ds' u \<Longrightarrow> sends_since w (ds @ ds') u"
  unfolding sends_since_def by (elim exE conjE, rename_tac cs cs', rule_tac x = "cs @ cs'" in exI) simp

lemma greetings_Suc:
  assumes "session_id ep1 = session_id ep" "hello_counter ep1 = hello_counter ep + 1"
    and "own_id cm1 = own_id cm" "own_static_routes cm1 = own_static_routes cm"
  shows "greetings X cm (Suc n) ep = [bincode_serialize X (greeting cm ep)] @ greetings X cm1 n ep1"
proof -
  have "greetings X cm (Suc n) ep = bincode_serialize X (greeting cm ep) #
      map (\<lambda>j. bincode_serialize X (hello_of cm (session_id ep) (hello_counter ep + of_nat (Suc j)))) [0..<n]"
    unfolding greetings_def
    by (subst upt_conv_Cons) (simp_all add: hello_of_def greeting_def map_Suc_upt [symmetric] comp_def del: upt_Suc)
  then show ?thesis using assms by (simp add: greetings_def hello_of_def add.assoc)
qed

lemma opened_one:
  assumes "serializes X" "obliging w"
  shows "\<exists>ep' w'. create_new_connection X ifs (if_interface_name i) (V4 ip q) (server_address i) eid cm w =
      Inr (Inr (), set_endpoint eid ep' cm, w') \<and> started_on [i] (opened_endpoint X eid cm w) ep' \<and>
    sends_since w (greetings X cm 1 (opened_endpoint X eid cm w)) w' \<and> extends w w'"
proof -
  obtain fd bytes c w' where c: "create_new_connection X ifs (if_interface_name i) (V4 ip q) (server_address i) eid cm w =
      Inr (Inr (), set_endpoint eid (with_entry (if_interface_name i) (server_address i) c (opened_endpoint X eid cm w)) cm, w')"
    "connection.state c = Startup" "bincode_serialize X (greeting cm (opened_endpoint X eid cm w)) = Some bytes"
    "w_trace w' = w_trace w @ [SocketNew, BindDevice fd (if_interface_name i), Bind fd (V4 ip 0), SetNonblocking fd, AsyncTryFrom fd,
      ConnectTo fd (server_address i), Send fd bytes, GetPeerName fd, GetSockName fd]" "extends w w'"
    using create_granted [OF assms, of ifs "if_interface_name i" ip q "server_address i" eid cm] by blast
  have "started_on [i] ep (with_entry (if_interface_name i) (server_address i) c ep)" for ep :: "('a, 'b) endpoint"
    using c(2) by (simp add: started_on_def with_entry_def shape_def starting_def)
  moreover have "sends_since w (greetings X cm 1 (opened_endpoint X eid cm w)) w'"
    using c(3,4) by (simp add: sends_since_def greetings_def hello_of_def greeting_def)
  ultimately show ?thesis using c(1,5) by blast
qed

lemma start_loop_granted:
  assumes "serializes X"
  shows "v4_bound is \<Longrightarrow> obliging w \<Longrightarrow> is \<noteq> [] \<or> get_endpoint eid cm \<noteq> None \<Longrightarrow>
    \<exists>ep w'. start_loop X ifs eid is cm w = Inr (set_endpoint eid ep cm, w') \<and> started_on is (opened_endpoint X eid cm w) ep \<and>
      sends_since w (greetings X cm (length is) (opened_endpoint X eid cm w)) w' \<and> extends w w'"
proof (induction "is" arbitrary: cm w)
  case Nil
  then obtain ep where "get_endpoint eid cm = Some ep" by auto
  then show ?case
    by (intro exI [of _ ep] exI [of _ w])
      (simp add: set_endpoint_same started_on_def sends_since_def greetings_def opened_endpoint_def)
next
  case (Cons i "is")
  let ?ep = "opened_endpoint X eid cm w"
  obtain ip q where v4: "bind_address i = V4 ip q" using Cons.prems(1) by (auto simp: v4_bound_def)
  obtain ep1 w1 where 1: "create_new_connection X ifs (if_interface_name i) (bind_address i) (server_address i) eid cm w =
      Inr (Inr (), set_endpoint eid ep1 cm, w1)" "started_on [i] ?ep ep1" "sends_since w (greetings X cm 1 ?ep) w1" "extends w w1"
    using opened_one [OF assms Cons.prems(2), of ifs i ip q eid cm] v4 by auto
  have p: "opened_endpoint X eid (set_endpoint eid ep1 cm) w1 = ep1" by (simp add: opened_endpoint_def)
  have "v4_bound is" "obliging w1"
    using Cons.prems(1,2) 1(4) by (simp_all add: v4_bound_def obliging_extends)
  then obtain ep2 w2 where 2: "start_loop X ifs eid is (set_endpoint eid ep1 cm) w1 = Inr (set_endpoint eid ep2 cm, w2)"
    "started_on is ep1 ep2" "sends_since w1 (greetings X (set_endpoint eid ep1 cm) (length is) ep1) w2" "extends w1 w2"
    using Cons.IH [of w1 "set_endpoint eid ep1 cm"] p by auto
  have "greetings X cm (length (i # is)) ?ep = greetings X cm 1 ?ep @ greetings X (set_endpoint eid ep1 cm) (length is) ep1"
    using greetings_Suc [of ep1 ?ep "set_endpoint eid ep1 cm" cm X "length is"] 1(2)
    by (simp add: started_on_def) (simp add: greetings_def hello_of_def greeting_def)
  moreover have "started_on (i # is) ?ep ep2" using 1(2) 2(2) by (simp add: started_on_def)
  ultimately show ?case
    using 1 2 sends_since_trans [OF 1(3) 2(3)] extends_trans [OF 1(4) 2(4)] by (intro exI [of _ ep2] exI [of _ w2]) simp
qed

section \<open>The start of the client\<close>

lemma silentI:
  "datagrams_of cs = [] \<Longrightarrow> \<exists>ds. w\<lparr>w_trace := w_trace w @ cs\<rparr> = w\<lparr>w_trace := w_trace w @ ds\<rparr> \<and> datagrams_of ds = []"
  by blast

lemma silent_refl: "\<exists>ds. w = w\<lparr>w_trace := w_trace w @ ds\<rparr> \<and> datagrams_of ds = []"
  by (rule exI [of _ "[]"]) simp

lemma start_loggers_granted:
  assumes "obliging w"
  shows "\<exists>il psl cs. start_loggers i p w = Inr (il, psl, w\<lparr>w_trace := w_trace w @ cs\<rparr>) \<and> datagrams_of cs = []"
  using assms
  by (cases i; cases p)
    (simp_all add: start_loggers_def interface_logger_new_def packet_sorter_logger_new_def obliging_steps silentI silent_refl)

text \<open>
  C16: When the kernel grants every call, the client starts: it has the server as its only endpoint, in a
  fresh session, with one connection per configured interface, in the configured order, each starting up.  One greeting
  was sent for each, numbered from 0, announcing the configured routes and the client's own network; the counter of
  greetings is the number of interfaces.
\<close>

theorem client_starts_on_every_interface:
  assumes "serializes X" and "obliging w" and "v4_bound (interfaces S)" and "interfaces S \<noteq> []"
    and "tunnel_device_address (cs_tunnel_config S) = Inl ip"
  shows "\<exists>L cm w' ep. client_init X ifs D S w = Inr (L, cm, w') \<and> endpoints cm = [(server_id S, ep)] \<and>
    session_id ep = w_uuids w (w_uuid_count w) \<and> hello_counter ep = of_nat (length (interfaces S)) \<and>
    map (\<lambda>ce. (interface_name ce, interface_address ce, entry_state ce)) (connections ep) =
      map (\<lambda>i. (if_interface_name i, server_address i, Startup)) (interfaces S) \<and>
    map Some (datagrams_of (drop (length (w_trace w)) (w_trace w'))) =
      map (\<lambda>n. bincode_serialize X (Hello \<lparr>hello_id = cs_peer_id S, hello_session_id = w_uuids w (w_uuid_count w),
          hello_static_routes = Some (map route_of_config (static_routes S) @
            [\<lparr>route_address = ip, subnet_mask = netmask (cs_tunnel_config S)\<rparr>]),
          hello_seq = of_nat n\<rparr>)) [0..<length (interfaces S)]"
proof -
  obtain i "is" where i: "interfaces S = i # is" using assms(4) by (cases "interfaces S") auto
  let ?routes = "Some (map route_of_config (static_routes S) @ [\<lparr>route_address = ip, subnet_mask = netmask (cs_tunnel_config S)\<rparr>])"
  let ?cm = "connection_manager_new (bind_address i) (cs_peer_id S) (tunnel_device_address (cs_tunnel_config S)) ?routes
    (cs_connection_timeout S) (cs_packet_sorter_deadline S) :: ('a, 'b) connection_manager"
  let ?w1 = "w\<lparr>w_trace := w_trace w @ [UdpBind duplication_address]\<rparr>"
  let ?tun = "TunCreate ip (netmask (cs_tunnel_config S)) (mtu (cs_tunnel_config S))"
  obtain il psl cs where 2: "start_loggers (cs_interface_logger S) (cs_packet_sorter_logger S) ?w1 =
      Inr (il, psl, ?w1\<lparr>w_trace := w_trace ?w1 @ cs\<rparr>)" "datagrams_of cs = []"
    using start_loggers_granted [of ?w1 "cs_interface_logger S" "cs_packet_sorter_logger S"] assms(2) by auto
  let ?w3 = "w\<lparr>w_trace := w_trace w @ UdpBind duplication_address # cs @ [?tun]\<rparr>"
  have init: "client_init X ifs D S w = bindR (start_loop X ifs (server_id S) (interfaces S) ?cm ?w3) (\<lambda>(cm, w).
      Inr (\<lparr>interface_logging = il, sorter_logging = psl, log_debug = D\<rparr>, cm, w))"
    using 2(1) assms(2,5) i by (simp add: client_init_def obliging_steps tun_ipv4_def Let_def)
  let ?ep = "endpoint_new X (w_now w) (server_id S) (w_uuids w (w_uuid_count w)) (cs_packet_sorter_deadline S)"
  have new: "endpoints ?cm = []" "own_id ?cm = cs_peer_id S" "own_static_routes ?cm = ?routes"
    "packet_sorter_deadline ?cm = cs_packet_sorter_deadline S"
    by (simp_all add: connection_manager_new_def)
  have p: "opened_endpoint X (server_id S) ?cm ?w3 = ?ep" by (simp add: opened_endpoint_def new)
  obtain ep w5 where 5: "start_loop X ifs (server_id S) (interfaces S) ?cm ?w3 = Inr (set_endpoint (server_id S) ep ?cm, w5)"
    "started_on (interfaces S) ?ep ep" "sends_since ?w3 (greetings X ?cm (length (interfaces S)) ?ep) w5"
    using start_loop_granted [OF assms(1,3), of ?w3 ?cm "server_id S" ifs] assms(2,4) p by auto
  have ep: "session_id ep = w_uuids w (w_uuid_count w)" "hello_counter ep = of_nat (length (interfaces S))"
    "map shape (connections ep) = map starting (interfaces S)"
    using 5(2) by (simp_all add: started_on_def) (simp_all add: endpoint_new_def)
  have "session_id ?ep = w_uuids w (w_uuid_count w)" "hello_counter ?ep = 0" by (simp_all add: endpoint_new_def)
  then have sent: "map Some (datagrams_of (drop (length (w_trace w)) (w_trace w5))) =
      map (\<lambda>n. bincode_serialize X (hello_of ?cm (w_uuids w (w_uuid_count w)) (of_nat n))) [0..<length (interfaces S)]"
    using 5(3) 2(2) by (auto simp: sends_since_def greetings_def)
  have "client_init X ifs D S w = Inr (\<lparr>interface_logging = il, sorter_logging = psl, log_debug = D\<rparr>,
      set_endpoint (server_id S) ep ?cm, w5)"
    using init 5(1) by simp
  moreover have "endpoints (set_endpoint (server_id S) ep ?cm) = [(server_id S, ep)]"
    by (simp add: set_endpoint_def hm_insert_def new)
  ultimately show ?thesis
    using ep sent unfolding shape_def starting_def hello_of_def new by blast
qed

definition two_interfaces :: client_settings where
  "two_interfaces = demo_client_settings\<lparr>interfaces :=
     [\<lparr>if_interface_name = ''wlan0'', bind_address = V4 3 0, server_address = V4 2 40000\<rparr>,
      \<lparr>if_interface_name = ''wwan0'', bind_address = V4 4 0, server_address = V4 2 40000\<rparr>]\<rparr>"

theorem client_starts_on_every_interface_witness:
  "\<exists>L cm w' ep. client_init wire_deps [] (None :: nat f64 option) two_interfaces (demo_world (\<lambda>c n. Inr n)) = Inr (L, cm, w') \<and>
    endpoints cm = [(5, ep)] \<and>
    map (\<lambda>ce. (interface_name ce, interface_address ce, entry_state ce)) (connections ep) =
      [(''wlan0'', V4 2 40000, Startup), (''wwan0'', V4 2 40000, Startup)] \<and>
    length (datagrams_of (w_trace w')) = 2"
proof -
  have o: "obliging (demo_world (\<lambda>c n. Inr n))" by (simp add: obliging_def)
  have v: "v4_bound (interfaces two_interfaces)" by (simp add: v4_bound_def two_interfaces_def)
  have n: "interfaces two_interfaces \<noteq> []" and t: "tunnel_device_address (cs_tunnel_config two_interfaces) = Inl 0x0A0C0002"
    by (simp_all add: two_interfaces_def demo_client_settings_def)
  obtain L cm w' ep where c: "client_init wire_deps [] (None :: nat f64 option) two_interfaces (demo_world (\<lambda>c n. Inr n)) = Inr (L, cm, w')"
    "endpoints cm = [(server_id two_interfaces, ep)]"
    "map (\<lambda>ce. (interface_name ce, interface_address ce, entry_state ce)) (connections ep) =
      map (\<lambda>i. (if_interface_name i, server_address i, Startup)) (interfaces two_interfaces)"
    and d: "map Some (datagrams_of (drop (length (w_trace (demo_world (\<lambda>c n. Inr n)))) (w_trace w'))) =
      map (\<lambda>n. bincode_serialize wire_deps (Hello \<lparr>hello_id = cs_peer_id two_interfaces,
          hello_session_id = w_uuids (demo_world (\<lambda>c n. Inr n)) (w_uuid_count (demo_world (\<lambda>c n. Inr n))),
          hello_static_routes = Some (map route_of_config (static_routes two_interfaces) @
            [\<lparr>route_address = 0x0A0C0002, subnet_mask = netmask (cs_tunnel_config two_interfaces)\<rparr>]),
          hello_seq = of_nat n\<rparr>)) [0..<length (interfaces two_interfaces)]"
    using client_starts_on_every_interface [OF wire_laws(1) o v n t, of "[]" "None :: nat f64 option"] by blast
  from arg_cong [OF d, of length] have "length (datagrams_of (w_trace w')) = 2"
    by (simp add: two_interfaces_def)
  with c show ?thesis
    by (intro exI [of _ L] exI [of _ cm] exI [of _ w'] exI [of _ ep]) (simp add: two_interfaces_def demo_client_settings_def)
qed

end
