(* ===== verification/Server_Sessions.thy ===== *)
theory Server_Sessions
  imports Server Endpoint_Refinement Client_Start
begin

text \<open>
  Sessions over the life of a server: what its loop does to the sessions of the endpoints and to the history of those
  used.  The history only grows, and it is what keeps a registered endpoint from going back.
\<close>

section \<open>One turn\<close>

text \<open>
  What a turn may do to sessions.  The history grows at its end; an endpoint that is there before and after is in its
  old session or in one the history did not have.
\<close>

definition sessions_advance :: "('t, 'c) connection_manager \<Rightarrow> ('t, 'c) connection_manager \<Rightarrow> bool" where
  "sessions_advance cm cm' \<longleftrightarrow> (\<exists>new. session_history cm' = session_history cm @ new) \<and>
    (\<forall>k ep ep'. get_endpoint k cm = Some ep \<longrightarrow> get_endpoint k cm' = Some ep' \<longrightarrow>
      session_id ep' = session_id ep \<or> session_id ep' \<notin> set (session_history cm))"

definition sessions_kept :: "('t, 'c) connection_manager \<Rightarrow> ('t, 'c) connection_manager \<Rightarrow> bool" where
  "sessions_kept cm cm' \<longleftrightarrow> (sessions_recorded cm \<longrightarrow> sessions_recorded cm') \<and> sessions_advance cm cm'"

lemma sessions_kept_refl [simp]: "sessions_kept cm cm"
  by (auto simp: sessions_kept_def sessions_advance_def)

lemma session_step_advances: "session_step cm cm' \<Longrightarrow> sessions_advance cm cm'"
  by (fastforce simp: session_step_def sessions_advance_def)

text \<open>Operations that keep the history and every session; those that are left may be fewer.\<close>

lemma inherits_same_session: "inherits_by f cm cm' \<Longrightarrow> get_endpoint k cm = Some ep \<Longrightarrow> get_endpoint k cm' = Some ep' \<Longrightarrow>
    session_id ep' = session_id ep"
  unfolding inherits_by_def by fastforce

lemma inherits_recorded:
  "inherits_by f cm cm' \<Longrightarrow> session_history cm' = session_history cm \<Longrightarrow> sessions_recorded cm \<Longrightarrow> sessions_recorded cm'"
  unfolding inherits_by_def sessions_recorded_def hm_all_def by metis

lemma inherits_sessions_kept:
  assumes "inherits_by f cm cm'" "session_history cm' = session_history cm"
  shows "sessions_kept cm cm'"
  using inherits_recorded [OF assms] inherits_same_session [OF assms(1)] assms(2)
  by (auto simp: sessions_kept_def sessions_advance_def)

lemma sessions_kept_then:
  assumes "sessions_kept cm cm1" "inherits_by f cm1 cm'" "session_history cm' = session_history cm1"
  shows "sessions_kept cm cm'"
proof -
  have "session_id ep' = session_id ep \<or> session_id ep' \<notin> set (session_history cm)"
    if "get_endpoint k cm = Some ep" "get_endpoint k cm' = Some ep'" for k ep ep'
  proof -
    note get = that
    obtain ep1 where "get_endpoint k cm1 = Some ep1" "session_id ep' = session_id ep1"
      using assms(2) get(2) unfolding inherits_by_def by blast
    then show ?thesis using assms(1) get(1) by (simp add: sessions_kept_def sessions_advance_def)
  qed
  then show ?thesis
    using assms(1,3) inherits_recorded [OF assms(2,3)] by (simp add: sessions_kept_def sessions_advance_def)
qed

lemma hello_sessions_kept:
  assumes "received_from received w (\<lambda>(bytes, addr). handle_hello X bytes addr name cm w) = Some (Inr (cm', w'))"
  shows "sessions_kept cm cm'"
proof -
  obtain bytes addr where "handle_hello X bytes addr name cm w = Inr (cm', w')"
    using assms by (cases received) (auto simp: received_from_def split: if_splits)
  from handle_hello_session_step [OF this] show ?thesis by (simp add: sessions_kept_def session_step_advances)
qed

lemma server_turn_sessions:
  assumes "serializes X" "select_laws X" "cm_inv cm" "server_turn X L ev cm w = Some (Inr (cm', w'))"
  shows "sessions_kept cm cm'"
proof (cases "has_endpoints cm")
  case False
  then show ?thesis
    using assms(4) by (auto simp: server_turn_def split: server_event.splits intro: hello_sessions_kept)
next
  case True
  then obtain cm1 w1 where arm: "(case ev of
            NewConnection received \<Rightarrow>
              received_from received w (\<lambda>(bytes, addr). handle_hello X bytes addr ''DYN-interface'' cm w)
          | FlushInterfaceLog \<Rightarrow> Some (bindR (flush_logs L w) (\<lambda>w. Inr (cm, w)))
          | SharedEvent e \<Rightarrow> handle_event X L e cm w) = Some (Inr (cm1, w1))"
    and clean: "clean_up (cm1, w1) = Inr (cm', w')"
    using assms(4) by (auto simp: server_turn_def bindR_eq_Inr)
  have "sessions_kept cm cm1 \<and> cm_inv cm1"
  proof (cases ev)
    case (NewConnection received)
    then obtain bytes addr where "handle_hello X bytes addr ''DYN-interface'' cm w = Inr (cm1, w1)"
      using arm by (cases received) (auto simp: received_from_def split: if_splits)
    then have "cm_inv cm1" using handle_hello_outcome [OF assms(1,3), of w bytes addr "''DYN-interface''"] by simp
    then show ?thesis using arm NewConnection by (simp add: hello_sessions_kept)
  next
    case FlushInterfaceLog
    then show ?thesis using arm assms(3) by (auto simp: bindR_eq_Inr)
  next
    case (SharedEvent e)
    then have e: "handle_event X L e cm w = Some (Inr (cm1, w1))" using arm by simp
    have "keeps cm cm1" using handle_event_outcome [OF assms(1-3) e] by (simp add: good_def)
    moreover obtain f where "inherits_by f cm cm1"
      using handle_event_refines [OF assms(1-3) e] unfolding refines_def by blast
    ultimately show ?thesis by (auto simp: keeps_def intro: inherits_sessions_kept)
  qed
  moreover from this have g: "good cm1 w1 (cm1, w1)" by (simp add: good_def keeps_refl)
  have "session_history cm' = session_history cm1"
    using clean_up_outcome [OF g] clean by (simp add: good_def keeps_def)
  ultimately show ?thesis using inherits_clean_up [of cm1 w1 cm' w'] clean sessions_kept_then by blast
qed

lemma server_step_sessions:
  assumes "serializes X" "select_laws X" "cm_inv (fst s)" "server_step X L s (Inr s')"
  shows "sessions_kept (fst s) (fst s')"
proof -
  obtain cm w where s: "s = (cm, w)" by (cases s)
  from assms(4) show ?thesis unfolding s
  proof (rule server_stepE)
    fix ev assume "server_turn X L ev cm w = Some (Inr s')"
    then show "sessions_kept (fst (cm, w)) (fst s')"
      using server_turn_sessions [OF assms(1,2), of cm L ev w "fst s'" "snd s'"] assms(3) s by simp
  qed simp
qed

lemma server_sessions_recorded:
  assumes "serializes X" "select_laws X"
  shows "server_reachable X D S w L s \<Longrightarrow> sessions_recorded (fst s)"
proof (induction rule: server_reachable.induct)
  case (start L cm v)
  from outcome_Inr [OF server_init_outcome start] show ?case
    by (simp add: started_def sessions_recorded_def hm_all_def)
next
  case (step L s s')
  have "cm_inv (fst s)" using server_inv_reachable [OF assms step.hyps(1)] by (simp add: server_inv_def)
  from server_step_sessions [OF assms this step.hyps(2)] step.IH show ?case by (simp add: sessions_kept_def)
qed

section \<open>While an endpoint stays registered\<close>

text \<open>A run of the server after every step of which endpoint \<open>k\<close> is registered.\<close>

inductive registered_run ::
  "('t, 'c) deps \<Rightarrow> 'f loop_config \<Rightarrow> endpoint_id \<Rightarrow> ('t, 'c) connection_manager \<times> world \<Rightarrow>
    ('t, 'c) connection_manager \<times> world \<Rightarrow> bool"
  for X :: "('t, 'c) deps" and L :: "'f loop_config" and k :: endpoint_id and s\<^sub>0 :: "('t, 'c) connection_manager \<times> world" where
  here: "get_endpoint k (fst s\<^sub>0) \<noteq> None \<Longrightarrow> registered_run X L k s\<^sub>0 s\<^sub>0"
| more: "registered_run X L k s\<^sub>0 s \<Longrightarrow> server_step X L s (Inr s') \<Longrightarrow> get_endpoint k (fst s') \<noteq> None \<Longrightarrow>
    registered_run X L k s\<^sub>0 s'"

text \<open>A session that was used stays used, and the endpoint does not enter it again.\<close>

lemma registered_run_sessions:
  assumes "serializes X" "select_laws X" "server_reachable X D S w L s\<^sub>0"
  shows "registered_run X L k s\<^sub>0 s \<Longrightarrow> server_reachable X D S w L s \<and> get_endpoint k (fst s) \<noteq> None \<and>
    (\<forall>ep\<^sub>0 ep sid. get_endpoint k (fst s\<^sub>0) = Some ep\<^sub>0 \<longrightarrow> get_endpoint k (fst s) = Some ep \<longrightarrow>
      sid \<in> set (session_history (fst s\<^sub>0)) \<longrightarrow> sid \<in> set (session_history (fst s)) \<and>
        (session_id ep\<^sub>0 \<noteq> sid \<longrightarrow> session_id ep \<noteq> sid))"
proof (induction rule: registered_run.induct)
  case here
  then show ?case using assms(3) by simp
next
  case (more s s')
  have "server_reachable X D S w L s" using more.IH by blast
  from server_inv_reachable [OF assms(1,2) this] have "cm_inv (fst s)" by (simp add: server_inv_def)
  from server_step_sessions [OF assms(1,2) this more.hyps(2)] have a: "sessions_advance (fst s) (fst s')"
    by (simp add: sessions_kept_def)
  obtain ep1 where ep1: "get_endpoint k (fst s) = Some ep1" using more.IH by blast
  have "server_reachable X D S w L s'" using more.IH more.hyps(2) by (blast intro: server_reachable.step)
  moreover have "sid \<in> set (session_history (fst s')) \<and> (session_id ep\<^sub>0 \<noteq> sid \<longrightarrow> session_id ep \<noteq> sid)"
    if "get_endpoint k (fst s\<^sub>0) = Some ep\<^sub>0" "get_endpoint k (fst s') = Some ep" "sid \<in> set (session_history (fst s\<^sub>0))"
    for ep\<^sub>0 ep sid
  proof -
    have 1: "sid \<in> set (session_history (fst s))" "session_id ep\<^sub>0 \<noteq> sid \<longrightarrow> session_id ep1 \<noteq> sid"
      using more.IH ep1 that(1,3) by blast+
    have "session_id ep = session_id ep1 \<or> session_id ep \<notin> set (session_history (fst s))"
      using a ep1 that(2) unfolding sessions_advance_def by blast
    moreover have "set (session_history (fst s)) \<subseteq> set (session_history (fst s'))"
      using a by (auto simp: sessions_advance_def)
    ultimately show ?thesis using 1 by auto
  qed
  ultimately show ?case using more.hyps(3) by blast
qed

text \<open>
  C10: As long as an endpoint stays registered with a server, it never returns to a session it has left: whatever
  datagrams, packets, commands, timeouts and clock readings the turns in between bring, from this endpoint and from others.
  (Once it has been removed it may; that is a property of its own.)
\<close>

theorem superseded_session_never_returns:
  assumes "serializes X" and "select_laws X" and "server_reachable X D S w\<^sub>0 L s"
    and "registered_run X L k s s1" and "registered_run X L k s1 s2"
    and "get_endpoint k (fst s) = Some ep" and "get_endpoint k (fst s1) = Some ep1" and "get_endpoint k (fst s2) = Some ep2"
    and "session_id ep1 \<noteq> session_id ep"
  shows "session_id ep2 \<noteq> session_id ep"
proof -
  have "session_id ep \<in> set (session_history (fst s))"
    using server_sessions_recorded [OF assms(1-3)] assms(6) by (auto simp: sessions_recorded_def hm_all_def)
  then have "server_reachable X D S w\<^sub>0 L s1" "session_id ep \<in> set (session_history (fst s1))"
    using registered_run_sessions [OF assms(1-4)] assms(6,7) by blast+
  with registered_run_sessions [OF assms(1,2) _ assms(5)] assms(7-9) show ?thesis by blast
qed

text \<open>A kernel that grants every call: the first path of an endpoint is connected at once.\<close>

lemma accept_granted:
  assumes "serializes X" "obliging w" "connections ep = []"
  shows "\<exists>ep' ce w'. accept_path X addr name cm ep w = Inr (ep', w') \<and> connections ep' = [ce] \<and>
    entry_state ce = Connected \<and> extends w w'"
proof -
  let ?ack = "\<lambda>n. HelloAck \<lparr>ack_id = own_id cm, ack_session_id = session_id ep, ack_static_routes = own_static_routes cm, ack_seq = n\<rparr>"
  obtain b c where "bincode_serialize X (?ack (hello_ack_counter ep)) = Some b"
    "bincode_serialize X (?ack (hello_ack_counter ep + 1)) = Some c"
    using serializesD [OF assms(1)] by metis
  then show ?thesis
    using assms(2,3)
    by (simp add: accept_path_def add_connection_def open_dynamic_socket_def connection_new_def acknowledge_def
        ack_entry_def connection_write_def obliging_steps set_state_def Let_def extends_def)
qed

text \<open>A server that is greeted in session 79, then in session 80.\<close>

definition session_deps :: "(instant option, nat \<times> packet list) deps" where
  "session_deps = demo_deps\<lparr>bincode_deserialize := (\<lambda>bs. Some (Hello
     \<lparr>hello_id = 5, hello_session_id = (if bs = [3] then 79 else 80), hello_static_routes = None, hello_seq = 0\<rparr>))\<rparr>"

lemma session_deps_ok: "serializes session_deps" "select_laws session_deps"
  using demo_serializes demo_select_laws by (simp_all add: session_deps_def serializes_def select_laws_def)

text \<open>The server with one endpoint, in the last of the sessions used.\<close>

definition only_in :: "endpoint_id \<Rightarrow> uuid list \<Rightarrow> uuid \<Rightarrow> ('t, 'c) connection_manager \<Rightarrow> bool" where
  "only_in k used sid cm \<longleftrightarrow> session_history cm = used @ [sid] \<and> (\<exists>ep. endpoints cm = [(k, ep)] \<and> session_id ep = sid)"

lemma granted_hello:
  assumes "serializes X" "obliging w" "bincode_deserialize X m = Some (Hello h)"
    and "endpoints cm = [] \<and> session_history cm = used \<or>
      used = before @ [sid] \<and> only_in (hello_id h) before sid cm \<and> hello_session_id h \<notin> set used"
  shows "\<exists>cm' w'. server_turn X L (NewConnection (Inr (m, addr))) cm w = Some (Inr (cm', w')) \<and>
    only_in (hello_id h) used (hello_session_id h) cm' \<and> obliging w'"
proof -
  let ?cm = "ensure_endpoint X (w_now w) h cm"
  let ?new = "endpoint_new X (w_now w) (hello_id h) (hello_session_id h) (packet_sorter_deadline cm)"
  obtain ep where ep: "endpoints ?cm = [(hello_id h, ep)]"
    and adm: "admit_session X (w_now w) h ep ?cm = Some (?new, used @ [hello_session_id h])"
    using assms(4)
    by (auto simp: ensure_endpoint_def hm_contains_key_def set_endpoint_def hm_insert_def admit_session_def only_in_def endpoint_new_start)
  obtain ep' ce w' where a: "accept_path X addr ''DYN-interface'' ?cm ?new w = Inr (ep', w')" "connections ep' = [ce]"
    "entry_state ce = Connected" "extends w w'"
    using accept_granted [OF assms(1,2), of ?new addr "''DYN-interface''" ?cm] by (auto simp: endpoint_new_start)
  let ?cm' = "(set_endpoint (hello_id h) ep' ?cm)\<lparr>session_history := used @ [hello_session_id h],
    routes := learn_routes (hello_static_routes h) (hello_id h) (routes cm)\<rparr>"
  have "handle_hello X m addr ''DYN-interface'' cm w = Inr (?cm', w')"
    using assms(3) ep adm a(1) by (simp add: handle_hello_def Let_def)
  moreover have e: "endpoints ?cm' = [(hello_id h, ep')]" by (simp add: set_endpoint_def hm_insert_def ep)
  then have "disconnected_paths ?cm' = []" by (simp add: disconnected_paths_def a(2,3))
  then have "clean_up (?cm', w') = Inr (?cm', w')" by (simp add: clean_up_def remove_disconnected_def)
  ultimately have "server_turn X L (NewConnection (Inr (m, addr))) cm w = Some (Inr (?cm', w'))"
    by (simp add: server_turn_def received_from_def)
  moreover have "session_id ep' = hello_session_id h"
    using accept_path_frame [OF a(1)] by (simp add: ep_frame_def endpoint_new_start)
  ultimately show ?thesis
    using e obliging_extends [OF a(4)] assms(2) by (auto simp: only_in_def)
qed

theorem superseded_session_never_returns_witness:
  "\<exists>s s1 ep ep1. server_reachable session_deps None demo_settings (demo_world (\<lambda>c n. Inr n)) no_logs s \<and>
    get_endpoint 5 (fst s) = Some ep \<and> session_id ep = 79 \<and>
    registered_run session_deps no_logs 5 s s1 \<and> get_endpoint 5 (fst s1) = Some ep1 \<and> session_id ep1 = 80 \<and>
    (\<forall>s2 ep2. registered_run session_deps no_logs 5 s1 s2 \<longrightarrow> get_endpoint 5 (fst s2) = Some ep2 \<longrightarrow> session_id ep2 \<noteq> 79)"
proof -
  let ?w = "demo_world (\<lambda>c n. Inr n)"
  let ?h = "\<lambda>sid. \<lparr>hello_id = 5, hello_session_id = sid, hello_static_routes = None, hello_seq = 0\<rparr>"
  have d: "bincode_deserialize session_deps [3] = Some (Hello (?h 79))" "bincode_deserialize session_deps [4] = Some (Hello (?h 80))"
    by (simp_all add: session_deps_def)
  have o: "obliging (demo_started ?w)" by (simp add: obliging_def demo_started_def)
  have g: "server_reachable session_deps None demo_settings ?w no_logs (demo_server, demo_started ?w)"
    by (rule server_reachable.start [OF demo_server_init]) (simp add: grants_start_def)
  have new: "endpoints demo_server = []" "session_history demo_server = []"
    by (simp_all add: demo_server_def connection_manager_new_def)
  obtain cm v where 1: "server_turn session_deps no_logs (NewConnection (Inr ([3], V4 3 5))) demo_server (demo_started ?w) = Some (Inr (cm, v))"
    "only_in 5 [] 79 cm" "obliging v"
    using granted_hello [OF session_deps_ok(1) o d(1), of demo_server "[]" "[]" 0 no_logs "V4 3 5"] new by auto
  obtain cm1 v1 where 2: "server_turn session_deps no_logs (NewConnection (Inr ([4], V4 3 5))) cm v = Some (Inr (cm1, v1))"
    "only_in 5 [79] 80 cm1"
    using granted_hello [OF session_deps_ok(1) 1(3) d(2), of cm "[79]" "[]" 79 no_logs "V4 3 5"] 1(2) by auto
  have r: "server_reachable session_deps None demo_settings ?w no_logs (cm, v)"
    by (rule server_reachable.step [OF g server_step.turn [OF 1(1)]])
  obtain ep where ep: "get_endpoint 5 (fst (cm, v)) = Some ep" "session_id ep = 79" using 1(2) by (auto simp: only_in_def)
  obtain ep1 where ep1: "get_endpoint 5 (fst (cm1, v1)) = Some ep1" "session_id ep1 = 80" using 2(2) by (auto simp: only_in_def)
  have run: "registered_run session_deps no_logs 5 (cm, v) (cm1, v1)"
    by (rule registered_run.more [OF registered_run.here server_step.turn [OF 2(1)]]) (simp_all add: ep [simplified] ep1 [simplified])
  have n: "session_id ep1 \<noteq> session_id ep" by (simp add: ep(2) ep1(2))
  have "session_id ep2 \<noteq> 79" if "registered_run session_deps no_logs 5 (cm1, v1) s2" "get_endpoint 5 (fst s2) = Some ep2" for s2 ep2
    using superseded_session_never_returns [OF session_deps_ok r run that(1) ep(1) ep1(1) that(2) n] by (simp add: ep(2))
  then show ?thesis using r ep run ep1 by blast
qed

end
