(* ===== verification/End_To_End.thy ===== *)
theory End_To_End
  imports Endpoint_Refinement Server Client Wire_Instance "HOL-Library.Sublist"
begin

text \<open>
  The client and the server together: what one reads from its tunnel device for the other comes out of the
  other's tunnel device in the order it was read, without duplicates and unchanged, whatever the network does
  to the datagrams in between and whatever else the two programs handle meanwhile.
\<close>

section \<open>Numbered packets\<close>

lemma strictly_sorted_subseq:
  fixes f :: "'a \<Rightarrow> 'b :: linorder"
  assumes "sorted_wrt (\<lambda>x y. f x < f y) xs" "sorted_wrt (\<lambda>x y. f x < f y) ys" "set xs \<subseteq> set ys"
  shows "subseq xs ys"
  using assms
proof (induction ys arbitrary: xs)
  case (Cons y ys)
  show ?case
  proof (cases xs)
    case (Cons x xs')
    have tl: "set xs' \<subseteq> set ys" if "x = y"
      using Cons.prems Cons that by auto
    have "x = y \<or> set xs \<subseteq> set ys"
    proof (rule ccontr)
      assume n: "\<not> (x = y \<or> set xs \<subseteq> set ys)"
      then have "x \<in> set ys" "y \<in> set xs'" using Cons.prems(3) Cons by auto
      then show False using Cons.prems(1,2) Cons by force
    qed
    then show ?thesis
      using Cons.IH [of xs'] Cons.IH [of xs] Cons.prems Cons tl by auto
  qed simp
qed simp

lemma numbered_seqs:
  "p \<in> set (numbered n k bss) \<Longrightarrow> unat n + length bss < 2 ^ 64 \<Longrightarrow>
    unat n \<le> unat (pkt_seq p) \<and> unat (pkt_seq p) < unat n + length bss"
proof (induction n k bss rule: numbered.induct)
  case (2 n k bytes bss)
  have "unat (n + 1) = unat n + 1"
    using "2.prems"(2) by (subst unat_add_lem [THEN iffD1]) simp_all
  then show ?case using 2 by auto
qed simp

lemma numbered_sorted:
  "unat n + length bss < 2 ^ 64 \<Longrightarrow> sorted_wrt (\<lambda>p q. pkt_seq p < pkt_seq q) (numbered n k bss)"
proof (induction n k bss rule: numbered.induct)
  case (2 n k bytes bss)
  have u: "unat (n + 1) = unat n + 1"
    using "2.prems" by (subst unat_add_lem [THEN iffD1]) simp_all
  then have "unat n < unat (pkt_seq p)" if "p \<in> set (numbered (n + 1) k bss)" for p
    using numbered_seqs [OF that] "2.prems" by simp
  then show ?case using 2 u by (auto simp: word_less_nat_alt)
qed simp

lemma numbered_bytes: "map pkt_bytes (numbered n k bss) = bss"
  by (induction n k bss rule: numbered.induct) simp_all

lemma numbered_not_last: "p \<in> set (numbered n k bss) \<Longrightarrow> unat n + length bss < 2 ^ 64 \<Longrightarrow> pkt_seq p \<noteq> - 1"
  using numbered_seqs [of p n k bss] by (auto simp: unsigned_minus_1_eq_mask mask_eq_exp_minus_1)

lemma ordered_packets_subseq:
  assumes "sorted_wrt (<) (seqs ps)" "\<forall>p\<in>set ps. p \<in> set (numbered n k bss)" "unat n + length bss < 2 ^ 64"
  shows "subseq (map pkt_bytes ps) bss"
proof -
  have "subseq ps (numbered n k bss)"
    using assms numbered_sorted [OF assms(3)]
    by (intro strictly_sorted_subseq [where f = pkt_seq]) (auto simp: seqs_def sorted_wrt_map)
  from subseq_map [OF this, of pkt_bytes] show ?thesis by (simp add: numbered_bytes)
qed

section \<open>The server refines its endpoints\<close>

definition server_shared :: "server_event \<Rightarrow> event option" where
  "server_shared ev = (case ev of SharedEvent e \<Rightarrow> Some e | _ \<Rightarrow> None)"

definition loop_inv :: "('t, 'c) deps \<Rightarrow> ('t, 'c) connection_manager \<Rightarrow> bool" where
  "loop_inv X cm \<longleftrightarrow> serializes X \<and> select_laws X \<and> cm_inv cm"

lemma hello_refines:
  assumes "loop_inv X cm" "received_from received w (\<lambda>(bytes, addr). handle_hello X bytes addr name cm w) = Some (Inr (cm', w'))"
  shows "turn_refines X None cm w cm' w' \<and> cm_inv cm'"
proof -
  obtain bytes addr where h: "handle_hello X bytes addr name cm w = Inr (cm', w')"
    using assms(2) by (cases received) (auto simp: received_from_def split: if_splits)
  have "outcome (\<lambda>p. p = UnwrapErr \<and> refuses w) (\<lambda>(cm', w'). cm_inv cm' \<and> extends w w') (handle_hello X bytes addr name cm w)"
    using assms(1) by (intro handle_hello_outcome) (simp_all add: loop_inv_def)
  then show ?thesis
    using handle_hello_continues [OF h] by (auto simp: h intro: turn_refines_none)
qed

lemma event_refines:
  assumes "loop_inv X cm" "handle_event X L e cm w = Some (Inr (cm', w'))"
  shows "turn_refines X (Some e) cm w cm' w' \<and> cm_inv cm'"
  using assms handle_event_refines [of X cm L e w cm' w'] handle_event_outcome [of X cm L e w "Inr (cm', w')"]
  by (auto simp: loop_inv_def good_def dest: keeps_inv intro: turn_refines_event)

lemma clean_refines:
  assumes "turn_refines X oe cm w cm1 w1 \<and> cm_inv cm1" "clean_up (cm1, w1) = Inr (cm', w')"
  shows "turn_refines X oe cm w cm' w' \<and> cm_inv cm'"
proof -
  have "good cm1 w1 (cm1, w1)" using assms(1) by (simp add: good_def keeps_refl)
  from clean_up_outcome [OF this] assms(2) have "cm_inv cm'" by (auto simp: good_def dest: keeps_inv)
  then show ?thesis
    using inherits_clean_up [of cm1 w1 cm' w'] assms by (auto intro: turn_refines_then)
qed

lemma server_turn_refines:
  assumes "loop_inv X cm" "server_turn X L ev cm w = Some (Inr (cm', w'))"
  shows "turn_refines X (server_shared ev) cm w cm' w' \<and> cm_inv cm'"
proof (cases "has_endpoints cm")
  case False
  then show ?thesis
    using assms hello_refines [OF assms(1)]
    by (auto simp: server_turn_def server_shared_def split: server_event.splits)
next
  case True
  then obtain cm1 w1 where arm: "(case ev of
            NewConnection received \<Rightarrow>
              received_from received w (\<lambda>(bytes, addr). handle_hello X bytes addr ''DYN-interface'' cm w)
          | FlushInterfaceLog \<Rightarrow> Some (bindR (flush_logs L w) (\<lambda>w. Inr (cm, w)))
          | SharedEvent e \<Rightarrow> handle_event X L e cm w) = Some (Inr (cm1, w1))"
    and clean: "clean_up (cm1, w1) = Inr (cm', w')"
    using assms(2) by (auto simp: server_turn_def bindR_eq_Inr)
  have "turn_refines X (server_shared ev) cm w cm1 w1 \<and> cm_inv cm1"
  proof (cases ev)
    case (NewConnection received)
    then show ?thesis using arm hello_refines [OF assms(1)] by (simp add: server_shared_def)
  next
    case FlushInterfaceLog
    then show ?thesis
      using arm assms(1) flush_logs_quiet [of L w w1 X]
      by (auto simp: server_shared_def bindR_eq_Inr loop_inv_def continues_by_def intro: turn_refines_none)
  next
    case (SharedEvent e)
    then show ?thesis using arm event_refines [OF assms(1)] by (simp add: server_shared_def)
  qed
  then show ?thesis by (rule clean_refines [OF _ clean])
qed

interpretation server_loop: refining_loop "server_turn X L" server_shared X "loop_inv X"
  for X :: "('t, 'c) deps" and L :: "'f loop_config"
  by unfold_locales (use server_turn_refines in \<open>fastforce simp: loop_inv_def\<close>)+

section \<open>The client refines its endpoints\<close>

definition client_shared :: "client_event \<Rightarrow> event option" where
  "client_shared ev = (case ev of ClientEvent e \<Rightarrow> Some e | _ \<Rightarrow> None)"

lemma restart_preserves:
  "restart_loop X ifs server is cm w = Inr (cm', w') \<Longrightarrow> preserves cm cm' \<and> quiet X w w'"
proof (induction X ifs server "is" cm w rule: restart_loop.induct)
  case (2 X ifs server i "is" cm w)
  then obtain r cm1 w1 where 1: "create_new_connection X ifs (if_interface_name i) (bind_address i) (server_address i)
      server cm w = Inr (r, cm1, w1)" and 2: "restart_loop X ifs server is cm1 w1 = Inr (cm', w')"
    by (auto simp: bindR_eq_Inr)
  then show ?case using create_preserves [OF 1] "2.IH" [OF 2] by (auto intro: preserves_trans quiet_trans)
qed simp

lemma keepalive_preserves:
  assumes "keepalive X ifs s L cm w = Inr (cm', w')"
  shows "preserves cm cm' \<and> quiet X w w'"
proof -
  obtain cm1 w1 w2 where 1: "greet_all_endpoints X cm w = Inr (cm1, w1)"
    and 2: "ensure_endpoint_connections X ifs (server_id s) (connection_infos s) cm1 w1 = Inr (cm', w2)"
    and 3: "flush_logs L w2 = Inr w'"
    using assms by (auto simp: keepalive_def bindR_eq_Inr)
  have "preserves cm1 cm' \<and> quiet X w1 w2"
    using 2 by (auto simp: ensure_endpoint_connections_def split: option.splits dest: reopen_preserves)
  then show ?thesis
    using greet_all_preserves [OF 1] flush_logs_quiet [OF 3]
    by (blast intro: preserves_trans quiet_trans)
qed

definition client_loop_inv :: "('t, 'c) deps \<Rightarrow> client_settings \<Rightarrow> ('t, 'c) connection_manager \<Rightarrow> bool" where
  "client_loop_inv X S cm \<longleftrightarrow> loop_inv X cm \<and> v4_bound (interfaces S)"

lemma preserves_refines:
  "preserves cm cm' \<and> quiet X w w' \<Longrightarrow> turn_refines X None cm w cm' w'"
  by (auto intro: turn_refines_none preserves_continues)

lemma client_turn_refines:
  assumes "client_loop_inv X S cm" "client_turn X ifs S L ev cm w = Some (Inr (cm', w'))"
  shows "turn_refines X (client_shared ev) cm w cm' w' \<and> cm_inv cm'"
proof -
  have inv: "serializes X" "select_laws X" "cm_inv cm" "v4_bound (interfaces S)" and l: "loop_inv X cm"
    using assms(1) by (simp_all add: client_loop_inv_def loop_inv_def)
  have "cm_inv cm'"
    using client_turn_outcome [OF inv assms(2)] by (simp add: client_ok_def)
  moreover have "turn_refines X (client_shared ev) cm w cm' w'"
  proof (cases "has_endpoints cm")
    case False
    then show ?thesis
      using assms(2) restart_preserves [of X ifs "server_id S" "interfaces S" cm w cm' w']
      by (auto simp: client_turn_def client_shared_def preserves_refines split: client_event.splits)
  next
    case True
    then obtain cm1 w1 where arm: "(case ev of
            SendKeepalive \<Rightarrow> Some (keepalive X ifs S L cm w)
          | ClientEvent e \<Rightarrow> handle_event X L e cm w
          | Restart \<Rightarrow> None) = Some (Inr (cm1, w1))"
      and clean: "clean_up (cm1, w1) = Inr (cm', w')"
      using assms(2) by (auto simp: client_turn_def bindR_eq_Inr)
    have "turn_refines X (client_shared ev) cm w cm1 w1 \<and> cm_inv cm1"
    proof (cases ev)
      case SendKeepalive
      then show ?thesis
        using arm keepalive_preserves [of X ifs S L cm w cm1 w1] keepalive_outcome [OF inv(1,3,4), of w ifs L]
        by (auto simp: client_shared_def client_ok_def preserves_refines)
    next
      case (ClientEvent e)
      then show ?thesis using arm event_refines [OF l] by (simp add: client_shared_def)
    qed (use arm in simp)
    from clean_refines [OF this clean] show ?thesis by simp
  qed
  ultimately show ?thesis by simp
qed

interpretation client_loop: refining_loop "client_turn X ifs S L" client_shared X "client_loop_inv X S"
  for X :: "('t, 'c) deps" and ifs :: Connection.interfaces and S :: client_settings and L :: "'f loop_config"
  by unfold_locales (use client_turn_refines in \<open>fastforce simp: client_loop_inv_def loop_inv_def\<close>)+

section \<open>From tunnel to tunnel\<close>

text \<open>
  The argument for both directions: numbered when sent, ordered when taken out.
\<close>

lemma in_order:
  assumes sent: "\<forall>p. sent_to D k w w' p \<longrightarrow> p \<in> set (numbered n k ins)" "unat n + length ins < 2 ^ 64"
    and got: "(\<And>p. sent_to D k w w' p \<Longrightarrow> pkt_seq p \<noteq> - 1) \<Longrightarrow>
      sorted_wrt (<) (seqs ps) \<and> (\<forall>p\<in>set ps. sent_to D k w w' p) \<and> R"
  shows "subseq (map pkt_bytes ps) ins \<and> R"
proof -
  have "pkt_seq p \<noteq> - 1" if "sent_to D k w w' p" for p
    using sent that numbered_not_last by blast
  from got [OF this] have g: "sorted_wrt (<) (seqs ps)" "\<forall>p\<in>set ps. p \<in> set (numbered n k ins)" R
    using sent(1) by auto
  show ?thesis using ordered_packets_subseq [OF g(1,2) sent(2)] g(3) by simp
qed

text \<open>
  C1: From the client's tunnel device to the server's, within one session: for as long as the client keeps its session with endpoint
  \<open>k\<close> (the server) and the server keeps endpoint \<open>j\<close> (the client) registered in its session, which it enters with a
  fresh sorter, and fewer than \<open>2 ^ 64\<close> packets are numbered.  Whatever else both loops
  do in that time, what the server writes to its tunnel device for \<open>j\<close> is a subsequence of what the client read from its
  own for \<open>k\<close>: the same bytes, in the same order, nothing twice and nothing invented, and the server
  writes nothing but what it takes out of its sorters.  The
  network may lose, repeat, delay and reorder; it is only assumed not to deliver to \<open>j\<close> data packets that
  the client did not send to \<open>k\<close>, and both sides to agree on the encoding.
\<close>

theorem client_to_server_in_order:
  assumes "decodes X (bincode_deserialize Y)" and "channel_laws Y contents cap"
    and "session_run (client_turn X ifs S L) client_shared X k sid (\<lambda>p. True) (cc, cw) ins outs (cc', cw')"
    and "client_loop_inv X S cc" and "get_endpoint k cc = Some ce" and "session_id ce = sid"
    and "unat (tx_counter ce) + length ins < 2 ^ 64"
    and "session_run (server_turn Y M) server_shared Y j sid' (sent_to (bincode_deserialize Y) k cw cw')
      (sc, sw) ins' out (sc', sw')"
    and "loop_inv Y sc" and "get_endpoint j sc = Some se" and "session_id se = sid'"
    and "packet_sorter se = packet_sorter_new Y t d"
  shows "subseq (map pkt_bytes (of_endpoint j out)) ins \<and> tun_written sw' = tun_written sw @ written out"
proof (rule in_order [OF _ assms(7)])
  show "\<forall>p. sent_to (bincode_deserialize Y) k cw cw' p \<longrightarrow> p \<in> set (numbered (tx_counter ce) k ins)"
    using client_loop.run_sent [OF assms(3) _ _ assms(6,1)] assms(4,5) by simp
  assume "\<And>p. sent_to (bincode_deserialize Y) k cw cw' p \<Longrightarrow> pkt_seq p \<noteq> - 1"
  from server_loop.run_ordered [OF assms(8,2) _ _ assms(11,12) this]
  show "sorted_wrt (<) (seqs (of_endpoint j out)) \<and> (\<forall>p\<in>set (of_endpoint j out). sent_to (bincode_deserialize Y) k cw cw' p) \<and>
      tun_written sw' = tun_written sw @ written out"
    using assms(9,10) by simp
qed

text \<open>
  C2: And from the server's tunnel device to the client's, in the same way and within the same bounds: the server keeps
  the endpoint of the client registered in one session, the client keeps its own with the server and starts it with a fresh sorter, and
  fewer than \<open>2 ^ 64\<close> packets are numbered.  An endpoint that is removed and greeted again numbers from 0 once more, and nothing is
  claimed across that.
\<close>

theorem server_to_client_in_order:
  assumes "decodes Y (bincode_deserialize X)" and "channel_laws X contents cap"
    and "session_run (server_turn Y M) server_shared Y j sid (\<lambda>p. True) (sc, sw) ins outs (sc', sw')"
    and "loop_inv Y sc" and "get_endpoint j sc = Some se" and "session_id se = sid"
    and "unat (tx_counter se) + length ins < 2 ^ 64"
    and "session_run (client_turn X ifs S L) client_shared X k sid' (sent_to (bincode_deserialize X) j sw sw')
      (cc, cw) ins' out (cc', cw')"
    and "client_loop_inv X S cc" and "get_endpoint k cc = Some ce" and "session_id ce = sid'"
    and "packet_sorter ce = packet_sorter_new X t d"
  shows "subseq (map pkt_bytes (of_endpoint k out)) ins \<and> tun_written cw' = tun_written cw @ written out"
proof (rule in_order [OF _ assms(7)])
  show "\<forall>p. sent_to (bincode_deserialize X) j sw sw' p \<longrightarrow> p \<in> set (numbered (tx_counter se) j ins)"
    using server_loop.run_sent [OF assms(3) _ _ assms(6,1)] assms(4,5) by simp
  assume "\<And>p. sent_to (bincode_deserialize X) j sw sw' p \<Longrightarrow> pkt_seq p \<noteq> - 1"
  from client_loop.run_ordered [OF assms(8,2) _ _ assms(11,12) this]
  show "sorted_wrt (<) (seqs (of_endpoint k out)) \<and> (\<forall>p\<in>set (of_endpoint k out). sent_to (bincode_deserialize X) j sw sw' p) \<and>
      tun_written cw' = tun_written cw @ written out"
    using assms(9,10) by simp
qed

section \<open>Two programs at work\<close>

definition wire_endpoint :: "endpoint_id \<Rightarrow> u64 \<Rightarrow> (instant option, nat \<times> packet list) packet_sorter \<Rightarrow>
    (instant option, nat \<times> packet list) endpoint" where
  "wire_endpoint k n s = (demo_endpoint [demo_entry 3 ''veth1'' Connected])\<lparr>ep_id := k, tx_counter := n, packet_sorter := s\<rparr>"

definition wire_manager :: "endpoint_id \<Rightarrow> u64 \<Rightarrow> (instant option, nat \<times> packet list) packet_sorter \<Rightarrow>
    (instant option, nat \<times> packet list) connection_manager" where
  "wire_manager k n s = demo_manager [(k, wire_endpoint k n s)] [demo_route k]"

definition granted :: "syscall list \<Rightarrow> world" where
  "granted tr = (demo_world (\<lambda>c n. Inr n))\<lparr>w_trace := tr\<rparr>"

lemma granted_simps [simp]:
  "sys c (granted tr) = (Inr (length tr), granted (tr @ [c]))"
  "w_now (granted tr) = 10" "w_trace (granted tr) = tr"
  by (simp_all add: granted_def sys_def)

definition wire_packet :: "endpoint_id \<Rightarrow> u64 \<Rightarrow> u8 list \<Rightarrow> packet" where
  "wire_packet k n bytes = \<lparr>pkt_seq = n, pkt_id = k, pkt_bytes = bytes\<rparr>"

lemma wire_manager_inv: "sorter_inv s \<Longrightarrow> cm_inv (wire_manager k n s)"
  by (simp add: wire_manager_def wire_endpoint_def cm_inv_def hm_inv_def hm_all_def endpoint_ok_def has_socket_def
      endpoint_new_def latency_inv_new route_targets_def router_inv_def defaults_last_def is_default_route_def)

lemma wire_clean: "clean_up (wire_manager k n s, w) = Inr (wire_manager k n s, w)"
  by (simp add: clean_up_def remove_disconnected_def disconnected_paths_def wire_manager_def wire_endpoint_def)

lemma wire_select: "select_endpoint wire_deps 0 (wire_manager k n s) = Inr (k, wire_endpoint k n s)"
  by (simp add: select_endpoint_def candidates_def wire_manager_def wire_endpoint_def has_connections_def
      wire_deps_def ref_deps_def)

lemma wire_has: "has_endpoints (wire_manager k n s)"
  by (simp add: has_endpoints_def wire_manager_def)

lemma wire_get: "get_endpoint k (wire_manager k n s) = Some (wire_endpoint k n s)"
  by (simp add: wire_manager_def)

text \<open>One event at a time: a packet is read from the tunnel, a datagram arrives, a packet is taken out.\<close>

lemma wire_tun:
  "handle_event wire_deps no_logs (TunnelPacket (Inr bytes)) (wire_manager k n s) (granted tr) =
    Some (Inr (wire_manager k (n + 1) s, granted (tr @ [Send 3 (encode (Packet (wire_packet k n bytes)))])))"
proof -
  have "tun_to_endpoint wire_deps bytes k (wire_manager k n s) (granted tr) =
      Inr (wire_manager k (n + 1) s, granted (tr @ [Send 3 (encode (Packet (wire_packet k n bytes)))]))"
    by (simp add: tun_to_endpoint_def wire_get, simp add: wire_deps_def wire_endpoint_def wire_packet_def tun_entry_def
        is_enabled_def connection_write_def wire_manager_def set_endpoint_def hm_insert_def)
  moreover have "slice_from_ip wire_deps bytes = SliceIpv4 0x0A0C0002" by (simp add: wire_deps_def)
  moreover have "router_lookup (routes (wire_manager k n s)) 0x0A0C0002 = [k]"
    by (simp add: wire_manager_def router_lookup_def reachable_from_def calculate_network_address_def)
  ultimately show ?thesis by (simp add: handle_packet_from_tun_def get_route_def)
qed

lemma wire_arrival:
  "handle_event wire_deps no_logs (NewEstablishedMessage 0 0 (Inr (encode (Packet p)))) (wire_manager k n s) (granted tr) =
    Some (Inr (wire_manager k n (insert_packet wire_deps 10 p s), granted tr))"
  "sorter_input wire_deps (NewEstablishedMessage 0 0 (Inr (encode (Packet p)))) (wire_manager k n s) (granted tr) =
    Some (k, Arrive 10 p)"
proof -
  have a: "await_incoming wire_deps 0 0 (Inr bs) (wire_manager k n s) =
      Inr (Inr \<lparr>connection_read_info = connection_read (demo_connection 3 ''veth1'' Connected) bs, eri_endpoint_id = k\<rparr>)" for bs
    by (simp add: await_incoming_def wire_select, simp add: await_connections_def wire_endpoint_def wire_deps_def ref_deps_def)
  have d: "bincode_deserialize wire_deps (encode m) = Some m" for m
    by (simp add: wire_deps_def decode_encode)
  show "handle_event wire_deps no_logs (NewEstablishedMessage 0 0 (Inr (encode (Packet p)))) (wire_manager k n s) (granted tr) =
    Some (Inr (wire_manager k n (insert_packet wire_deps 10 p s), granted tr))"
    by (simp add: a d handle_established_message_def connection_read_def handle_packet_def wire_get)
      (simp add: wire_manager_def wire_endpoint_def set_endpoint_def hm_insert_def)
  show "sorter_input wire_deps (NewEstablishedMessage 0 0 (Inr (encode (Packet p)))) (wire_manager k n s) (granted tr) =
    Some (k, Arrive 10 p)"
    by (simp add: sorter_input_def a d connection_read_def)
qed

lemma wire_delivery:
  assumes "sorted_packet_queue s = (c, p # ps)"
  shows "handle_event wire_deps no_logs (NewSortedPacket 0) (wire_manager k n s) (granted tr) =
    Some (Inr (wire_manager k n (s\<lparr>sorted_packet_queue := (c, ps)\<rparr>), granted (tr @ [TunSend (pkt_bytes p)])))"
  "taken wire_deps (sorter_input wire_deps (NewSortedPacket 0) (wire_manager k n s) w) (wire_manager k n s) = [(k, p)]"
proof -
  have a: "await_have_next_packet wire_deps s = Some (Some p, s\<lparr>sorted_packet_queue := (c, ps)\<rparr>)"
    using assms by (simp add: await_have_next_packet_def wire_deps_def ref_deps_def)
  have f: "packet_sorter (wire_endpoint k n s) = s" by (simp add: wire_endpoint_def)
  show "handle_event wire_deps no_logs (NewSortedPacket 0) (wire_manager k n s) (granted tr) =
    Some (Inr (wire_manager k n (s\<lparr>sorted_packet_queue := (c, ps)\<rparr>), granted (tr @ [TunSend (pkt_bytes p)])))"
    by (simp add: await_endpoint_sorted_packets_def wire_select await_sorted_packet_def f a when_ready_def
        log_and_forward_def)
      (simp add: wire_manager_def wire_endpoint_def set_endpoint_def hm_insert_def)
  show "taken wire_deps (sorter_input wire_deps (NewSortedPacket 0) (wire_manager k n s) w) (wire_manager k n s) = [(k, p)]"
    by (simp add: sorter_input_def wire_select taken_def wire_get f a)
qed


definition wire_client :: client_settings where
  "wire_client = \<lparr>cs_peer_id = 5, interfaces = [\<lparr>if_interface_name = ''veth1'', bind_address = V4 1 0, server_address = V4 2 40000\<rparr>],
     server_id = 1, cs_tunnel_config = \<lparr>tunnel_device_address = Inl 0x0A0C0001, netmask = 0xFFFFFF00, mtu = 1420\<rparr>,
     static_routes = [], cs_connection_timeout = 10000, cs_packet_sorter_deadline = 100,
     cs_interface_logger = None, cs_packet_sorter_logger = None\<rparr>"

definition takes_events ::
  "('e \<Rightarrow> (instant option, nat \<times> packet list) connection_manager \<Rightarrow> world \<Rightarrow>
     (instant option, nat \<times> packet list) step option) \<Rightarrow> ('e \<Rightarrow> event option) \<Rightarrow> (event \<Rightarrow> 'e) \<Rightarrow> bool" where
  "takes_events turn shared mk \<longleftrightarrow> (\<forall>e. shared (mk e) = Some e) \<and>
    (\<forall>e k n s w n' s' w'. handle_event wire_deps no_logs e (wire_manager k n s) w = Some (Inr (wire_manager k n' s', w')) \<longrightarrow>
      turn (mk e) (wire_manager k n s) w = Some (Inr (wire_manager k n' s', w')))"

abbreviation wire_client_turn where
  "wire_client_turn \<equiv> client_turn wire_deps [] wire_client no_logs"

abbreviation wire_server_turn where
  "wire_server_turn \<equiv> server_turn wire_deps no_logs"

lemma wire_turns:
  "takes_events wire_client_turn client_shared ClientEvent"
  "takes_events wire_server_turn server_shared SharedEvent"
  by (simp_all add: takes_events_def client_turn_def server_turn_def wire_has wire_clean client_shared_def server_shared_def
      del: handle_event.simps)

lemma wire_session: "map_option session_id (get_endpoint k (wire_manager k n s)) = Some 77"
  by (simp add: wire_get wire_endpoint_def endpoint_new_def)

lemma wire_read: "turn_read wire_deps (Some (TunnelPacket (Inr bytes))) (wire_manager k n s) k = [bytes]"
  by (simp add: turn_read_def read_for_def routed_to_def wire_deps_def wire_manager_def router_lookup_def
      reachable_from_def calculate_network_address_def)

lemma one_turn:
  assumes "takes_events turn shared mk" "session_run turn shared wire_deps k 77 N s\<^sub>0 ins out (wire_manager k n s, w)"
    and "handle_event wire_deps no_logs e (wire_manager k n s) w = Some (Inr (wire_manager k n' s', w'))"
    and "list_all (feeds N) (ops_of (turn_input wire_deps (Some e) (wire_manager k n s) w) k)"
  shows "session_run turn shared wire_deps k 77 N s\<^sub>0 (ins @ turn_read wire_deps (Some e) (wire_manager k n s) k)
    (out @ taken wire_deps (turn_input wire_deps (Some e) (wire_manager k n s) w) (wire_manager k n s)) (wire_manager k n' s', w')"
  using session_run.turn [OF assms(2) _ wire_session, of "mk e" n' s' w'] assms(1,3,4)
  by (simp add: takes_events_def del: handle_event.simps)

lemma one_sent:
  assumes "takes_events turn shared mk" "session_run turn shared wire_deps k 77 N s\<^sub>0 ins out (wire_manager k n s, granted tr)"
  shows "session_run turn shared wire_deps k 77 N s\<^sub>0 (ins @ [bytes]) out
    (wire_manager k (n + 1) s, granted (tr @ [Send 3 (encode (Packet (wire_packet k n bytes)))]))"
  using one_turn [OF assms wire_tun, of bytes]
  by (simp add: wire_read turn_input_def sorter_input_def taken_def)

lemma one_received:
  assumes "takes_events turn shared mk" "session_run turn shared wire_deps k 77 N s\<^sub>0 ins out (wire_manager k n s, granted tr)"
    and "N p"
  shows "session_run turn shared wire_deps k 77 N s\<^sub>0 ins out (wire_manager k n (insert_packet wire_deps 10 p s), granted tr)"
  using one_turn [OF assms(1,2) wire_arrival(1), of p] assms(3)
  by (simp add: wire_arrival(2) turn_input_def turn_read_def taken_def wire_get feeds_def)

lemma one_delivered:
  assumes "takes_events turn shared mk" "session_run turn shared wire_deps k 77 N s\<^sub>0 ins out (wire_manager k n s, granted tr)"
    and "sorted_packet_queue s = (c, p # ps)"
  shows "session_run turn shared wire_deps k 77 N s\<^sub>0 ins (out @ [(k, p)])
    (wire_manager k n (s\<lparr>sorted_packet_queue := (c, ps)\<rparr>), granted (tr @ [TunSend (pkt_bytes p)]))"
  using one_turn [OF assms(1,2) wire_delivery(1) [OF assms(3)]]
  by (simp add: wire_delivery(2) [OF assms(3)] turn_input_def turn_read_def)
    (simp add: sorter_input_def wire_select feeds_def)

text \<open>Two packets are read; the other side receives the second, the first, and the first again, and writes both.\<close>

abbreviation wire_sorter :: "(instant option, nat \<times> packet list) packet_sorter" where
  "wire_sorter \<equiv> packet_sorter_new wire_deps 0 100"

abbreviation wire_trace :: "endpoint_id \<Rightarrow> syscall list" where
  "wire_trace k \<equiv> [Send 3 (encode (Packet (wire_packet k 0 [7]))), Send 3 (encode (Packet (wire_packet k 1 [8])))]"

lemma both_sent:
  assumes "takes_events turn shared mk"
  shows "session_run turn shared wire_deps k 77 (\<lambda>p. True) (wire_manager k 0 wire_sorter, granted []) [[7], [8]] []
    (wire_manager k 2 wire_sorter, granted (wire_trace k))"
  using one_sent [OF assms one_sent [OF assms session_run.start],
      of k "\<lambda>p. True" 0 wire_sorter "[]" "[7]" "[8]"] by simp

abbreviation delivered_by_network :: "endpoint_id \<Rightarrow> packet \<Rightarrow> bool" where
  "delivered_by_network k \<equiv> sent_to (bincode_deserialize wire_deps) k (granted []) (granted (wire_trace k))"

lemma both_on_the_wire: "delivered_by_network k (wire_packet k 0 [7])" "delivered_by_network k (wire_packet k 1 [8])"
proof -
  have "delivered_by_network k p" if "Send 3 (encode (Packet p)) \<in> set (wire_trace k)" "pkt_id p = k" for p
    using that decode_encode [of "Packet p"] by (auto simp: sent_to_def wire_deps_def)
  then show "delivered_by_network k (wire_packet k 0 [7])" "delivered_by_network k (wire_packet k 1 [8])"
    by (simp_all add: wire_packet_def)
qed

definition full_sorter :: "endpoint_id \<Rightarrow> (instant option, nat \<times> packet list) packet_sorter" where
  "full_sorter k = insert_packet wire_deps 10 (wire_packet k 0 [7]) (insert_packet wire_deps 10 (wire_packet k 0 [7])
     (insert_packet wire_deps 10 (wire_packet k 1 [8]) wire_sorter))"

lemma full_sorter_queue: "sorted_packet_queue (full_sorter k) = (1000, [wire_packet k 0 [7], wire_packet k 1 [8]])"
  by (simp add: full_sorter_def sorter_eval wire_deps_def wire_packet_def)

abbreviation both_out :: "endpoint_id \<Rightarrow> endpoint_id \<Rightarrow> (endpoint_id \<times> packet) list" where
  "both_out j k \<equiv> [(j, wire_packet k 0 [7]), (j, wire_packet k 1 [8])]"

lemma both_received:
  assumes "takes_events turn shared mk" "N (wire_packet k 0 [7])" "N (wire_packet k 1 [8])"
  shows "\<exists>s. session_run turn shared wire_deps j 77 N (wire_manager j 0 wire_sorter, granted []) []
    (both_out j k) (s, granted [TunSend [7], TunSend [8]])"
proof -
  let ?s = "(wire_manager j 0 wire_sorter, granted [])"
  have "session_run turn shared wire_deps j 77 N ?s [] [] (wire_manager j 0 (full_sorter k), granted [])"
    unfolding full_sorter_def
    by (intro one_received [OF assms(1)] session_run.start assms)
  from one_delivered [OF assms(1) this full_sorter_queue]
  have "session_run turn shared wire_deps j 77 N ?s [] [(j, wire_packet k 0 [7])]
      (wire_manager j 0 ((full_sorter k)\<lparr>sorted_packet_queue := (1000, [wire_packet k 1 [8]])\<rparr>), granted [TunSend [7]])"
    by (simp add: wire_packet_def)
  from one_delivered [OF assms(1) this, of 1000 "wire_packet k 1 [8]" "[]"]
  show ?thesis by (auto simp: wire_packet_def)
qed

lemma wire_hypotheses:
  "loop_inv wire_deps (wire_manager k 0 wire_sorter)"
  "client_loop_inv wire_deps wire_client (wire_manager k 0 wire_sorter)"
  "decodes wire_deps (bincode_deserialize wire_deps)"
  "session_id (wire_endpoint k n t) = 77" "packet_sorter (wire_endpoint k n t) = t"
  "unat (tx_counter (wire_endpoint k 0 wire_sorter)) + length [[7], [8 :: u8]] < 2 ^ 64"
  by (simp_all add: loop_inv_def client_loop_inv_def wire_laws wire_manager_inv sorter_inv_new v4_bound_def wire_client_def
      decodes_def wire_endpoint_def endpoint_new_def)

lemma both_out_bytes: "map pkt_bytes (of_endpoint j (both_out j k)) = [[7], [8]]"
  by (simp add: of_endpoint_def wire_packet_def)

theorem client_to_server_in_order_witness:
  "\<exists>c s. session_run wire_client_turn client_shared wire_deps 1 77 (\<lambda>p. True)
      (wire_manager 1 0 wire_sorter, granted []) [[7], [8]] [] (c, granted (wire_trace 1)) \<and>
    session_run wire_server_turn server_shared wire_deps 5 77 (delivered_by_network 1)
      (wire_manager 5 0 wire_sorter, granted []) [] (both_out 5 1) (s, granted [TunSend [7], TunSend [8]]) \<and>
    subseq (map pkt_bytes (of_endpoint 5 (both_out 5 1))) [[7], [8]] \<and>
    tun_written (granted [TunSend [7], TunSend [8]]) = tun_written (granted []) @ [[7], [8]]"
proof -
  note c = both_sent [OF wire_turns(1), of 1]
  obtain s where s: "session_run wire_server_turn server_shared wire_deps 5 77 (delivered_by_network 1)
      (wire_manager 5 0 wire_sorter, granted []) [] (both_out 5 1) (s, granted [TunSend [7], TunSend [8]])"
    using both_received [OF wire_turns(2), of "delivered_by_network 1" 1 5] both_on_the_wire by blast
  note * = client_to_server_in_order [OF wire_hypotheses(3) wire_laws(3) c wire_hypotheses(2) wire_get
      wire_hypotheses(4,6) s wire_hypotheses(1) wire_get wire_hypotheses(4,5)]
  then show ?thesis using c s by (intro exI conjI) (assumption, assumption, simp_all add: both_out_bytes written_def wire_packet_def)
qed

theorem server_to_client_in_order_witness:
  "\<exists>c s. session_run wire_server_turn server_shared wire_deps 5 77 (\<lambda>p. True)
      (wire_manager 5 0 wire_sorter, granted []) [[7], [8]] [] (s, granted (wire_trace 5)) \<and>
    session_run wire_client_turn client_shared wire_deps 1 77 (delivered_by_network 5)
      (wire_manager 1 0 wire_sorter, granted []) [] (both_out 1 5) (c, granted [TunSend [7], TunSend [8]]) \<and>
    subseq (map pkt_bytes (of_endpoint 1 (both_out 1 5))) [[7], [8]] \<and>
    tun_written (granted [TunSend [7], TunSend [8]]) = tun_written (granted []) @ [[7], [8]]"
proof -
  note s = both_sent [OF wire_turns(2), of 5]
  obtain c where c: "session_run wire_client_turn client_shared wire_deps 1 77 (delivered_by_network 5)
      (wire_manager 1 0 wire_sorter, granted []) [] (both_out 1 5) (c, granted [TunSend [7], TunSend [8]])"
    using both_received [OF wire_turns(1), of "delivered_by_network 5" 5 1] both_on_the_wire by blast
  note * = server_to_client_in_order [OF wire_hypotheses(3) wire_laws(3) s wire_hypotheses(1) wire_get
      wire_hypotheses(4,6) c wire_hypotheses(2) wire_get wire_hypotheses(4,5)]
  then show ?thesis using c s by (intro exI conjI) (assumption, assumption, simp_all add: both_out_bytes written_def wire_packet_def)
qed

section \<open>One turn\<close>

lemma loop_turn:
  assumes "turn_refines X oe cm w cm' w'" "get_endpoint k cm = Some ep" "get_endpoint k cm' = Some ep'"
    and "session_id ep' = session_id ep"
  shows "packet_sorter ep' = fold (sorter_step X) (ops_of (turn_input X oe cm w) k) (packet_sorter ep) \<and>
    tx_counter ep' = tx_counter ep + of_nat (length (turn_read X oe cm k)) \<and>
    tun_written w' = tun_written w @ written (taken X (turn_input X oe cm w) cm) \<and>
    (\<exists>cs. w_trace w' = w_trace w @ cs \<and>
      (\<forall>fd d. Send fd d \<in> set cs \<longrightarrow> control_bytes X d \<or> d \<in> turn_datagrams X oe cm))"
  using assms emits_written [of X _ _ w w']
  by (auto simp: turn_refines_def continues_by_def effect_def flow_def emits_def)

text \<open>
  C8: The server implements independent endpoints.  Whatever a turn handles and whatever the kernel
  answers, an endpoint that stays in its session has made at most one step of the sorter \<open>sorter_step\<close>, chosen by the
  event, and its counter has grown by the number of packets read for it; the packets written to the
  tunnel device are those this step took out; and every datagram sent is an encoded hello, an encoded acknowledgement or the
  packet just read.
\<close>

theorem server_implements_endpoints:
  assumes "loop_inv X cm" and "server_turn X L ev cm w = Some (Inr (cm', w'))"
    and "get_endpoint k cm = Some ep" and "get_endpoint k cm' = Some ep'" and "session_id ep' = session_id ep"
  shows "packet_sorter ep' = fold (sorter_step X) (ops_of (turn_input X (server_shared ev) cm w) k) (packet_sorter ep) \<and>
    tx_counter ep' = tx_counter ep + of_nat (length (turn_read X (server_shared ev) cm k)) \<and>
    tun_written w' = tun_written w @ written (taken X (turn_input X (server_shared ev) cm w) cm) \<and>
    (\<exists>cs. w_trace w' = w_trace w @ cs \<and>
      (\<forall>fd d. Send fd d \<in> set cs \<longrightarrow> control_bytes X d \<or> d \<in> turn_datagrams X (server_shared ev) cm))"
  using server_loop.turn_refines [OF assms(1,2)] assms(3-5) by (rule loop_turn)

text \<open>A datagram arrives for the only endpoint.\<close>

theorem server_implements_endpoints_witness:
  "packet_sorter (wire_endpoint 5 0 (insert_packet wire_deps 10 (wire_packet 1 0 [7]) wire_sorter)) =
      fold (sorter_step wire_deps) [Arrive 10 (wire_packet 1 0 [7])] (packet_sorter (wire_endpoint 5 0 wire_sorter)) \<and>
    tun_written (granted []) = tun_written (granted []) @ written []"
proof -
  let ?e = "NewEstablishedMessage 0 0 (Inr (encode (Packet (wire_packet 1 0 [7]))))"
  have t: "wire_server_turn (SharedEvent ?e) (wire_manager 5 0 wire_sorter) (granted []) =
      Some (Inr (wire_manager 5 0 (insert_packet wire_deps 10 (wire_packet 1 0 [7]) wire_sorter), granted []))"
    using wire_turns(2) wire_arrival(1) unfolding takes_events_def by blast
  have s: "session_id (wire_endpoint 5 0 (insert_packet wire_deps 10 (wire_packet 1 0 [7]) wire_sorter)) =
      session_id (wire_endpoint 5 0 wire_sorter)" by (simp add: wire_hypotheses)
  show ?thesis
    using server_implements_endpoints [OF wire_hypotheses(1) t wire_get wire_get s]
    by (simp add: server_shared_def turn_input_def wire_arrival(2) taken_def wire_get)
qed

text \<open>
  C14: So does the client, whose keepalives and restarts of connections touch no sorter and no counter.
\<close>

theorem client_implements_endpoints:
  assumes "client_loop_inv X S cm" and "client_turn X ifs S L ev cm w = Some (Inr (cm', w'))"
    and "get_endpoint k cm = Some ep" and "get_endpoint k cm' = Some ep'" and "session_id ep' = session_id ep"
  shows "packet_sorter ep' = fold (sorter_step X) (ops_of (turn_input X (client_shared ev) cm w) k) (packet_sorter ep) \<and>
    tx_counter ep' = tx_counter ep + of_nat (length (turn_read X (client_shared ev) cm k)) \<and>
    tun_written w' = tun_written w @ written (taken X (turn_input X (client_shared ev) cm w) cm) \<and>
    (\<exists>cs. w_trace w' = w_trace w @ cs \<and>
      (\<forall>fd d. Send fd d \<in> set cs \<longrightarrow> control_bytes X d \<or> d \<in> turn_datagrams X (client_shared ev) cm))"
  using client_loop.turn_refines [OF assms(1,2)] assms(3-5) by (rule loop_turn)

text \<open>A packet is read from the tunnel device.\<close>

theorem client_implements_endpoints_witness:
  "tx_counter (wire_endpoint 1 1 wire_sorter) = tx_counter (wire_endpoint 1 0 wire_sorter) + of_nat (length [[7 :: u8]]) \<and>
    packet_sorter (wire_endpoint 1 1 wire_sorter) = packet_sorter (wire_endpoint 1 0 wire_sorter)"
proof -
  have t: "wire_client_turn (ClientEvent (TunnelPacket (Inr [7]))) (wire_manager 1 0 wire_sorter) (granted []) =
      Some (Inr (wire_manager 1 1 wire_sorter, granted [Send 3 (encode (Packet (wire_packet 1 0 [7])))]))"
    using wire_turns(1) wire_tun [of "[7]" 1 0 wire_sorter "[]"] unfolding takes_events_def by simp
  have s: "session_id (wire_endpoint 1 1 wire_sorter) = session_id (wire_endpoint 1 0 wire_sorter)"
    by (simp add: wire_hypotheses)
  show ?thesis
    using client_implements_endpoints [OF wire_hypotheses(2) t wire_get wire_get s]
    by (simp add: client_shared_def wire_read) (simp add: turn_input_def sorter_input_def)
qed

end
