(* ===== verification/Component_Tests.thy ===== *)
theory Component_Tests
  imports Sorter_Delivery Path_Latency Router
begin

text \<open>
  The test modules of \<open>router.rs\<close>, \<open>packet_sorter.rs\<close> and \<open>path_latency.rs\<close> (in \<open>crates/common/src\<close>): each test function as a
  definition, and that it passes.  A test that reads clocks is given the readings, one that uses a channel or a
  timer the record of the crates it calls; it passes for all of them that keep the laws stated.
\<close>

section \<open>Tests\<close>

text \<open>A test fails at an assertion or by a panic, or waits for something that does not happen.\<close>

datatype test_failure = AssertionFailed | Panicked panic | Blocked

type_synonym test = "test_failure + unit"

definition assert_eq :: "'a \<Rightarrow> 'a \<Rightarrow> test" where
  "assert_eq left right = (if left = right then Inr () else Inl AssertionFailed)"

definition and_then :: "test \<Rightarrow> test \<Rightarrow> test" where
  "and_then t u = (case t of Inl f \<Rightarrow> Inl f | Inr _ \<Rightarrow> u)"

definition after_run :: "'a run \<Rightarrow> ('a \<Rightarrow> test) \<Rightarrow> test" where
  "after_run m f = (case m of Inl p \<Rightarrow> Inl (Panicked p) | Inr x \<Rightarrow> f x)"

definition after_wait :: "'a option \<Rightarrow> ('a \<Rightarrow> test) \<Rightarrow> test" where
  "after_wait m f = (case m of None \<Rightarrow> Inl Blocked | Some x \<Rightarrow> f x)"

definition passes :: "test \<Rightarrow> bool" where
  "passes t \<longleftrightarrow> t = Inr ()"

lemma passes_simps [simp]:
  "passes (Inr ())" "\<not> passes (Inl e)"
  "passes (assert_eq a b) \<longleftrightarrow> a = b" "passes (and_then t u) \<longleftrightarrow> passes t \<and> passes u"
  "passes (after_run m f) \<longleftrightarrow> (\<exists>x. m = Inr x \<and> passes (f x))"
  "passes (after_wait r g) \<longleftrightarrow> (\<exists>y. r = Some y \<and> passes (g y))"
  by (auto simp: passes_def assert_eq_def and_then_def after_run_def after_wait_def split: sum.splits option.splits)

section \<open>Router\<close>

definition ipv4_new :: "u8 \<Rightarrow> u8 \<Rightarrow> u8 \<Rightarrow> u8 \<Rightarrow> ipv4" where
  "ipv4_new a b c d = ((ucast a * 256 + ucast b) * 256 + ucast c) * 256 + ucast d"

definition address_is_in_subnet :: test where
  "address_is_in_subnet =
    (let a = \<lparr>route_address = ipv4_new 192 168 0 1, subnet_mask = ipv4_new 255 255 255 0\<rparr>;
         b = ipv4_new 192 168 0 2
     in assert_eq (reachable_from a b) True)"

definition address_is_in_subnet_wider_mask :: test where
  "address_is_in_subnet_wider_mask =
    (let a = \<lparr>route_address = ipv4_new 192 168 0 1, subnet_mask = ipv4_new 255 255 0 0\<rparr>;
         b = ipv4_new 192 168 0 2
     in assert_eq (reachable_from a b) True)"

definition address_is_in_subnet_wider_mask2 :: test where
  "address_is_in_subnet_wider_mask2 =
    (let a = \<lparr>route_address = ipv4_new 192 168 100 1, subnet_mask = ipv4_new 255 255 0 0\<rparr>;
         b = ipv4_new 192 168 0 2
     in assert_eq (reachable_from a b) True)"

definition address_is_not_in_subnet :: test where
  "address_is_not_in_subnet =
    (let a = \<lparr>route_address = ipv4_new 192 168 0 1, subnet_mask = ipv4_new 255 255 255 0\<rparr>;
         b = ipv4_new 192 168 100 2
     in assert_eq (reachable_from a b) False)"

definition insert_route_adds_new_route :: test where
  "insert_route_adds_new_route =
    (let routes = [];
         address = \<lparr>route_address = ipv4_new 192 168 0 1, subnet_mask = ipv4_new 255 255 255 0\<rparr>;
         endpoint_id = 1;
         routes = insert_route address endpoint_id routes
     in assert_eq (length routes) 1)"

definition insert_route_does_not_add_duplicate_route :: test where
  "insert_route_does_not_add_duplicate_route =
    (let routes = [];
         address = \<lparr>route_address = ipv4_new 192 168 0 1, subnet_mask = ipv4_new 255 255 255 0\<rparr>;
         endpoint_id = 1;
         routes = insert_route address endpoint_id routes;
         routes = insert_route address endpoint_id routes
     in assert_eq (length routes) 1)"

definition lookup_returns_correct_endpoint :: test where
  "lookup_returns_correct_endpoint =
    (let routes = [];
         address = \<lparr>route_address = ipv4_new 192 168 0 1, subnet_mask = ipv4_new 255 255 255 0\<rparr>;
         endpoint_id = 1;
         routes = insert_route address endpoint_id routes;
         result = router_lookup routes (ipv4_new 192 168 0 5)
     in assert_eq result [endpoint_id])"

definition lookup_returns_empty_vector_for_unknown_address :: test where
  "lookup_returns_empty_vector_for_unknown_address =
    (let routes = [];
         result = router_lookup routes (ipv4_new 192 168 0 5)
     in assert_eq result [])"

definition lookup_returns_multiple_endpoints_for_same_address :: test where
  "lookup_returns_multiple_endpoints_for_same_address =
    (let routes = [];
         address = \<lparr>route_address = ipv4_new 192 168 0 1, subnet_mask = ipv4_new 255 255 255 0\<rparr>;
         endpoint_id1 = 1; endpoint_id2 = 2;
         routes = insert_route address endpoint_id1 routes;
         routes = insert_route address endpoint_id2 routes;
         result = router_lookup routes (ipv4_new 192 168 0 5)
     in assert_eq result [endpoint_id1, endpoint_id2])"

definition insert_and_route_to_subnet :: test where
  "insert_and_route_to_subnet =
    (let routes = [];
         subnet_address = \<lparr>route_address = ipv4_new 192 168 0 0, subnet_mask = ipv4_new 255 255 0 0\<rparr>;
         endpoint_id = 1;
         routes = insert_route subnet_address endpoint_id routes;
         result = router_lookup routes (ipv4_new 192 168 0 5)
     in assert_eq result [endpoint_id])"

definition insert_and_route_to_subnet_with_multiple_endpoints :: test where
  "insert_and_route_to_subnet_with_multiple_endpoints =
    (let routes = [];
         subnet_address = \<lparr>route_address = ipv4_new 192 168 0 1, subnet_mask = ipv4_new 255 255 0 0\<rparr>;
         endpoint_id1 = 1; endpoint_id2 = 2;
         routes = insert_route subnet_address endpoint_id1 routes;
         routes = insert_route subnet_address endpoint_id2 routes;
         result = router_lookup routes (ipv4_new 192 168 0 5)
     in assert_eq result [endpoint_id1, endpoint_id2])"

definition insert_and_route_to_subnet_with_no_matching_endpoint :: test where
  "insert_and_route_to_subnet_with_no_matching_endpoint =
    (let routes = [];
         subnet_address = \<lparr>route_address = ipv4_new 192 168 100 0, subnet_mask = ipv4_new 255 255 255 0\<rparr>;
         endpoint_id = 1;
         routes = insert_route subnet_address endpoint_id routes;
         result = router_lookup routes (ipv4_new 192 168 0 5)
     in assert_eq result [])"

lemmas router_eval = ipv4_new_def reachable_from_def calculate_network_address_def insert_route_def swap_default_route_def
  is_default_route_def router_lookup_def Let_def

lemma router_tests_pass:
  "passes address_is_in_subnet" "passes address_is_in_subnet_wider_mask" "passes address_is_in_subnet_wider_mask2"
  "passes address_is_not_in_subnet" "passes insert_route_adds_new_route"
  "passes insert_route_does_not_add_duplicate_route" "passes lookup_returns_correct_endpoint"
  "passes lookup_returns_empty_vector_for_unknown_address" "passes lookup_returns_multiple_endpoints_for_same_address"
  "passes insert_and_route_to_subnet" "passes insert_and_route_to_subnet_with_multiple_endpoints"
  "passes insert_and_route_to_subnet_with_no_matching_endpoint"
  by (simp_all add: address_is_in_subnet_def address_is_in_subnet_wider_mask_def address_is_in_subnet_wider_mask2_def
      address_is_not_in_subnet_def insert_route_adds_new_route_def insert_route_does_not_add_duplicate_route_def
      lookup_returns_correct_endpoint_def lookup_returns_empty_vector_for_unknown_address_def
      lookup_returns_multiple_endpoints_for_same_address_def insert_and_route_to_subnet_def
      insert_and_route_to_subnet_with_multiple_endpoints_def insert_and_route_to_subnet_with_no_matching_endpoint_def
      router_eval)

section \<open>Packet sorter\<close>

text \<open>\<open>sorted_packet_queue_rx.recv().await.unwrap()\<close>\<close>

definition received_packet ::
  "('t, 'c) deps \<Rightarrow> ('t, 'c) packet_sorter \<Rightarrow> (packet \<Rightarrow> ('t, 'c) packet_sorter \<Rightarrow> test) \<Rightarrow> test" where
  "received_packet X sorter f =
    after_wait (chan_recv X (sorted_packet_queue sorter)) (\<lambda>(r, c).
      after_run (case r of None \<Rightarrow> Inl UnwrapErr | Some p \<Rightarrow> Inr p) (\<lambda>p. f p (sorter\<lparr>sorted_packet_queue := c\<rparr>)))"

definition sorter_handles_out_of_order_packets :: "('t, 'c) deps \<Rightarrow> instant \<Rightarrow> instant \<Rightarrow> instant \<Rightarrow> test" where
  "sorter_handles_out_of_order_packets X t0 t1 t2 =
    (let sorter = packet_sorter_new X t0 1000000000;
         packet1 = \<lparr>pkt_seq = 0, pkt_id = 0, pkt_bytes = []\<rparr>;
         packet2 = \<lparr>pkt_seq = 1, pkt_id = 0, pkt_bytes = []\<rparr>;
         sorter = insert_packet X t1 packet2 sorter;
         sorter = insert_packet X t2 packet1 sorter
     in received_packet X sorter (\<lambda>ordered1 sorter.
        received_packet X sorter (\<lambda>ordered2 sorter.
          and_then (assert_eq ordered1 packet1) (assert_eq ordered2 packet2))))"

definition sorter_clears_queue_on_large_sequence_jump ::
  "('t, 'c) deps \<Rightarrow> instant \<Rightarrow> instant \<Rightarrow> instant \<Rightarrow> instant \<Rightarrow> instant \<Rightarrow> test" where
  "sorter_clears_queue_on_large_sequence_jump X t0 t1 t2 t3 t4 =
    (let sorter = packet_sorter_new X t0 1000000000;
         packet1 = \<lparr>pkt_seq = 0, pkt_id = 0, pkt_bytes = []\<rparr>;
         packet11 = \<lparr>pkt_seq = 11, pkt_id = 0, pkt_bytes = []\<rparr>;
         sorter = insert_packet X t1 packet1 sorter;
         sorter = insert_packet X t2 packet11 sorter
     in received_packet X sorter (\<lambda>first_packet sorter.
        and_then (assert_eq first_packet packet1) (
        let should_be_false = have_next_packet sorter in
        and_then (assert_eq should_be_false False) (
        after_wait (await_deadline X t3 sorter) (\<lambda>sorter.
        let sorter = advance_queue X t4 sorter in
        received_packet X sorter (\<lambda>eleventh_packet sorter.
          assert_eq eleventh_packet packet11))))))"

lemma received_packet_passes:
  assumes "channel_laws X contents cap" "contents (sorted_packet_queue s) = p # ps"
    and "\<And>c. contents c = ps \<Longrightarrow> cap c = cap (sorted_packet_queue s) \<Longrightarrow> passes (f p (s\<lparr>sorted_packet_queue := c\<rparr>))"
  shows "passes (received_packet X s f)"
  using channel_lawsD(6) [OF assms(1,2)] assms(3) by (auto simp: received_packet_def)

lemma sorter_handles_out_of_order_packets_passes:
  assumes "channel_laws X contents cap" "timer_laws X due"
  shows "passes (sorter_handles_out_of_order_packets X t0 t1 t2)"
proof -
  let ?p = "\<lambda>n. \<lparr>pkt_seq = n, pkt_id = 0, pkt_bytes = []\<rparr>"
  let ?s = "insert_packet X t2 (?p 0) (insert_packet X t1 (?p 1) (packet_sorter_new X t0 1000000000))"
  have "sorted_packet_queue ?s = send_all X [?p 0, ?p 1] (chan_bounded X 1000)"
    by (simp add: sorter_eval timer_lawsD [OF assms(2)])
  then have "contents (sorted_packet_queue ?s) = [?p 0, ?p 1]"
    using channel_lawsD(1-4) [OF assms(1)] by simp
  then show ?thesis
    unfolding sorter_handles_out_of_order_packets_def Let_def
    by (rule received_packet_passes [OF assms(1)]) (rule received_packet_passes [OF assms(1)], simp, simp)
qed

lemma sorter_clears_queue_on_large_sequence_jump_passes:
  assumes "channel_laws X contents cap" "timer_laws X due" "t1 + 1000000000 \<le> t3"
  shows "passes (sorter_clears_queue_on_large_sequence_jump X t0 t1 t2 t3 t4)"
proof -
  let ?p = "\<lambda>n. \<lparr>pkt_seq = n, pkt_id = 0, pkt_bytes = []\<rparr>"
  let ?s = "insert_packet X t2 (?p 11) (insert_packet X t1 (?p 0) (packet_sorter_new X t0 1000000000))"
  note t = timer_lawsD [OF assms(2)]
  have s: "packet_queue ?s = [(11, \<lparr>qp_packet = ?p 11, qp_timestamp = t2\<rparr>)]" "next_seq ?s = 1"
    "deadline_timer ?s = timer_set_after X t1 1000000000 (timer_after X t0 1000000000)"
    "sorted_packet_queue ?s = snd (chan_try_send X (?p 0) (chan_bounded X 1000))"
    by (simp_all add: sorter_eval t)
  have c: "contents (sorted_packet_queue ?s) = [?p 0]"
    using channel_lawsD(1-4) [OF assms(1)] by (simp add: s)
  obtain d where d: "timer_next X t3 (deadline_timer ?s) = Some d"
    using assms(2,3) t(2) unfolding s(3) timer_laws_def by (metis option.exhaust)
  have last: "passes (received_packet X (advance_queue X t4 (?s\<lparr>sorted_packet_queue := c, deadline_timer := d\<rparr>))
      (\<lambda>eleventh_packet sorter. assert_eq eleventh_packet (?p 11)))"
    if "contents c = []" "cap c = cap (sorted_packet_queue ?s)" for c
  proof -
    have "cap c = 1000" using that(2) channel_lawsD(1-4) [OF assms(1)] by (simp add: s)
    then have "contents (sorted_packet_queue (advance_queue X t4 (?s\<lparr>sorted_packet_queue := c, deadline_timer := d\<rparr>))) = [?p 11]"
      using that(1) channel_lawsD(3,4) [OF assms(1)] by (simp add: advance_queue_sel s)
    then show ?thesis by (rule received_packet_passes [OF assms(1)]) simp
  qed
  have "passes (and_then (assert_eq (?p 0) (?p 0)) (
      and_then (assert_eq (have_next_packet (?s\<lparr>sorted_packet_queue := c\<rparr>)) False) (
      after_wait (await_deadline X t3 (?s\<lparr>sorted_packet_queue := c\<rparr>)) (\<lambda>sorter.
        received_packet X (advance_queue X t4 sorter) (\<lambda>eleventh_packet sorter. assert_eq eleventh_packet (?p 11))))))"
    if "contents c = []" "cap c = cap (sorted_packet_queue ?s)" for c
    using last [OF that] by (simp add: have_next_packet_def bt_first_def await_deadline_def s d [unfolded s(3)])
  then show ?thesis
    unfolding sorter_clears_queue_on_large_sequence_jump_def Let_def
    by (intro received_packet_passes [OF assms(1) c])
qed

section \<open>Path latency\<close>

text \<open>\<open>clock i\<close> is the wall clock when number \<open>i\<close> is recorded.\<close>

definition insert_numbers :: "(nat \<Rightarrow> system_time) \<Rightarrow> nat list \<Rightarrow> path_latency \<Rightarrow> path_latency" where
  "insert_numbers clock = fold (\<lambda>i. insert_new_timestamp (clock i) (of_nat i))"

definition test_insert_new_timestamp_empty :: "(nat \<Rightarrow> system_time) \<Rightarrow> test" where
  "test_insert_new_timestamp_empty clock =
    (let l = path_latency_new;
         l = insert_new_timestamp (clock 1) 1 l
     in assert_eq (length (ack_timestamps l)) 1)"

definition test_insert_new_timestamp_not_empty :: "(nat \<Rightarrow> system_time) \<Rightarrow> test" where
  "test_insert_new_timestamp_not_empty clock =
    (let l = path_latency_new;
         l = insert_new_timestamp (clock 1) 1 l;
         l = insert_new_timestamp (clock 2) 2 l
     in assert_eq (length (ack_timestamps l)) 2)"

definition test_insert_new_timestamp_max_size :: "(nat \<Rightarrow> system_time) \<Rightarrow> test" where
  "test_insert_new_timestamp_max_size clock =
    (let l = path_latency_new;
         l = insert_numbers clock [1..<102] l
     in assert_eq (length (ack_timestamps l)) 100)"

definition test_insert_new_timestamp_after_max_size :: "(nat \<Rightarrow> system_time) \<Rightarrow> test" where
  "test_insert_new_timestamp_after_max_size clock =
    (let l = path_latency_new;
         l = insert_numbers clock [1..<102] l;
         l = insert_new_timestamp (clock 102) 102 l
     in and_then (assert_eq (length (ack_timestamps l)) 100) (
        after_run (unwrap (map_option fst (bt_last (ack_timestamps l)))) (\<lambda>k. assert_eq k 102)))"

text \<open>Recording the numbers \<open>1\<close> to \<open>n\<close> keeps the last 100 of them.\<close>

lemma insert_numbers_keys:
  "n < 2 ^ 64 \<Longrightarrow> map fst (ack_timestamps (insert_numbers clock [1..<Suc n] path_latency_new)) =
    (map of_nat [Suc n - min n 100..<Suc n] :: u64 list)"
proof (induction n)
  case 0
  then show ?case by (simp add: insert_numbers_def path_latency_new_def)
next
  case (Suc n)
  let ?l = "insert_numbers clock [1..<Suc n] path_latency_new"
  have IH: "map fst (ack_timestamps ?l) = (map of_nat [Suc n - min n 100..<Suc n] :: u64 list)"
    using Suc by simp
  have len: "length (ack_timestamps ?l) = min n 100"
    using arg_cong [OF IH, of length] by (simp del: upt_Suc)
  have room: "map fst (make_room ?l) = (map of_nat [Suc (Suc n) - min (Suc n) 100..<Suc n] :: u64 list)"
  proof (cases "n < 100")
    case True
    then show ?thesis using IH len by (simp add: make_room_def MAX_TIMESTAMPS_def)
  next
    case False
    then have "[Suc n - min n 100..<Suc n] = (Suc n - 100) # [Suc (Suc n) - 100..<Suc n]"
      by (simp add: upt_conv_Cons)
    then have "map fst (tl (ack_timestamps ?l)) = map of_nat [Suc (Suc n) - 100..<Suc n]"
      using arg_cong [OF IH, of tl] by (simp add: map_tl)
    then show ?thesis using False len by (simp add: make_room_def MAX_TIMESTAMPS_def)
  qed
  have less: "\<forall>a\<in>fst ` set (make_room ?l). a < of_nat (Suc n)"
  proof -
    have "(of_nat i :: u64) < of_nat (Suc n)" if "i < Suc n" for i
      using that Suc.prems by (simp add: word_less_nat_alt unsigned_of_nat take_bit_nat_eq_self del: of_nat_Suc)
    moreover have "fst ` set (make_room ?l) = of_nat ` set [Suc (Suc n) - min (Suc n) 100..<Suc n]"
      using arg_cong [OF room, of set] by simp
    ultimately show ?thesis by auto
  qed
  then have "of_nat (Suc n) \<notin> fst ` set (make_room ?l)" by blast
  then have "\<not> bt_contains_key (of_nat (Suc n)) (make_room ?l)"
    by (simp add: bt_contains_key_def map_of_eq_None_iff del: upt_Suc of_nat_Suc)
  with less have "ack_timestamps (insert_new_timestamp (clock (Suc n)) (of_nat (Suc n)) ?l) =
      make_room ?l @ [(of_nat (Suc n), [clock (Suc n)])]"
    by (simp add: insert_new_timestamp_room bt_insert_last del: of_nat_Suc)
  moreover have "insert_numbers clock [1..<Suc (Suc n)] path_latency_new =
      insert_new_timestamp (clock (Suc n)) (of_nat (Suc n)) ?l"
    by (simp add: insert_numbers_def del: of_nat_Suc)
  ultimately show ?case using room by (simp del: of_nat_Suc)
qed

lemma latency_tests_pass:
  "passes (test_insert_new_timestamp_empty clock)" "passes (test_insert_new_timestamp_not_empty clock)"
  "passes (test_insert_new_timestamp_max_size clock)" "passes (test_insert_new_timestamp_after_max_size clock)"
proof -
  have keys: "map fst (ack_timestamps (insert_numbers clock [1..<Suc n] path_latency_new)) =
    (map of_nat [Suc n - min n 100..<Suc n] :: u64 list)" if "n < 200" for n
    using that by (intro insert_numbers_keys) simp
  have len: "length (ack_timestamps (insert_numbers clock [1..<Suc n] path_latency_new)) = min n 100" if "n < 200" for n
    using arg_cong [OF keys [OF that], of length] by (simp del: upt_Suc)
  show "passes (test_insert_new_timestamp_empty clock)"
    using len [of 1] by (simp add: test_insert_new_timestamp_empty_def insert_numbers_def)
  show "passes (test_insert_new_timestamp_not_empty clock)"
    using len [of 2] by (simp add: test_insert_new_timestamp_not_empty_def insert_numbers_def numeral_2_eq_2)
  show "passes (test_insert_new_timestamp_max_size clock)"
    using len [of 101] by (simp add: test_insert_new_timestamp_max_size_def)
  have l: "insert_new_timestamp (clock 102) 102 (insert_numbers clock [1..<102] path_latency_new) =
      insert_numbers clock [1..<Suc 102] path_latency_new"
    unfolding insert_numbers_def upt_Suc by simp
  let ?q = "ack_timestamps (insert_numbers clock [1..<Suc 102] path_latency_new)"
  have q: "length ?q = 100" "map fst ?q = map of_nat [3..<103]" using len [of 102] keys [of 102] by simp_all
  then have "?q \<noteq> []" by (metis list.size(3) zero_neq_numeral)
  moreover from this have "fst (last ?q) = 102" using q(2) by (simp add: last_map [symmetric])
  ultimately show "passes (test_insert_new_timestamp_after_max_size clock)"
    unfolding test_insert_new_timestamp_after_max_size_def Let_def l bt_last_def using q(1) by simp
qed

end
