(* ===== verification/Manager_Tests.thy ===== *)
theory Manager_Tests
  imports Component_Tests Client_Start Endpoint_Refinement
begin

text \<open>
  The test module of \<open>connection_manager.rs\<close>: each test function as a definition, and that it passes when
  the kernel grants every call.  No logger is installed
  in a test, so no debug line is evaluated.
\<close>

section \<open>Hellos\<close>

definition test_manager :: "('t, 'c) connection_manager" where
  "test_manager = connection_manager_new (V4 (ipv4_new 127 0 0 1) 0) 1 (Inl (ipv4_new 127 0 0 1)) None 10000 100"

definition hello_from :: "('t, 'c) deps \<Rightarrow> uuid \<Rightarrow> ('t, 'c) connection_manager \<Rightarrow> world \<Rightarrow> ('t, 'c) step" where
  "hello_from X uuid conman w =
    (let hello = \<lparr>hello_id = 154, hello_session_id = uuid, hello_static_routes = own_static_routes conman, hello_seq = 0\<rparr>
     in bindR (unwrap (bincode_serialize X (Hello hello))) (\<lambda>serialized.
        handle_hello X serialized (V4 (ipv4_new 127 0 0 2) 123) ''DYN-interface'' conman w))"

fun hellos_from :: "('t, 'c) deps \<Rightarrow> uuid list \<Rightarrow> ('t, 'c) connection_manager \<Rightarrow> world \<Rightarrow> ('t, 'c) step" where
  "hellos_from X [] conman w = Inr (conman, w)"
| "hellos_from X (uuid # uuids) conman w =
    bindR (hello_from X uuid conman w) (\<lambda>(conman, w). hellos_from X uuids conman w)"

definition assert_session :: "uuid \<Rightarrow> ('t, 'c) connection_manager \<Rightarrow> test" where
  "assert_session uuid conman =
    and_then (assert_eq (has_endpoints conman) True) (
    and_then (assert_eq (length (endpoints conman)) 1) (
    after_run (unwrap (get_endpoint 154 conman)) (\<lambda>endpoints. assert_eq (session_id endpoints) uuid)))"

definition handle_hello_from_empty :: "('t, 'c) deps \<Rightarrow> world \<Rightarrow> test" where
  "handle_hello_from_empty X w =
    after_run (hello_from X 0x47ce9f06a69244638075d0033d1b7229 test_manager w) (\<lambda>(conman, w).
      assert_session 0x47ce9f06a69244638075d0033d1b7229 conman)"

definition handle_hello_from_overwrite :: "('t, 'c) deps \<Rightarrow> world \<Rightarrow> test" where
  "handle_hello_from_overwrite X w =
    (let uuids = [0x47ce9f06a69244638075d0033d1b7229, 0xdeadbeefa69244638075d0033d1b7229]
     in after_run (hellos_from X uuids test_manager w) (\<lambda>(conman, w).
          assert_session 0xdeadbeefa69244638075d0033d1b7229 conman))"

definition handle_hello_refuse_overwrite_session_reuse :: "('t, 'c) deps \<Rightarrow> world \<Rightarrow> test" where
  "handle_hello_refuse_overwrite_session_reuse X w =
    (let uuids = [0x47ce9f06a69244638075d0033d1b7229, 0xdeadbeefa69244638075d0033d1b7229,
           0x47ce9f06a69244638075d0033d1b7229]
     in after_run (hellos_from X uuids test_manager w) (\<lambda>(conman, w).
          assert_session 0xdeadbeefa69244638075d0033d1b7229 conman))"

text \<open>The manager when all hellos came from endpoint 154: its session and the sessions used.\<close>

definition in_session :: "uuid \<Rightarrow> uuid list \<Rightarrow> ('t, 'c) connection_manager \<Rightarrow> bool" where
  "in_session s used cm \<longleftrightarrow> cm_inv cm \<and> session_history cm = used \<and> s \<in> set used \<and>
    (\<exists>ep. endpoints cm = [(154, ep)] \<and> session_id ep = s)"

lemma assert_session_passes: "in_session s used cm \<Longrightarrow> passes (assert_session s cm)"
  by (auto simp: in_session_def assert_session_def has_endpoints_def)

lemma hello_from_eq:
  assumes "serializes X" "decodes X (bincode_deserialize X)"
  obtains message h where "bincode_deserialize X message = Some (Hello h)" "hello_id h = 154" "hello_session_id h = uuid"
    "hello_from X uuid cm w = handle_hello X message (V4 (ipv4_new 127 0 0 2) 123) ''DYN-interface'' cm w"
proof -
  let ?h = "\<lparr>hello_id = 154, hello_session_id = uuid, hello_static_routes = own_static_routes cm, hello_seq = 0\<rparr>"
  obtain message where m: "bincode_serialize X (Hello ?h) = Some message" by (rule serializesD [OF assms(1)])
  then have "bincode_deserialize X message = Some (Hello ?h)" using assms(2) by (simp add: decodes_def)
  then show thesis by (rule that) (simp_all add: hello_from_def m)
qed

lemma hello_from_accepted:
  assumes "serializes X" "decodes X (bincode_deserialize X)" "cm_inv cm"
    and "endpoints cm = [] \<and> session_history cm = used \<or> in_session s used cm \<and> uuid \<notin> set used"
    and "obliging w"
  shows "\<exists>cm' w'. hello_from X uuid cm w = Inr (cm', w') \<and> in_session uuid (used @ [uuid]) cm' \<and> obliging w'"
proof -
  obtain message h where h: "bincode_deserialize X message = Some (Hello h)" "hello_id h = 154" "hello_session_id h = uuid"
    and eq: "hello_from X uuid cm w = handle_hello X message (V4 (ipv4_new 127 0 0 2) 123) ''DYN-interface'' cm w"
    by (rule hello_from_eq [OF assms(1,2)])
  let ?cm = "ensure_endpoint X (w_now w) h cm"
  obtain ep ep1 where ep: "get_endpoint (hello_id h) ?cm = Some ep" "endpoints ?cm = [(154, ep)]"
    and adm: "admit_session X (w_now w) h ep ?cm = Some (ep1, used @ [uuid])"
  proof (cases "endpoints cm = []")
    case True
    then have "session_history cm = used" using assms(4) by (auto simp: in_session_def)
    with True show thesis
      using that [of "endpoint_new X (w_now w) 154 uuid (packet_sorter_deadline cm)"
          "endpoint_new X (w_now w) 154 uuid (packet_sorter_deadline cm)"]
      by (simp add: h ensure_endpoint_def hm_contains_key_def set_endpoint_def hm_insert_def admit_session_def)
        (simp add: endpoint_new_def)
  next
    case False
    then obtain ep where "endpoints cm = [(154, ep)]" "session_id ep \<noteq> uuid" "session_history cm = used" "uuid \<notin> set used"
      using assms(4) by (auto simp: in_session_def)
    then show thesis
      using that [of ep] by (simp add: h ensure_endpoint_def hm_contains_key_def admit_session_def)
  qed
  have "\<not> panics (handle_hello X message (V4 (ipv4_new 127 0 0 2) 123) ''DYN-interface'' cm w)"
    by (simp add: handle_hello_panics_iff [OF assms(1,3)] hello_fails_def h(1) obliging_names [OF assms(5)])
  then obtain cm' w' where hh: "handle_hello X message (V4 (ipv4_new 127 0 0 2) 123) ''DYN-interface'' cm w = Inr (cm', w')"
    by (auto simp: not_panics_iff)
  obtain ep2 where r: "hello_from X uuid cm w = Inr ((set_endpoint 154 ep2 ?cm)\<lparr>session_history := used @ [uuid],
      routes := learn_routes (hello_static_routes h) 154 (routes cm)\<rparr>, w')" and s: "session_id ep2 = uuid"
    using handle_hello_accepted [OF h(1) ep(1) adm hh] h hh eq by auto
  have inv: "cm_inv ((set_endpoint 154 ep2 ?cm)\<lparr>session_history := used @ [uuid],
      routes := learn_routes (hello_static_routes h) 154 (routes cm)\<rparr>)"
    using handle_hello_outcome [OF assms(1,3), of w message "V4 (ipv4_new 127 0 0 2) 123" "''DYN-interface''"] r eq by simp
  have "endpoints (set_endpoint 154 ep2 ?cm) = [(154, ep2)]"
    by (simp add: set_endpoint_def hm_insert_def ep(2))
  moreover have "obliging w'"
    using handle_hello_outcome [OF assms(1,3), of w message "V4 (ipv4_new 127 0 0 2) 123" "''DYN-interface''"] hh
      obliging_extends [of w w'] assms(5) by simp
  ultimately show ?thesis using r s inv by (simp add: in_session_def)
qed

lemma hello_from_refused:
  assumes "serializes X" "decodes X (bincode_deserialize X)" "in_session s used cm" "uuid \<in> set used" "uuid \<noteq> s"
  shows "hello_from X uuid cm w = Inr (cm, w)"
proof -
  obtain message h where h: "bincode_deserialize X message = Some (Hello h)" "hello_id h = 154" "hello_session_id h = uuid"
    and eq: "hello_from X uuid cm w = handle_hello X message (V4 (ipv4_new 127 0 0 2) 123) ''DYN-interface'' cm w"
    by (rule hello_from_eq [OF assms(1,2)])
  then show ?thesis
    using assms(3-5) by (auto simp: handle_hello_def ensure_endpoint_def hm_contains_key_def in_session_def admit_session_def)
qed

lemma test_manager_sel [simp]:
  "cm_inv test_manager" "endpoints test_manager = []" "session_history test_manager = []" "own_static_routes test_manager = None"
  by (simp_all add: test_manager_def cm_inv_new) (simp_all add: connection_manager_new_def)

lemma hello_tests_pass:
  assumes "serializes X" "decodes X (bincode_deserialize X)" "obliging w"
  shows "passes (handle_hello_from_empty X w)" "passes (handle_hello_from_overwrite X w)"
    "passes (handle_hello_refuse_overwrite_session_reuse X w)"
proof -
  let ?a = "0x47ce9f06a69244638075d0033d1b7229 :: uuid" and ?b = "0xdeadbeefa69244638075d0033d1b7229 :: uuid"
  obtain cm1 w1 where 1: "hello_from X ?a test_manager w = Inr (cm1, w1)" "in_session ?a [?a] cm1" "obliging w1"
    using hello_from_accepted [OF assms(1,2), of test_manager "[]" 0 ?a w] assms(3) by auto
  then show "passes (handle_hello_from_empty X w)"
    by (simp add: handle_hello_from_empty_def assert_session_passes)
  obtain cm2 w2 where 2: "hello_from X ?b cm1 w1 = Inr (cm2, w2)" "in_session ?b [?a, ?b] cm2"
    using hello_from_accepted [OF assms(1,2), of cm1 "[?a]" ?a ?b w1] 1(2,3) by (auto simp: in_session_def)
  then show "passes (handle_hello_from_overwrite X w)"
    by (simp add: handle_hello_from_overwrite_def 1 assert_session_passes)
  have "hello_from X ?a cm2 w2 = Inr (cm2, w2)"
    by (rule hello_from_refused [OF assms(1,2) 2(2)]) simp_all
  then show "passes (handle_hello_refuse_overwrite_session_reuse X w)"
    using assert_session_passes [OF 2(2)] by (simp add: handle_hello_refuse_overwrite_session_reuse_def 1 2)
qed

section \<open>Connections the client opens\<close>

definition first_of :: "'a list \<Rightarrow> 'a option" where
  "first_of xs = (case xs of [] \<Rightarrow> None | x # _ \<Rightarrow> Some x)"

definition opens :: "('t, 'c) deps \<Rightarrow> Connection.interfaces \<Rightarrow> sockaddr \<Rightarrow> ('t, 'c) connection_manager \<Rightarrow> world \<Rightarrow>
    (('t, 'c) connection_manager \<Rightarrow> world \<Rightarrow> test) \<Rightarrow> test" where
  "opens X ifs local_addr conman w f =
    after_run (create_new_connection X ifs ''lo'' local_addr (V4 (ipv4_new 127 0 0 2) 1337) 1337 conman w) (\<lambda>(r, conman, w).
    after_run (unwrap_result r) (\<lambda>_. f conman w))"

text \<open>The fake acknowledgement of the server, for the session of the first endpoint.\<close>

definition acknowledged :: "('t, 'c) deps \<Rightarrow> ('t, 'c) connection_manager \<Rightarrow> world \<Rightarrow>
    (('t, 'c) connection_manager \<Rightarrow> test) \<Rightarrow> test" where
  "acknowledged X conman w f =
    after_run (unwrap (first_of (endpoints conman))) (\<lambda>(_, ep).
    let session = session_id ep;
        ack = \<lparr>ack_id = 1337, ack_session_id = session, ack_static_routes = own_static_routes conman, ack_seq = 0\<rparr>
    in after_run (unwrap (bincode_serialize X (HelloAck ack))) (\<lambda>serialized.
    let info = \<lparr>connection_read_info = \<lparr>packet_bytes = serialized,
          source_address = V4 (ipv4_new 127 0 0 2) 1337, ri_interface_name = ''lo''\<rparr>, eri_endpoint_id = 1337\<rparr>
    in after_run (handle_established_message X (None :: nat f64 option) None info conman w) (\<lambda>(conman, w). f conman)))"

definition connection_manager_client_single_connection ::
  "('t, 'c) deps \<Rightarrow> Connection.interfaces \<Rightarrow> world \<Rightarrow> test" where
  "connection_manager_client_single_connection X ifs w =
    opens X ifs (V4 (ipv4_new 127 0 0 1) 0) test_manager w (\<lambda>conman w.
    acknowledged X conman w (\<lambda>conman.
    after_run (unwrap (first_of (endpoints conman))) (\<lambda>(_, ep).
    after_run (unwrap (first_of (connections ep))) (\<lambda>ce. assert_eq (entry_state ce) Connected))))"

definition connection_manager_client_multiple_connections ::
  "('t, 'c) deps \<Rightarrow> Connection.interfaces \<Rightarrow> world \<Rightarrow> test" where
  "connection_manager_client_multiple_connections X ifs w =
    opens X ifs (V4 (ipv4_new 127 0 0 1) 0) test_manager w (\<lambda>conman w.
    opens X ifs (V4 (ipv4_new 127 0 0 5) 0) conman w (\<lambda>conman w.
    acknowledged X conman w (\<lambda>conman.
    after_run (unwrap (first_of (endpoints conman))) (\<lambda>(_, ep).
      fold (\<lambda>ce t. and_then t (assert_eq (entry_state ce) Connected)) (connections ep) (Inr ())))))"

text \<open>The manager of the tests with \<open>n\<close> connections opened, all over the same path.\<close>

definition has_opened :: "nat \<Rightarrow> ('t, 'c) connection_manager \<Rightarrow> bool" where
  "has_opened n cm \<longleftrightarrow> (\<exists>ep. endpoints cm = [(1337, ep)] \<and> length (connections ep) = n \<and>
    (\<forall>ce\<in>set (connections ep). shape ce = (''lo'', V4 (ipv4_new 127 0 0 2) 1337, Startup)))"

lemma opens_passes:
  assumes "serializes X" "obliging w" "endpoints cm = [] \<and> n = 0 \<or> has_opened n cm"
    and "\<And>cm' w'. has_opened (Suc n) cm' \<Longrightarrow> obliging w' \<Longrightarrow> passes (f cm' w')"
  shows "passes (opens X ifs (V4 ip q) cm w f)"
proof -
  obtain c w' where c: "create_new_connection X ifs ''lo'' (V4 ip q) (V4 (ipv4_new 127 0 0 2) 1337) 1337 cm w =
      Inr (Inr (), set_endpoint 1337 (with_entry ''lo'' (V4 (ipv4_new 127 0 0 2) 1337) c (opened_endpoint X 1337 cm w)) cm, w')"
    "connection.state c = Startup" "extends w w'"
    using create_granted [OF assms(1,2), of ifs "''lo''" ip q "V4 (ipv4_new 127 0 0 2) 1337" 1337 cm] by blast
  have "has_opened (Suc n) (set_endpoint 1337 (with_entry ''lo'' (V4 (ipv4_new 127 0 0 2) 1337) c (opened_endpoint X 1337 cm w)) cm)"
    using assms(3)
  proof
    assume "endpoints cm = [] \<and> n = 0"
    then show ?thesis
      by (simp add: has_opened_def set_endpoint_def hm_insert_def opened_endpoint_def with_entry_def shape_def c(2))
        (simp add: endpoint_new_def)
  next
    assume "has_opened n cm"
    then show ?thesis
      by (auto simp: has_opened_def set_endpoint_def hm_insert_def opened_endpoint_def with_entry_def shape_def c(2))
  qed
  moreover have "obliging w'" using obliging_extends [OF c(3)] assms(2) by simp
  ultimately show ?thesis using assms(4) by (simp add: opens_def c(1))
qed

lemma acknowledged_passes:
  assumes "serializes X" "decodes X (bincode_deserialize X)" "has_opened n cm"
    and "\<And>cm' ep. endpoints cm' = [(1337, ep)] \<Longrightarrow> length (connections ep) = n \<Longrightarrow>
      \<forall>ce\<in>set (connections ep). entry_state ce = Connected \<Longrightarrow> passes (f cm')"
  shows "passes (acknowledged X cm w f)"
proof -
  obtain ep where ep: "endpoints cm = [(1337, ep)]" "length (connections ep) = n"
    "\<forall>ce\<in>set (connections ep). shape ce = (''lo'', V4 (ipv4_new 127 0 0 2) 1337, Startup)"
    using assms(3) by (auto simp: has_opened_def)
  let ?a = "\<lparr>ack_id = 1337, ack_session_id = session_id ep, ack_static_routes = own_static_routes cm, ack_seq = 0\<rparr>"
  obtain bytes where b: "bincode_serialize X (HelloAck ?a) = Some bytes" by (rule serializesD [OF assms(1)])
  then have d: "bincode_deserialize X bytes = Some (HelloAck ?a)" using assms(2) by (simp add: decodes_def)
  let ?read = "\<lparr>packet_bytes = bytes, source_address = V4 (ipv4_new 127 0 0 2) 1337, ri_interface_name = ''lo''\<rparr>"
  let ?ep' = "ep\<lparr>hello_ack_path_latency := insert_new_timestamp (w_system_now w) 0 (hello_ack_path_latency ep),
    connections := map (confirm_entry X (w_now w) ?read) (connections ep)\<rparr>"
  obtain cm' where r: "handle_established_message X (None :: nat f64 option) None
      \<lparr>connection_read_info = ?read, eri_endpoint_id = 1337\<rparr> cm w = Inr (cm', w)" "endpoints cm' = [(1337, ?ep')]"
    by (simp add: handle_established_message_def d handle_hello_ack_def hm_contains_key_def ep(1) debug_latency_def Let_def
        set_endpoint_def hm_insert_def)
  have "\<forall>ce\<in>set (connections ?ep'). entry_state ce = Connected"
    using ep(3) by (auto simp: confirm_entry_eq path_of_def shape_def)
  then have "passes (f cm')" using assms(4) [OF r(2)] ep(2) by simp
  then show ?thesis using r(1) by (simp add: acknowledged_def ep(1) first_of_def b)
qed

lemma all_connected: "\<forall>ce\<in>set ces. entry_state ce = Connected \<Longrightarrow>
    passes (fold (\<lambda>ce t. and_then t (assert_eq (entry_state ce) Connected)) ces t) = passes t"
  by (induction ces arbitrary: t) simp_all

lemma connection_tests_pass:
  assumes "serializes X" "decodes X (bincode_deserialize X)" "obliging w"
  shows "passes (connection_manager_client_single_connection X ifs w)"
    and "passes (connection_manager_client_multiple_connections X ifs w)"
proof -
  show "passes (connection_manager_client_single_connection X ifs w)"
    unfolding connection_manager_client_single_connection_def
    by (rule opens_passes [OF assms(1,3), where n = 0], simp, rule acknowledged_passes [OF assms(1,2)], assumption)
      (auto simp: first_of_def split: list.split)
  show "passes (connection_manager_client_multiple_connections X ifs w)"
    unfolding connection_manager_client_multiple_connections_def
    by (rule opens_passes [OF assms(1,3), where n = 0], simp,
        rule opens_passes [OF assms(1), where n = 1], assumption, simp,
        rule acknowledged_passes [OF assms(1,2)], assumption)
      (simp add: first_of_def all_connected)
qed

section \<open>The test suite\<close>

text \<open>
  Every test of the repository passes on the model, for any encoding that decodes what it encodes and any timer and channel that
  keep their laws, when the kernel grants every call and the sorter's deadline is awaited until it is reached.  The tests are fixed
  runs; what they exercise is stated in general by the properties of the components.
\<close>

lemma unit_tests_pass:
  assumes "serializes X" and "decodes X (bincode_deserialize X)" and "channel_laws X contents cap"
    and "timer_laws X due" and "t1 + 1000000000 \<le> t3" and "obliging w"
  shows "list_all passes
   [address_is_in_subnet, address_is_in_subnet_wider_mask, address_is_in_subnet_wider_mask2,
    address_is_not_in_subnet, insert_route_adds_new_route, insert_route_does_not_add_duplicate_route,
    lookup_returns_correct_endpoint, lookup_returns_empty_vector_for_unknown_address,
    lookup_returns_multiple_endpoints_for_same_address, insert_and_route_to_subnet,
    insert_and_route_to_subnet_with_multiple_endpoints, insert_and_route_to_subnet_with_no_matching_endpoint,
    sorter_handles_out_of_order_packets X t0 t1 t2, sorter_clears_queue_on_large_sequence_jump X t0 t1 t2 t3 t4,
    test_insert_new_timestamp_empty clock, test_insert_new_timestamp_not_empty clock,
    test_insert_new_timestamp_max_size clock, test_insert_new_timestamp_after_max_size clock,
    handle_hello_from_empty X w, handle_hello_from_overwrite X w, handle_hello_refuse_overwrite_session_reuse X w,
    connection_manager_client_single_connection X ifs w, connection_manager_client_multiple_connections X ifs w]"
  using router_tests_pass sorter_handles_out_of_order_packets_passes [OF assms(3,4)]
    sorter_clears_queue_on_large_sequence_jump_passes [OF assms(3-5)] latency_tests_pass
    hello_tests_pass [OF assms(1,2,6)] connection_tests_pass [OF assms(1,2,6)]
  by simp

end
