(* ===== verification/Spec2Isabelle.thy ===== *)
theory Spec2Isabelle
  imports Sorter_Window Sorter_Timer Sorter_Loop Keepalive Server_Paths Server_Sessions End_To_End Manager_Tests
begin

text \<open>
  A model of multi-connect, a tunnel that duplicates packets over several network paths, and proofs
  about it.  File names below are relative to \<open>src/crates\<close>.

  \<^bold>\<open>The program.\<close>  A client and a server (\<open>client/src/main.rs\<close>, \<open>server/src/main.rs\<close>) each
  run one event loop around a \<open>ConnectionManager\<close> (\<open>common/src/connection_manager.rs\<close>).  The manager keeps
  an \<open>Endpoint\<close> (\<open>endpoint.rs\<close>) per peer and a \<open>Router\<close> (\<open>router.rs\<close>).  An endpoint has a
  \<open>Connection\<close> (\<open>connection.rs\<close>, with the socket set-up of \<open>lib.rs\<close>) per path, a \<open>PacketSorter\<close>
  (\<open>packet_sorter.rs\<close>) that puts the packets received over all paths back into order, and two \<open>PathLatency\<close>
  estimators (\<open>path_latency.rs\<close>).  A packet read from the tunnel device is routed, numbered and sent on all
  enabled connections of the endpoints found; a packet received goes through the sorter to the tunnel device.
  Hellos and their acknowledgements (\<open>messages.rs\<close>) bring paths up and keep them alive; a timeout or a
  failed send takes them down.

  \<^bold>\<open>The theories.\<close>

  \<^item> \<open>Prelude\<close>: number types, panics and results, the predicate \<open>outcome\<close> for code that may panic, list lemmas.
  \<^item> \<open>Machine\<close>: locales for runs of a step function, with invariants and with a history of outputs;
    interpreted for the router, the estimators and the sorter.
  \<^item> \<open>Ordered_Map\<close>, \<open>Hash_Map\<close>: the interfaces of \<open>BTreeMap\<close> and \<open>HashMap\<close> as locales and the
    association lists that implement them.
  \<^item> \<open>Router\<close>: the routing table, the locale \<open>route_table\<close> the manager relies on, and its interpretation.
  \<^item> \<open>Messages\<close>, \<open>World\<close>: the wire messages; the operating system as a trace of calls with arbitrary answers, and the
    crates outside the repository as the record \<open>deps\<close> with their documented laws.
  \<^item> \<open>Packet_Sorter\<close> (the operations and the invariant), \<open>Sorter_Delivery\<close> (order and uniqueness of
    what is delivered over any run), \<open>Sorter_Window\<close> (what one operation releases, reassembly of a window),
    \<open>Sorter_Timer\<close> (the deadline timer), \<open>Sorter_Loop\<close> (the release loop as a loop, and that it ends).
  \<^item> \<open>Path_Latency\<close>, \<open>Connection\<close>, \<open>Endpoint\<close>, \<open>Loggers\<close>: the files of the same names, and the two log files.
  \<^item> \<open>Connection_Manager\<close>: every handler of the manager, in the order of the file.
  \<^item> \<open>Manager_Invariant\<close>, \<open>Manager_Safety\<close>: the invariant \<open>cm_inv\<close> and, for every handler, which panics
    it can end in and that it keeps the invariant.
  \<^item> \<open>Manager_Removal\<close> (removal in closed form), \<open>Manager_Traffic\<close> (duplication and numbering),
    \<open>Manager_Sessions\<close> (which sessions are accepted, and what a new one starts with), \<open>Manager_Paths\<close> (how paths come up and fail),
    \<open>Keepalive\<close> (a round of greetings in closed form).
  \<^item> \<open>Event_Loop\<close>, \<open>Server\<close>, \<open>Client\<close>: settings, events, the set-up of the two programs as the system calls
    they make, the two loops as step relations, and their reachable states; \<open>Event_Panics\<close>: for every operation that can panic the
    exact circumstance, down to the answer to one call, from which both loops get when a turn panics; \<open>Client_Start\<close>: what a client has opened and sent
    when its loop begins; \<open>Server_Paths\<close>: the connections of a
    server are named by what a timeout or a failed send reports, so that exactly these are removed; \<open>Server_Sessions\<close>: a registered endpoint
    does not return to a session it has left.
  \<^item> \<open>Endpoint_Refinement\<close>: the abstract view of a loop, in which an endpoint is a sorter and a counter, and the
    locale \<open>refining_loop\<close> of loops whose turns refine it; \<open>Wire_Instance\<close>: an encoding of the messages with its
    round trip, for the witnesses; \<open>End_To_End\<close>: both loops are interpretations of \<open>refining_loop\<close>, and packets
    travel in order from the tunnel device of one program to that of the other.
  \<^item> \<open>Component_Tests\<close>, \<open>Manager_Tests\<close>: the unit tests of the repository, and that they pass.

  \<^bold>\<open>From tunnel to tunnel.\<close>  \<open>client_to_server_in_order\<close> and \<open>server_to_client_in_order\<close> put the parts together.  A
  \<open>session_run\<close> is a run of a loop, with any events, sends that fail and clocks, during which one endpoint stays in one session; it
  records what was read from the tunnel device for the endpoint and what was taken out of the sorters.  If the packets that reach
  one side were sent by the other, then what is written is a subsequence of what was read.  Both hold within one session only: an endpoint that is removed and greeted again
  starts over, in the same session if the peer kept it (\<open>forgotten_endpoint_accepts_used_session\<close>).  The sorter delivers increasing
  numbers (\<open>run_ordered\<close>), the sender numbers consecutively (\<open>run_sent\<close>), and fewer than \<open>2 ^ 64\<close> packets are sent
  in a session, so that numbers do not wrap.

  \<^bold>\<open>Correspondence.\<close>  A struct is a record, an enum a datatype, and a method a definition with the name of the
  method (prefixed by its type where the bare name is too common).  Integers have their Rust width; counters wrap, as
  in a release build.  A panic is a value \<open>Inl p\<close> of type \<open>'a run\<close>; a \<open>Result\<close> is an \<open>io_result\<close>.
  Loops are recursive functions; the release loop of the sorter terminates because each round shortens the queue, so no
  fuel is needed anywhere.  An \<open>await\<close> function takes the choice of the scheduler as an argument, and
  returns \<open>None\<close> when the future chosen is not ready.  All clock readings inside one handler
  are the same instant; time passes between turns of a loop.

  \<^bold>\<open>Assumptions.\<close>  Theorems name what they need of the outside: \<open>timer_laws\<close>, \<open>channel_laws\<close>, \<open>select_laws\<close> (the
  documentation of the smol and futures crates) \<open>serializes\<close> (bincode can encode every message)
  and, between the two programs, \<open>decodes\<close> (one
  side decodes what the other encodes).  The record \<open>ref_deps\<close> satisfies the laws; the witnesses use it and its variants \<open>demo_deps\<close> and \<open>wire_deps\<close>.
  Nothing is assumed of the answers of the kernel unless a theorem says so.  The wall clock is any integer, before or after the
  epoch, and may be set back between turns; a log line before the epoch panics, as its \<open>unwrap\<close> does.

  \<^bold>\<open>Not modelled.\<close>  The byte encodings of bincode and serde_json, parsing of IP headers, of the command line and of the
  configuration file, the log output of \<open>info!\<close> and the like, the options of the tunnel device that are constants of the program, the closing of descriptors when the value that holds a socket is dropped
  (it returns nothing and the program cannot observe it; a descriptor the kernel hands out again is covered, for its answers are
  arbitrary) with the second descriptor that \<open>Drop\<close> for \<open>Connection\<close> keeps from being closed, and cancellation of the futures that lose a race.

  \<^bold>\<open>What modelling showed.\<close>  An endpoint left without connections by a failed socket or a failed greeting makes the next wait
  panic (\<open>failed_first_hello_breaks_waiting\<close>, \<open>failed_greeting_breaks_waiting\<close>); a repeated hello over a new path
  panics when no socket can be opened (\<open>repeated_hello_panics_iff\<close>); the history of sessions does not protect an
  endpoint that was removed (\<open>forgotten_endpoint_accepts_used_session\<close>); a wall clock set back panics the
  latency estimate (\<open>estimate_panics_iff\<close>); a jump of sequence numbers does not clear the queue, as the log line
  says it does (\<open>jump_releases_only_first_run\<close>).
\<close>

end
